(* ===== verification/Prelude.thy ===== *)
theory Prelude
  imports Main "HOL-Library.Sublist"
begin

text \<open>
  Shared vocabulary of the development.

  \<^item> Exceptions of the modelled Python are values of \<open>py_exn\<close>; an operation that can raise
    returns a \<open>'a result\<close>, with \<open>Inl\<close> for the exception.
  \<^item> Python's sequence indexing and slicing, with negative indices, on HOL lists.
  \<^item> The named collections of rewrite rules that the component theories extend and their proofs
    use: \<open>py_simps\<close> (string operations), \<open>rx_simps\<close> (regular expressions), \<open>scan_simps\<close>
    (bracket scanning) and \<open>lint_simps\<close> (state of the linter).
\<close>

named_theorems py_simps "rewrite rules for the modelled Python string operations"
named_theorems rx_simps "rewrite rules for the modelled regular expressions"
named_theorems scan_simps "rewrite rules for the bracket scanners"
named_theorems lint_simps "rewrite rules for the linter's module-wide state"

section \<open>Exceptions as values\<close>

datatype py_exn = IndexError | KeyError | AttributeError | ValueError | AssertionError

type_synonym 'a result = "py_exn + 'a"

fun res_bind :: "'a result \<Rightarrow> ('a \<Rightarrow> 'b result) \<Rightarrow> 'b result" where
  "res_bind (Inl e) f = Inl e"
| "res_bind (Inr x) f = f x"

fun res_map :: "('a \<Rightarrow> 'b) \<Rightarrow> 'a result \<Rightarrow> 'b result" where
  "res_map f (Inl e) = Inl e"
| "res_map f (Inr x) = Inr (f x)"

fun returns :: "'a result \<Rightarrow> bool" where
  "returns (Inl e) = False"
| "returns (Inr x) = True"

lemma returns_iff: "returns r \<longleftrightarrow> (\<exists>x. r = Inr x)"
  by (cases r) auto

lemma res_bind_Inr_iff [simp]: "res_bind r f = Inr y \<longleftrightarrow> (\<exists>x. r = Inr x \<and> f x = Inr y)"
  by (cases r) auto

lemma res_map_Inr_iff [simp]: "res_map f r = Inr y \<longleftrightarrow> (\<exists>x. r = Inr x \<and> y = f x)"
  by (cases r) auto

lemma returns_bind [simp]: "returns (res_bind r f) \<longleftrightarrow> (\<exists>x. r = Inr x \<and> returns (f x))"
  by (cases r) auto

lemma returns_map [simp]: "returns (res_map f r) \<longleftrightarrow> returns r"
  by (cases r) auto

text \<open>A loop whose body may raise: the results are collected until the first exception.\<close>

fun res_mapM :: "('a \<Rightarrow> 'b result) \<Rightarrow> 'a list \<Rightarrow> 'b list result" where
  "res_mapM f [] = Inr []"
| "res_mapM f (x # xs) = res_bind (f x) (\<lambda>y. res_map (\<lambda>ys. y # ys) (res_mapM f xs))"

lemma res_mapM_total: "(\<And>x. x \<in> set xs \<Longrightarrow> f x = Inr (g x)) \<Longrightarrow> res_mapM f xs = Inr (map g xs)"
  by (induction xs) auto

lemma res_mapM_length: "res_mapM f xs = Inr ys \<Longrightarrow> length ys = length xs"
  by (induction xs arbitrary: ys) auto

lemma res_mapM_nth: "res_mapM f xs = Inr ys \<Longrightarrow> i < length xs \<Longrightarrow> f (xs ! i) = Inr (ys ! i)"
  by (induction xs arbitrary: ys i) (auto simp: nth_Cons split: nat.split)

section \<open>Python's indexing and slicing\<close>

text \<open>\<open>xs[i]\<close>: a negative index counts from the end, an index out of range raises.\<close>

definition py_get :: "'a list \<Rightarrow> int \<Rightarrow> 'a result" where
  "py_get xs i =
     (let n = int (length xs); j = (if i < 0 then i + n else i)
      in if 0 \<le> j \<and> j < n then Inr (xs ! nat j) else Inl IndexError)"

lemma py_get_in [simp]: "i < length xs \<Longrightarrow> py_get xs (int i) = Inr (xs ! i)"
  by (simp add: py_get_def)

lemma py_get_out [simp]: "length xs \<le> i \<Longrightarrow> py_get xs (int i) = Inl IndexError"
  by (simp add: py_get_def)

lemma py_get_last [simp]: "xs \<noteq> [] \<Longrightarrow> py_get xs (- 1) = Inr (last xs)"
  by (cases xs rule: rev_cases) (auto simp: py_get_def nth_append nat_diff_distrib)

lemma py_get_returns: "returns (py_get xs i) \<longleftrightarrow> - int (length xs) \<le> i \<and> i < int (length xs)"
  by (auto simp: py_get_def Let_def)

text \<open>\<open>xs[a:b]\<close>: bounds are shifted when negative and clipped to the sequence; it never raises.\<close>

definition py_clip :: "nat \<Rightarrow> int \<Rightarrow> nat" where
  "py_clip n i = (if i < 0 then nat (i + int n) else min n (nat i))"

definition py_slice :: "'a list \<Rightarrow> int \<Rightarrow> int \<Rightarrow> 'a list" where
  "py_slice xs a b =
     (let i = py_clip (length xs) a; j = py_clip (length xs) b in take (j - i) (drop i xs))"

definition py_from :: "'a list \<Rightarrow> int \<Rightarrow> 'a list" where
  "py_from xs a = drop (py_clip (length xs) a) xs"

lemma py_clip_nat [simp]: "py_clip n (int i) = min n i"
  by (simp add: py_clip_def)

lemma py_slice_nat [simp]: "py_slice xs (int a) (int b) = take (b - a) (drop a xs)"
  by (simp add: py_slice_def min_def Let_def)

lemma py_slice_0_nat [simp]: "py_slice xs 0 (int b) = take b xs"
  using py_slice_nat[of xs 0 b] by simp

lemma py_from_nat [simp]: "py_from xs (int a) = drop a xs"
  by (simp add: py_from_def min_def)

lemma py_from_minus_one: "xs \<noteq> [] \<Longrightarrow> py_from xs (- 1) = [last xs]"
  by (cases xs rule: rev_cases) (auto simp: py_from_def py_clip_def nat_add_distrib)

lemma length_py_slice: "length (py_slice xs a b) \<le> length xs"
  by (simp add: py_slice_def Let_def)

section \<open>Lists\<close>

lemma dropWhile_hd: "dropWhile P xs \<noteq> [] \<Longrightarrow> \<not> P (hd (dropWhile P xs))"
  by (induction xs) auto

lemma dropWhile_length_le: "length (dropWhile P xs) \<le> length xs"
  by (rule length_dropWhile_le)

lemma list_all_dropWhile: "list_all P xs \<longleftrightarrow> dropWhile P xs = []"
  by (induction xs) auto

lemma first_split_unique: "xs @ x # ys = xs' @ x # ys' \<Longrightarrow> x \<notin> set xs \<Longrightarrow> x \<notin> set xs' \<Longrightarrow> xs = xs' \<and> ys = ys'"
proof (induction xs arbitrary: xs')
  case Nil
  then show ?case by (cases xs') auto
next
  case (Cons a xs)
  then show ?case by (cases xs') auto
qed

lemma take_list_update_beyond: "n \<le> i \<Longrightarrow> take n (xs[i := x]) = take n xs"
  by simp

end
