(* ===== verification/PyString.thy ===== *)
theory PyString
  imports Prelude
begin

text \<open>
  Python 2's string methods, as far as \<open>cpplint.py\<close> uses them.  A string is a list of
  characters whose code points lie below 256; on the characters beyond ASCII the two Python types
  differ: \<open>unicode\<close> strings (the lines read through \<open>codecs\<close>) also count \<open>0x1C\<close>-\<open>0x1F\<close>,
  \<open>0x85\<close> and \<open>0xA0\<close> as white space, byte strings (arguments and configuration) do not.

  \<^item> character classes \<open>ascii_space\<close>, \<open>uni_space\<close>, \<open>word_char\<close>, ...
  \<^item> \<open>find_nat\<close>/\<open>py_find\<close>, \<open>py_rfind\<close>, \<open>py_count\<close>, \<open>py_replace\<close>, \<open>split_char\<close>, \<open>split_space\<close>
    and the strip functions, each with the lemmas that characterise it.
\<close>

section \<open>Characters\<close>

abbreviation DQ :: char where "DQ \<equiv> CHR 0x22"
abbreviation SQ :: char where "SQ \<equiv> CHR 0x27"
abbreviation BS :: char where "BS \<equiv> CHR 0x5C"
abbreviation NL :: char where "NL \<equiv> CHR 0x0A"
abbreviation CR :: char where "CR \<equiv> CHR 0x0D"
abbreviation TAB :: char where "TAB \<equiv> CHR 0x09"
abbreviation NUL :: char where "NUL \<equiv> CHR 0x00"

definition one_of :: "string \<Rightarrow> char \<Rightarrow> bool" where
  "one_of cs c \<longleftrightarrow> c \<in> set cs"

definition none_of :: "string \<Rightarrow> char \<Rightarrow> bool" where
  "none_of cs c \<longleftrightarrow> c \<notin> set cs"

definition ascii_space :: "char \<Rightarrow> bool" where
  "ascii_space c \<longleftrightarrow> c \<in> set [CHR 0x20, CHR 0x09, CHR 0x0A, CHR 0x0B, CHR 0x0C, CHR 0x0D]"

definition uni_space :: "char \<Rightarrow> bool" where
  "uni_space c \<longleftrightarrow> ascii_space c \<or>
     c \<in> set [CHR 0x1C, CHR 0x1D, CHR 0x1E, CHR 0x1F, CHR 0x85, CHR 0xA0]"

definition between :: "char \<Rightarrow> char \<Rightarrow> char \<Rightarrow> bool" where
  "between a b c \<longleftrightarrow> (of_char a :: nat) \<le> of_char c \<and> (of_char c :: nat) \<le> of_char b"

definition digit_char :: "char \<Rightarrow> bool" where
  "digit_char = between (CHR ''0'') (CHR ''9'')"

definition upper_char :: "char \<Rightarrow> bool" where
  "upper_char = between (CHR ''A'') (CHR ''Z'')"

definition lower_char :: "char \<Rightarrow> bool" where
  "lower_char = between (CHR ''a'') (CHR ''z'')"

definition alpha_char :: "char \<Rightarrow> bool" where
  "alpha_char c \<longleftrightarrow> upper_char c \<or> lower_char c"

definition alnum_char :: "char \<Rightarrow> bool" where
  "alnum_char c \<longleftrightarrow> alpha_char c \<or> digit_char c"

definition word_char :: "char \<Rightarrow> bool" where
  "word_char c \<longleftrightarrow> alnum_char c \<or> c = CHR ''_''"

definition hex_char :: "char \<Rightarrow> bool" where
  "hex_char c \<longleftrightarrow> digit_char c \<or> between (CHR ''a'') (CHR ''f'') c \<or> between (CHR ''A'') (CHR ''F'') c"

lemmas char_class_defs = one_of_def none_of_def ascii_space_def uni_space_def between_def
  digit_char_def upper_char_def lower_char_def alpha_char_def alnum_char_def word_char_def
  hex_char_def

text \<open>\<open>str.lower\<close> and \<open>str.upper\<close> on byte strings change the ASCII letters only.\<close>

definition lower1 :: "char \<Rightarrow> char" where
  "lower1 c = (if upper_char c then char_of (of_char c + (32::nat)) else c)"

definition upper1 :: "char \<Rightarrow> char" where
  "upper1 c = (if lower_char c then char_of (of_char c - (32::nat)) else c)"

definition py_lower :: "string \<Rightarrow> string" where
  "py_lower = map lower1"

definition py_upper :: "string \<Rightarrow> string" where
  "py_upper = map upper1"

lemma lower1_not_upper: "\<not> upper_char (lower1 c)"
  by (auto simp: lower1_def upper_char_def between_def)

lemma lower1_idem [simp]: "lower1 (lower1 c) = lower1 c"
  using lower1_not_upper[of c] by (simp add: lower1_def[of "lower1 c"])

lemma py_lower_idem [simp]: "py_lower (py_lower s) = py_lower s"
  by (simp add: py_lower_def)

section \<open>Prefixes, suffixes and searching\<close>

abbreviation startswith :: "string \<Rightarrow> string \<Rightarrow> bool" where
  "startswith s p \<equiv> prefix p s"

definition endswith :: "string \<Rightarrow> string \<Rightarrow> bool" where
  "endswith s p \<longleftrightarrow> prefix (rev p) (rev s)"

lemma endswith_iff: "endswith s p \<longleftrightarrow> (\<exists>u. s = u @ p)"
  by (auto simp: endswith_def prefix_def) (metis rev_append rev_rev_ident)

lemma endswith_drop: "endswith s p \<Longrightarrow> take (length s - length p) s @ p = s"
  by (auto simp: endswith_iff)

text \<open>The position of the first occurrence of a string in another.\<close>

fun find_nat :: "string \<Rightarrow> string \<Rightarrow> nat option" where
  "find_nat sub [] = (if sub = [] then Some 0 else None)"
| "find_nat sub (c # cs) = (if prefix sub (c # cs) then Some 0 else map_option Suc (find_nat sub cs))"

text \<open>\<open>s.find(sub)\<close> and \<open>s.find(sub, start)\<close> for \<open>0 \<le> start\<close>; \<open>-1\<close> when there is none.\<close>

definition py_find :: "string \<Rightarrow> string \<Rightarrow> int" where
  "py_find s sub = (case find_nat sub s of None \<Rightarrow> - 1 | Some i \<Rightarrow> int i)"

definition py_find_from :: "string \<Rightarrow> string \<Rightarrow> nat \<Rightarrow> int" where
  "py_find_from s sub a =
     (if length s < a then - 1
      else case find_nat sub (drop a s) of None \<Rightarrow> - 1 | Some i \<Rightarrow> int (a + i))"

text \<open>\<open>sub in s\<close>\<close>

definition contains :: "string \<Rightarrow> string \<Rightarrow> bool" where
  "contains s sub \<longleftrightarrow> find_nat sub s \<noteq> None"

lemma find_nat_Some:
  "find_nat sub s = Some i \<Longrightarrow> i + length sub \<le> length s \<and> prefix sub (drop i s) \<and> (\<forall>j<i. \<not> prefix sub (drop j s))"
proof (induction s arbitrary: i)
  case Nil
  then show ?case by (auto split: if_splits)
next
  case (Cons c cs)
  show ?case
  proof (cases "prefix sub (c # cs)")
    case True
    with Cons.prems show ?thesis by (auto dest: prefix_length_le)
  next
    case False
    with Cons.prems obtain i' where i': "find_nat sub cs = Some i'" "i = Suc i'"
      by auto
    with Cons.IH [OF i'(1)] False show ?thesis
      by (auto simp: less_Suc_eq_0_disj)
  qed
qed

lemma find_nat_None: "find_nat sub s = None \<longleftrightarrow> (\<forall>i. i \<le> length s \<longrightarrow> \<not> prefix sub (drop i s))"
proof (induction s)
  case Nil
  show ?case by auto
next
  case (Cons c cs)
  have "(\<forall>i. i \<le> length (c # cs) \<longrightarrow> \<not> prefix sub (drop i (c # cs))) \<longleftrightarrow>
        \<not> prefix sub (c # cs) \<and> (\<forall>i. i \<le> length cs \<longrightarrow> \<not> prefix sub (drop i cs))"
    (is "?l \<longleftrightarrow> ?r")
  proof
    assume l: ?l
    show ?r using spec[OF l, of 0] spec[OF l, of "Suc _"] by auto
  next
    assume r: ?r
    show ?l
    proof (intro allI impI)
      fix i assume "i \<le> length (c # cs)"
      with r show "\<not> prefix sub (drop i (c # cs))" by (cases i) auto
    qed
  qed
  with Cons.IH show ?case by auto
qed

lemma py_find_le: "py_find s sub \<le> int (length s) - int (length sub) \<or> py_find s sub = - 1"
  by (auto simp: py_find_def dest: find_nat_Some split: option.splits)

lemma py_find_ge: "- 1 \<le> py_find s sub"
  by (auto simp: py_find_def split: option.splits)

text \<open>\<open>s.rfind(c)\<close> for a single character.\<close>

fun rfind_nat :: "char \<Rightarrow> string \<Rightarrow> nat option" where
  "rfind_nat c [] = None"
| "rfind_nat c (x # xs) =
     (case rfind_nat c xs of Some i \<Rightarrow> Some (Suc i) | None \<Rightarrow> if x = c then Some 0 else None)"

definition py_rfind :: "string \<Rightarrow> char \<Rightarrow> int" where
  "py_rfind s c = (case rfind_nat c s of None \<Rightarrow> - 1 | Some i \<Rightarrow> int i)"

lemma rfind_nat_None: "rfind_nat c s = None \<longleftrightarrow> c \<notin> set s"
  by (induction s) (auto split: option.splits)

lemma rfind_nat_Some: "rfind_nat c s = Some i \<Longrightarrow> i < length s \<and> s ! i = c \<and> c \<notin> set (drop (Suc i) s)"
  by (induction s arbitrary: i) (auto simp: rfind_nat_None split: option.splits if_splits)

section \<open>Counting and replacing\<close>

text \<open>\<open>s.count(sub)\<close>: occurrences that do not overlap, from the left (\<open>sub\<close> not empty).\<close>

fun py_count :: "string \<Rightarrow> string \<Rightarrow> nat" where
  "py_count sub [] = 0"
| "py_count sub (c # cs) =
     (if sub \<noteq> [] \<and> prefix sub (c # cs) then Suc (py_count sub (drop (length sub - 1) cs))
      else py_count sub cs)"

text \<open>\<open>s.replace(old, new)\<close> (\<open>old\<close> not empty).\<close>

fun py_replace :: "string \<Rightarrow> string \<Rightarrow> string \<Rightarrow> string" where
  "py_replace old new [] = []"
| "py_replace old new (c # cs) =
     (if old \<noteq> [] \<and> prefix old (c # cs) then new @ py_replace old new (drop (length old - 1) cs)
      else c # py_replace old new cs)"

lemma py_count_single: "py_count [c] s = count_list s c"
  by (induction s) (auto simp: prefix_Cons)

lemma py_count_le: "py_count sub s * length sub \<le> length s"
proof (induction sub s rule: py_count.induct)
  case (1 sub)
  show ?case by simp
next
  case (2 sub c cs)
  show ?case
  proof (cases "sub \<noteq> [] \<and> prefix sub (c # cs)")
    case True
    then have "length sub \<le> Suc (length cs)" by (auto dest: prefix_length_le)
    with True "2.IH"(1) show ?thesis by (cases sub) auto
  next
    case False
    with "2.IH"(2) show ?thesis by auto
  qed
qed

lemma py_count_absent: "c \<notin> set s \<Longrightarrow> c \<in> set sub \<Longrightarrow> py_count sub s = 0"
proof (induction s)
  case Nil
  show ?case by simp
next
  case (Cons d s)
  have "\<not> prefix sub (d # s)"
    using set_mono_prefix[of sub "d # s"] Cons.prems by blast
  with Cons show ?case by simp
qed

lemma py_replace_absent: "old \<noteq> [] \<Longrightarrow> find_nat old s = None \<Longrightarrow> py_replace old new s = s"
  by (induction s) (auto split: if_splits)

lemma py_replace_single: "py_replace [a] [b] s = map (\<lambda>c. if c = a then b else c) s"
  by (induction s) (auto simp: prefix_Cons)

lemma set_py_replace: "set (py_replace old new s) \<subseteq> set new \<union> set s"
proof (induction old new s rule: py_replace.induct)
  case (1 old new)
  show ?case by simp
next
  case (2 old new c cs)
  show ?case
  proof (cases "old \<noteq> [] \<and> prefix old (c # cs)")
    case True
    with "2.IH"(1) show ?thesis using set_drop_subset[of "length old - 1" cs] by auto
  next
    case False
    with "2.IH"(2) show ?thesis by auto
  qed
qed

lemma py_replace_in_absent:
  assumes "a \<in> set old" "a \<notin> set s"
  shows "py_replace old new s = s"
  using assms(2)
proof (induction s)
  case Nil
  show ?case by simp
next
  case (Cons c cs)
  have "\<not> prefix old (c # cs)"
    using set_mono_prefix[of old "c # cs"] assms(1) Cons.prems by blast
  with Cons show ?case by simp
qed

section \<open>Splitting, joining and stripping\<close>

text \<open>\<open>s.split(c)\<close> for a one-character separator: always at least one piece.\<close>

fun split_char :: "char \<Rightarrow> string \<Rightarrow> string list" where
  "split_char sep [] = [[]]"
| "split_char sep (c # cs) =
     (if c = sep then [] # split_char sep cs
      else case split_char sep cs of [] \<Rightarrow> [[c]] | p # ps \<Rightarrow> (c # p) # ps)"

fun join_char :: "char \<Rightarrow> string list \<Rightarrow> string" where
  "join_char sep [] = []"
| "join_char sep [p] = p"
| "join_char sep (p # q # ps) = p @ sep # join_char sep (q # ps)"

lemma split_char_not_Nil [simp]: "split_char sep s \<noteq> []"
  by (induction s) (auto split: list.splits)

lemma join_char_Cons: "join_char sep ((c # p) # ps) = c # join_char sep (p # ps)"
  by (cases ps) auto

lemma join_split_char: "join_char sep (split_char sep s) = s"
proof (induction s)
  case Nil
  show ?case by simp
next
  case (Cons c cs)
  show ?case
  proof (cases "split_char sep cs")
    case Nil
    then show ?thesis by simp
  next
    case (Cons p ps)
    with \<open>join_char sep (split_char sep cs) = cs\<close> show ?thesis
      by (simp add: join_char_Cons)
  qed
qed

lemma split_char_no_sep: "p \<in> set (split_char sep s) \<Longrightarrow> sep \<notin> set p"
  by (induction s arbitrary: p) (auto split: if_splits list.splits)

lemma split_char_absent: "sep \<notin> set s \<Longrightarrow> split_char sep s = [s]"
  by (induction s) auto

text \<open>\<open>s.split()\<close>: the maximal runs of characters that are not white space.\<close>

fun split_space_aux :: "(char \<Rightarrow> bool) \<Rightarrow> string \<Rightarrow> string \<Rightarrow> string list" where
  "split_space_aux sp acc [] = (if acc = [] then [] else [rev acc])"
| "split_space_aux sp acc (c # cs) =
     (if sp c then (if acc = [] then split_space_aux sp [] cs else rev acc # split_space_aux sp [] cs)
      else split_space_aux sp (c # acc) cs)"

definition split_space :: "(char \<Rightarrow> bool) \<Rightarrow> string \<Rightarrow> string list" where
  "split_space sp s = split_space_aux sp [] s"

lemma split_space_aux_pieces:
  "list_all (\<lambda>c. \<not> sp c) acc \<Longrightarrow>
   list_all (\<lambda>p. p \<noteq> [] \<and> list_all (\<lambda>c. \<not> sp c) p) (split_space_aux sp acc s)"
  by (induction s arbitrary: acc) simp_all

lemma split_space_pieces:
  "list_all (\<lambda>p. p \<noteq> [] \<and> list_all (\<lambda>c. \<not> sp c) p) (split_space sp s)"
  unfolding split_space_def by (rule split_space_aux_pieces) simp

definition lstrip :: "(char \<Rightarrow> bool) \<Rightarrow> string \<Rightarrow> string" where
  "lstrip sp s = dropWhile sp s"

definition rstrip :: "(char \<Rightarrow> bool) \<Rightarrow> string \<Rightarrow> string" where
  "rstrip sp s = rev (dropWhile sp (rev s))"

definition strip :: "(char \<Rightarrow> bool) \<Rightarrow> string \<Rightarrow> string" where
  "strip sp s = rstrip sp (lstrip sp s)"

lemma rstrip_prefix: "prefix (rstrip sp s) s"
proof -
  have "suffix (dropWhile sp (rev s)) (rev s)" by (rule suffix_dropWhile)
  then show ?thesis by (simp add: rstrip_def suffix_to_prefix)
qed

lemma length_lstrip: "length (lstrip sp s) \<le> length s"
  by (simp add: lstrip_def length_dropWhile_le)

lemma length_rstrip: "length (rstrip sp s) \<le> length s"
  using prefix_length_le[OF rstrip_prefix] .

lemma strip_Nil_iff: "strip sp s = [] \<longleftrightarrow> (\<forall>c\<in>set s. sp c)"
proof -
  have "strip sp s = [] \<longleftrightarrow> (\<forall>c\<in>set (dropWhile sp s). sp c)"
    by (simp add: strip_def rstrip_def lstrip_def)
  also have "\<dots> \<longleftrightarrow> (\<forall>c\<in>set s. sp c)"
    by (induction s) auto
  finally show ?thesis .
qed

lemma strip_hd: "strip sp s \<noteq> [] \<Longrightarrow> \<not> sp (hd (strip sp s))"
proof -
  assume *: "strip sp s \<noteq> []"
  obtain t where "lstrip sp s = strip sp s @ t"
    using rstrip_prefix[of sp "lstrip sp s"] by (auto simp: strip_def prefix_def)
  with * have "hd (strip sp s) = hd (lstrip sp s)" "lstrip sp s \<noteq> []" by auto
  then show ?thesis by (auto simp: lstrip_def dropWhile_hd)
qed

text \<open>\<open>s.isspace()\<close>: not empty and white space only.\<close>

definition py_isspace :: "(char \<Rightarrow> bool) \<Rightarrow> string \<Rightarrow> bool" where
  "py_isspace sp s \<longleftrightarrow> s \<noteq> [] \<and> list_all sp s"

lemmas [py_simps] = py_find_def py_find_from_def contains_def endswith_def lstrip_def rstrip_def
  strip_def py_isspace_def split_space_def py_lower_def py_upper_def lower1_def upper1_def py_rfind_def

end
