(* ===== verification/PyRegex.thy ===== *)
theory PyRegex
  imports PyString
begin

text \<open>
  Python's regular expressions, as far as \<open>cpplint.py\<close> uses them through \<open>Match\<close>, \<open>Search\<close>,
  \<open>ReplaceAll\<close> and \<open>re.compile(...)\<close>.

  A pattern is a syntax tree of type \<open>regex\<close>; the theories that translate the code write each
  pattern of the source as such a tree, next to its source text.  The matcher works on a cursor
  \<open>(u, v, caps)\<close>: the consumed text reversed, the text to come, and the captured groups.

  \<^item> \<open>paths\<close> says which cursors a pattern can reach (a set of moves, without priorities);
  \<^item> \<open>runs\<close> lists them in Python's order of preference (greedy, lazy, left alternative first);
  \<^item> \<open>match_k\<close> is the backtracking matcher, which stops at the first success; \<open>re_match\<close>,
    \<open>re_search\<close> and \<open>re_sub\<close> are the entry points the program calls.

  The lemmas show that the three views agree, that a match lies inside its subject, and that
  \<open>re_search\<close> finds the leftmost match.  The iteration of a star must consume text, so matching
  always terminates.  A look-ahead leaves the groups as they were; no positive
  look-ahead of the source contains one.
\<close>

section \<open>Syntax and cursors\<close>

datatype regex =
    REmpty
  | RChar "char \<Rightarrow> bool"
  | RSeq regex regex
  | RAlt regex regex
  | RStar regex
  | RLazy regex
  | RGroup nat regex
  | RAhead regex
  | RNotAhead regex
  | RBol
  | REol
  | RWordB
  | RBack nat

type_synonym caps = "(nat \<times> nat \<times> nat) list"
type_synonym cursor = "string \<times> string \<times> caps"

text \<open>\<open>$\<close> holds at the end and before a final newline; \<open>\<backslash>b\<close> between a word character and none.\<close>

fun at_eol :: "string \<Rightarrow> bool" where
  "at_eol [] = True"
| "at_eol (c # cs) = (cs = [] \<and> c = NL)"

fun head_is_word :: "string \<Rightarrow> bool" where
  "head_is_word [] = False"
| "head_is_word (c # cs) = word_char c"

definition at_word_boundary :: "string \<Rightarrow> string \<Rightarrow> bool" where
  "at_word_boundary u v \<longleftrightarrow> head_is_word u \<noteq> head_is_word v"

fun shorter :: "string \<Rightarrow> string \<Rightarrow> bool" where
  "shorter xs [] = False"
| "shorter [] (y # ys) = True"
| "shorter (x # xs) (y # ys) = shorter xs ys"

lemma shorter_iff: "shorter xs ys \<longleftrightarrow> length xs < length ys"
  by (induction xs ys rule: shorter.induct) auto

text \<open>The text a group captured, read off the cursor.\<close>

definition captured :: "nat \<Rightarrow> cursor \<Rightarrow> string option" where
  "captured n st = (case st of (u, v, cs) \<Rightarrow>
     (case map_of cs n of None \<Rightarrow> None | Some (b, e) \<Rightarrow> Some (take (e - b) (drop b (rev u @ v)))))"

fun strip_prefix :: "string \<Rightarrow> string \<Rightarrow> string \<Rightarrow> (string \<times> string) option" where
  "strip_prefix [] u v = Some (u, v)"
| "strip_prefix (p # ps) u [] = None"
| "strip_prefix (p # ps) u (c # cs) = (if p = c then strip_prefix ps (c # u) cs else None)"

lemma strip_prefix_iff: "strip_prefix p u v = Some (u', v') \<longleftrightarrow> v = p @ v' \<and> u' = rev p @ u"
  by (induction p u v rule: strip_prefix.induct) auto

definition back_step :: "nat \<Rightarrow> cursor \<Rightarrow> cursor option" where
  "back_step n st = (case captured n st of None \<Rightarrow> None
     | Some t \<Rightarrow> (case st of (u, v, cs) \<Rightarrow>
         (case strip_prefix t u v of None \<Rightarrow> None | Some (u', v') \<Rightarrow> Some (u', v', cs))))"

section \<open>What a pattern can match: sets of moves\<close>

definition consuming :: "(cursor \<times> cursor) set" where
  "consuming = {((u, v, cs), (u', v', cs')) |u v cs u' v' cs'. length v' < length v}"

primrec paths :: "regex \<Rightarrow> (cursor \<times> cursor) set" where
  "paths REmpty = Id"
| "paths (RChar p) = {((u, c # v, cs), (c # u, v, cs)) |u c v cs. p c}"
| "paths (RSeq r1 r2) = paths r1 O paths r2"
| "paths (RAlt r1 r2) = paths r1 \<union> paths r2"
| "paths (RStar r) = (paths r \<inter> consuming)\<^sup>*"
| "paths (RLazy r) = (paths r \<inter> consuming)\<^sup>*"
| "paths (RGroup n r) = {((u, v, cs), (u', v', (n, length u, length u') # cs')) |u v cs u' v' cs'.
     ((u, v, cs), (u', v', cs')) \<in> paths r}"
| "paths (RAhead r) = {(st, st) |st. \<exists>st'. (st, st') \<in> paths r}"
| "paths (RNotAhead r) = {(st, st) |st. \<not> (\<exists>st'. (st, st') \<in> paths r)}"
| "paths RBol = {(([], v, cs), ([], v, cs)) |v cs. True}"
| "paths REol = {((u, v, cs), (u, v, cs)) |u v cs. at_eol v}"
| "paths RWordB = {((u, v, cs), (u, v, cs)) |u v cs. at_word_boundary u v}"
| "paths (RBack n) = {(st, st') |st st'. back_step n st = Some st'}"

section \<open>All matches, in order of preference\<close>

fun rest_of :: "cursor \<Rightarrow> string" where
  "rest_of (u, v, cs) = v"

fun star_runs :: "bool \<Rightarrow> (cursor \<Rightarrow> cursor list) \<Rightarrow> string \<Rightarrow> cursor \<Rightarrow> cursor list" where
  "star_runs greedy f [] st = [st]"
| "star_runs greedy f (x # fuel) st =
     (let more = concat (map (star_runs greedy f fuel)
                   (filter (\<lambda>st'. shorter (rest_of st') (rest_of st)) (f st)))
      in if greedy then more @ [st] else st # more)"

primrec runs :: "regex \<Rightarrow> cursor \<Rightarrow> cursor list" where
  "runs REmpty st = [st]"
| "runs (RChar p) st = (case st of (u, v, cs) \<Rightarrow>
     (case v of [] \<Rightarrow> [] | c # v' \<Rightarrow> if p c then [(c # u, v', cs)] else []))"
| "runs (RSeq r1 r2) st = concat (map (runs r2) (runs r1 st))"
| "runs (RAlt r1 r2) st = runs r1 st @ runs r2 st"
| "runs (RStar r) st = star_runs True (runs r) (rest_of st) st"
| "runs (RLazy r) st = star_runs False (runs r) (rest_of st) st"
| "runs (RGroup n r) st =
     map (\<lambda>st'. case st' of (u', v', cs') \<Rightarrow> (u', v', (n, length (fst st), length u') # cs')) (runs r st)"
| "runs (RAhead r) st = (if runs r st = [] then [] else [st])"
| "runs (RNotAhead r) st = (if runs r st = [] then [st] else [])"
| "runs RBol st = (case st of (u, v, cs) \<Rightarrow> if u = [] then [st] else [])"
| "runs REol st = (case st of (u, v, cs) \<Rightarrow> if at_eol v then [st] else [])"
| "runs RWordB st = (case st of (u, v, cs) \<Rightarrow> if at_word_boundary u v then [st] else [])"
| "runs (RBack n) st = (case back_step n st of None \<Rightarrow> [] | Some st' \<Rightarrow> [st'])"

section \<open>The backtracking matcher\<close>

type_synonym kont = "cursor \<Rightarrow> cursor option"

fun star_k :: "bool \<Rightarrow> (kont \<Rightarrow> kont) \<Rightarrow> string \<Rightarrow> kont \<Rightarrow> kont" where
  "star_k greedy f [] k st = k st"
| "star_k greedy f (x # fuel) k st =
     (if greedy then
        (case f (\<lambda>st'. if shorter (rest_of st') (rest_of st) then star_k greedy f fuel k st' else None) st of
           None \<Rightarrow> k st | Some y \<Rightarrow> Some y)
      else
        (case k st of
           None \<Rightarrow> f (\<lambda>st'. if shorter (rest_of st') (rest_of st) then star_k greedy f fuel k st' else None) st
         | Some y \<Rightarrow> Some y))"

primrec match_k :: "regex \<Rightarrow> kont \<Rightarrow> kont" where
  "match_k REmpty k st = k st"
| "match_k (RChar p) k st = (case st of (u, v, cs) \<Rightarrow>
     (case v of [] \<Rightarrow> None | c # v' \<Rightarrow> if p c then k (c # u, v', cs) else None))"
| "match_k (RSeq r1 r2) k st = match_k r1 (match_k r2 k) st"
| "match_k (RAlt r1 r2) k st = (case match_k r1 k st of None \<Rightarrow> match_k r2 k st | Some y \<Rightarrow> Some y)"
| "match_k (RStar r) k st = star_k True (match_k r) (rest_of st) k st"
| "match_k (RLazy r) k st = star_k False (match_k r) (rest_of st) k st"
| "match_k (RGroup n r) k st =
     match_k r (\<lambda>st'. case st' of (u', v', cs') \<Rightarrow> k (u', v', (n, length (fst st), length u') # cs')) st"
| "match_k (RAhead r) k st = (case match_k r Some st of None \<Rightarrow> None | Some y \<Rightarrow> k st)"
| "match_k (RNotAhead r) k st = (case match_k r Some st of None \<Rightarrow> k st | Some y \<Rightarrow> None)"
| "match_k RBol k st = (case st of (u, v, cs) \<Rightarrow> if u = [] then k st else None)"
| "match_k REol k st = (case st of (u, v, cs) \<Rightarrow> if at_eol v then k st else None)"
| "match_k RWordB k st = (case st of (u, v, cs) \<Rightarrow> if at_word_boundary u v then k st else None)"
| "match_k (RBack n) k st = (case back_step n st of None \<Rightarrow> None | Some st' \<Rightarrow> k st')"

text \<open>Match objects: the subject, the span, and the captured groups.\<close>

record mobj =
  mo_string :: string
  mo_start :: nat
  mo_end :: nat
  mo_caps :: caps

definition re_at :: "regex \<Rightarrow> string \<Rightarrow> string \<Rightarrow> cursor option" where
  "re_at r u v = match_k r Some (u, v, [])"

definition re_match :: "regex \<Rightarrow> string \<Rightarrow> mobj option" where
  "re_match r s = (case re_at r [] s of None \<Rightarrow> None
     | Some (u, v, cs) \<Rightarrow> Some \<lparr>mo_string = s, mo_start = 0, mo_end = length u, mo_caps = cs\<rparr>)"

fun search_from :: "regex \<Rightarrow> string \<Rightarrow> string \<Rightarrow> (string \<times> string \<times> cursor) option" where
  "search_from r u [] = (case re_at r u [] of None \<Rightarrow> None | Some st \<Rightarrow> Some (u, [], st))"
| "search_from r u (c # v) =
     (case re_at r u (c # v) of None \<Rightarrow> search_from r (c # u) v | Some st \<Rightarrow> Some (u, c # v, st))"

definition re_search :: "regex \<Rightarrow> string \<Rightarrow> mobj option" where
  "re_search r s = (case search_from r [] s of None \<Rightarrow> None
     | Some (u0, v0, (u, v, cs)) \<Rightarrow>
         Some \<lparr>mo_string = s, mo_start = length u0, mo_end = length u, mo_caps = cs\<rparr>)"

text \<open>\<open>m.group(n)\<close> and the predicates \<open>if Match(...)\<close>, \<open>if Search(...)\<close>.\<close>

definition mgroup :: "mobj \<Rightarrow> nat \<Rightarrow> string option" where
  "mgroup m n =
     (if n = 0 then Some (take (mo_end m - mo_start m) (drop (mo_start m) (mo_string m)))
      else case map_of (mo_caps m) n of None \<Rightarrow> None
        | Some (b, e) \<Rightarrow> Some (take (e - b) (drop b (mo_string m))))"

definition grp :: "mobj \<Rightarrow> nat \<Rightarrow> string" where
  "grp m n = (case mgroup m n of None \<Rightarrow> [] | Some t \<Rightarrow> t)"

definition matches :: "regex \<Rightarrow> string \<Rightarrow> bool" where
  "matches r s \<longleftrightarrow> re_match r s \<noteq> None"

definition searches :: "regex \<Rightarrow> string \<Rightarrow> bool" where
  "searches r s \<longleftrightarrow> re_search r s \<noteq> None"

text \<open>
  \<open>pattern.sub(rep, s)\<close> with a constant replacement: from left to right, every match that is not
  an empty one directly after the previous match is replaced.
\<close>

function sub_from :: "regex \<Rightarrow> string \<Rightarrow> bool \<Rightarrow> string \<Rightarrow> string \<Rightarrow> string" where
  "sub_from r rep adj u v =
     (case re_at r u v of
        None \<Rightarrow> (case v of [] \<Rightarrow> [] | c # v' \<Rightarrow> c # sub_from r rep False (c # u) v')
      | Some (u', w, cs) \<Rightarrow>
          if shorter w v then rep @ sub_from r rep True u' w
          else (if adj then [] else rep) @
               (case v of [] \<Rightarrow> [] | c # v' \<Rightarrow> c # sub_from r rep False (c # u) v'))"
  by pat_completeness auto
termination
  by (relation "measure (\<lambda>(r, rep, adj, u, v). length v)") (auto simp: shorter_iff)

declare sub_from.simps [simp del]

definition re_sub :: "regex \<Rightarrow> string \<Rightarrow> string \<Rightarrow> string" where
  "re_sub r rep s = sub_from r rep False [] s"

section \<open>Derived patterns\<close>

abbreviation RPlus :: "regex \<Rightarrow> regex" where "RPlus r \<equiv> RSeq r (RStar r)"
abbreviation ROpt :: "regex \<Rightarrow> regex" where "ROpt r \<equiv> RAlt r REmpty"
abbreviation ws :: regex where "ws \<equiv> RChar ascii_space"
abbreviation nonws :: regex where "nonws \<equiv> RChar (\<lambda>c. \<not> ascii_space c)"
abbreviation wordc :: regex where "wordc \<equiv> RChar word_char"
abbreviation digit :: regex where "digit \<equiv> RChar digit_char"
abbreviation anyc :: regex where "anyc \<equiv> RChar (none_of [NL])"
abbreviation chr :: "char \<Rightarrow> regex" where "chr c \<equiv> RChar (one_of [c])"
abbreviation oneof :: "string \<Rightarrow> regex" where "oneof cs \<equiv> RChar (one_of cs)"
abbreviation noneof :: "string \<Rightarrow> regex" where "noneof cs \<equiv> RChar (none_of cs)"

fun lit :: "string \<Rightarrow> regex" where
  "lit [] = REmpty"
| "lit [c] = chr c"
| "lit (c # d # cs) = RSeq (chr c) (lit (d # cs))"

fun seqs :: "regex list \<Rightarrow> regex" where
  "seqs [] = REmpty"
| "seqs [r] = r"
| "seqs (r # q # rs) = RSeq r (seqs (q # rs))"

fun alts :: "regex list \<Rightarrow> regex" where
  "alts [] = RNotAhead REmpty"
| "alts [r] = r"
| "alts (r # q # rs) = RAlt r (alts (q # rs))"

fun times :: "nat \<Rightarrow> regex \<Rightarrow> regex" where
  "times 0 r = REmpty"
| "times (Suc n) r = (if n = 0 then r else RSeq r (times n r))"

text \<open>\<open>r{0,n}\<close>\<close>

fun at_most :: "nat \<Rightarrow> regex \<Rightarrow> regex" where
  "at_most 0 r = REmpty"
| "at_most (Suc n) r = ROpt (RSeq r (at_most n r))"

end
