(* ===== verification/RegexFacts.thy ===== *)
theory RegexFacts
  imports PyRegex
begin

text \<open>
  What the other components may rely on about the matcher of \<open>PyRegex\<close>: it stops at the first of
  the ordered matches (\<open>match_k_runs\<close>), these are exactly the declared moves (\<open>runs_paths\<close>), a
  move only consumes text from the left (\<open>paths_split\<close>), and the leftmost-match laws of searching.
  The last section derives characterisations for the shapes of pattern that the checks use most.
\<close>

section \<open>The backtracking matcher takes the first of the ordered matches\<close>

fun first_some :: "('a \<Rightarrow> 'b option) \<Rightarrow> 'a list \<Rightarrow> 'b option" where
  "first_some k [] = None"
| "first_some k (x # xs) = (case k x of None \<Rightarrow> first_some k xs | Some y \<Rightarrow> Some y)"

lemma first_some_append:
  "first_some k (xs @ ys) = (case first_some k xs of None \<Rightarrow> first_some k ys | Some y \<Rightarrow> Some y)"
  by (induction xs) (auto split: option.splits)

lemma first_some_concat_map:
  "first_some k (concat (map h xs)) = first_some (\<lambda>x. first_some k (h x)) xs"
  by (induction xs) (auto simp: first_some_append split: option.splits)

lemma first_some_filter:
  "first_some k (filter P xs) = first_some (\<lambda>x. if P x then k x else None) xs"
  by (induction xs) (auto split: option.splits)

lemma first_some_map: "first_some k (map h xs) = first_some (\<lambda>x. k (h x)) xs"
  by (induction xs) (auto split: option.splits)

lemma first_some_Some: "first_some Some xs = (case xs of [] \<Rightarrow> None | x # _ \<Rightarrow> Some x)"
  by (cases xs) auto

lemma first_some_None: "first_some k xs = None \<longleftrightarrow> (\<forall>x\<in>set xs. k x = None)"
  by (induction xs) (auto split: option.splits)

lemma star_k_runs:
  assumes "\<And>k st. f k st = first_some k (g st)"
  shows "star_k greedy f fuel k st = first_some k (star_runs greedy g fuel st)"
proof (induction fuel arbitrary: st)
  case Nil
  show ?case by (simp split: option.splits)
next
  case (Cons x fuel)
  have "f (\<lambda>st'. if shorter (rest_of st') (rest_of st) then star_k greedy f fuel k st' else None) st =
    first_some k (concat (map (star_runs greedy g fuel)
      (filter (\<lambda>st'. shorter (rest_of st') (rest_of st)) (g st))))"
    unfolding assms first_some_concat_map first_some_filter Cons.IH ..
  then show ?case
    by (simp add: first_some_append split: option.splits)
qed

lemma match_k_runs: "match_k r k st = first_some k (runs r st)"
proof (induction r arbitrary: k st)
  case (RSeq r1 r2)
  have "match_k r2 k = (\<lambda>st'. first_some k (runs r2 st'))"
    by (rule ext) (rule RSeq.IH(2))
  then show ?case using RSeq.IH(1) by (simp add: first_some_concat_map)
next
  case (RStar r)
  then show ?case by (simp add: star_k_runs)
next
  case (RLazy r)
  then show ?case by (simp add: star_k_runs)
next
  case (RGroup n r)
  then show ?case by (cases st) (simp add: first_some_map case_prod_unfold)
next
  case (RAhead r)
  then show ?case by (auto simp: first_some_Some split: option.splits list.splits)
next
  case (RNotAhead r)
  then show ?case by (auto simp: first_some_Some split: option.splits list.splits)
qed (auto simp: first_some_append first_some_map split: option.splits list.splits prod.splits)

section \<open>The ordered matches are the declared moves\<close>

lemma consuming_iff: "(st, st') \<in> consuming \<longleftrightarrow> shorter (rest_of st') (rest_of st)"
  by (cases st; cases st') (auto simp: consuming_def shorter_iff)

lemma star_runs_paths:
  assumes "\<And>st. set (f st) = R `` {st}"
  shows "length (rest_of st) \<le> length fuel \<Longrightarrow> set (star_runs greedy f fuel st) = (R \<inter> consuming)\<^sup>* `` {st}"
proof (induction fuel arbitrary: st)
  case Nil
  then have "rest_of st = []" by simp
  then have "\<And>st'. (st, st') \<notin> consuming" by (simp add: consuming_iff shorter_iff)
  then have "(R \<inter> consuming)\<^sup>* `` {st} = {st}"
    by (auto elim: converse_rtranclE)
  then show ?case by simp
next
  case (Cons x fuel)
  let ?next = "filter (\<lambda>st'. shorter (rest_of st') (rest_of st)) (f st)"
  have next_eq: "set ?next = (R \<inter> consuming) `` {st}"
    using assms by (auto simp: consuming_iff)
  have IH: "\<And>st'. st' \<in> set ?next \<Longrightarrow> set (star_runs greedy f fuel st') = (R \<inter> consuming)\<^sup>* `` {st'}"
    using Cons.prems by (intro Cons.IH) (auto simp: shorter_iff)
  have "(R \<inter> consuming)\<^sup>* `` {st} = {st} \<union> (\<Union>st'\<in>set ?next. (R \<inter> consuming)\<^sup>* `` {st'})"
    unfolding next_eq by (auto elim: converse_rtranclE intro: converse_rtrancl_into_rtrancl)
  also have "\<dots> = {st} \<union> (\<Union>st'\<in>set ?next. set (star_runs greedy f fuel st'))"
    using IH by auto
  finally show ?case by (auto simp: Let_def)
qed

lemma runs_paths: "set (runs r st) = paths r `` {st}"
proof (induction r arbitrary: st)
  case (RSeq r1 r2)
  then show ?case by auto
next
  case (RStar r)
  then show ?case using star_runs_paths[of "runs r" "paths r" st "rest_of st" True] by simp
next
  case (RLazy r)
  then show ?case using star_runs_paths[of "runs r" "paths r" st "rest_of st" False] by simp
next
  case (RGroup n r)
  obtain u v cs where st: "st = (u, v, cs)" by (cases st)
  have "paths (RGroup n r) `` {st} =
    (\<lambda>(u', v', cs'). (u', v', (n, length u, length u') # cs')) ` (paths r `` {st})"
    by (rule set_eqI) (simp add: st Image_def image_def Bex_def split_paired_Ex, metis)
  then show ?case by (simp add: RGroup.IH st)
next
  case (RAhead r)
  have "runs r st = [] \<longleftrightarrow> \<not> (\<exists>st'. (st, st') \<in> paths r)"
    using RAhead[of st] by (metis Image_singleton_iff equals0D set_empty ex_in_conv)
  then show ?case by (simp add: set_eq_iff Image_def, blast)
next
  case (RNotAhead r)
  have "runs r st = [] \<longleftrightarrow> \<not> (\<exists>st'. (st, st') \<in> paths r)"
    using RNotAhead[of st] by (metis Image_singleton_iff equals0D set_empty ex_in_conv)
  then show ?case by (simp add: set_eq_iff Image_def, blast)
qed (auto split: option.splits list.splits prod.splits)

lemma match_k_None: "match_k r k st = None \<longleftrightarrow> (\<forall>st'. (st, st') \<in> paths r \<longrightarrow> k st' = None)"
  using runs_paths[of r st] by (auto simp: match_k_runs first_some_None)

lemma match_k_Some: "match_k r Some st = Some st' \<Longrightarrow> (st, st') \<in> paths r"
  using runs_paths[of r st] by (auto simp: match_k_runs first_some_Some split: list.splits)

lemma re_at_paths: "re_at r u v = Some st \<Longrightarrow> ((u, v, []), st) \<in> paths r"
  unfolding re_at_def by (rule match_k_Some)

lemma re_at_None: "re_at r u v = None \<longleftrightarrow> (\<forall>st. ((u, v, []), st) \<notin> paths r)"
  unfolding re_at_def by (simp add: match_k_None)

section \<open>A match lies in its subject\<close>

definition extends :: "cursor \<Rightarrow> cursor \<Rightarrow> bool" where
  "extends st st' \<longleftrightarrow> (case st of (u, v, cs) \<Rightarrow> case st' of (u', v', cs') \<Rightarrow>
     \<exists>t. v = t @ v' \<and> u' = rev t @ u)"

lemma extends_refl [simp]: "extends st st"
  by (cases st) (simp add: extends_def)

lemma extends_trans: "extends a b \<Longrightarrow> extends b c \<Longrightarrow> extends a c"
  by (cases a; cases b; cases c) (auto simp: extends_def)

lemma extends_rtrancl: "(a, b) \<in> R\<^sup>* \<Longrightarrow> (\<And>x y. (x, y) \<in> R \<Longrightarrow> extends x y) \<Longrightarrow> extends a b"
  by (induction rule: rtrancl_induct) (auto intro: extends_trans)

lemma paths_extends: "(st, st') \<in> paths r \<Longrightarrow> extends st st'"
proof (induction r arbitrary: st st')
  case (RSeq r1 r2)
  from RSeq.prems obtain mid where "(st, mid) \<in> paths r1" "(mid, st') \<in> paths r2" by auto
  then show ?case using RSeq.IH extends_trans by blast
next
  case (RStar r)
  then show ?case by (auto intro: extends_rtrancl)
next
  case (RLazy r)
  then show ?case by (auto intro: extends_rtrancl)
next
  case (RGroup n r)
  then show ?case by (fastforce simp: extends_def)
next
  case (RBack n)
  then show ?case
    by (auto simp: extends_def back_step_def strip_prefix_iff split: option.splits prod.splits)
qed (auto simp: extends_def)

lemma paths_split:
  assumes "((u, v, cs), (u', v', cs')) \<in> paths r"
  obtains t where "v = t @ v'" "u' = rev t @ u"
  using paths_extends[OF assms] by (auto simp: extends_def)

definition caps_ok :: "cursor \<Rightarrow> bool" where
  "caps_ok st \<longleftrightarrow> (case st of (u, v, cs) \<Rightarrow> \<forall>(n, b, e)\<in>set cs. b \<le> e \<and> e \<le> length u)"

lemma caps_ok_rtrancl:
  "(a, b) \<in> R\<^sup>* \<Longrightarrow> (\<And>x y. (x, y) \<in> R \<Longrightarrow> caps_ok x \<Longrightarrow> caps_ok y) \<Longrightarrow> caps_ok a \<Longrightarrow> caps_ok b"
  by (induction rule: rtrancl_induct) auto

lemma paths_caps_ok: "(st, st') \<in> paths r \<Longrightarrow> caps_ok st \<Longrightarrow> caps_ok st'"
proof (induction r arbitrary: st st')
  case (RStar r)
  then show ?case by (auto intro: caps_ok_rtrancl)
next
  case (RLazy r)
  then show ?case by (auto intro: caps_ok_rtrancl)
next
  case (RGroup n r)
  from RGroup.prems(1) obtain u v cs u' v' cs' where
    st: "st = (u, v, cs)" "st' = (u', v', (n, length u, length u') # cs')"
    and p: "((u, v, cs), (u', v', cs')) \<in> paths r" by auto
  from p obtain t where "u' = rev t @ u" by (rule paths_split)
  moreover from RGroup.IH[OF p] RGroup.prems(2) st have "caps_ok (u', v', cs')" by simp
  ultimately show ?case using st by (simp add: caps_ok_def)
next
  case (RBack n)
  then show ?case
    by (fastforce simp: caps_ok_def back_step_def strip_prefix_iff split: option.splits prod.splits)
qed (fastforce simp: caps_ok_def)+

lemma re_match_Some:
  assumes "re_match r s = Some m"
  shows "mo_string m = s \<and> mo_start m = 0 \<and> mo_end m \<le> length s \<and>
    (\<forall>(n, b, e)\<in>set (mo_caps m). b \<le> e \<and> e \<le> mo_end m)"
proof -
  from assms obtain u v cs where at: "re_at r [] s = Some (u, v, cs)"
    and m: "m = \<lparr>mo_string = s, mo_start = 0, mo_end = length u, mo_caps = cs\<rparr>"
    by (auto simp: re_match_def split: option.splits)
  from re_at_paths[OF at] have p: "(([], s, []), (u, v, cs)) \<in> paths r" .
  then obtain t where "s = t @ v" "u = rev t @ []" by (rule paths_split)
  moreover from paths_caps_ok[OF p] have "caps_ok (u, v, cs)" by (simp add: caps_ok_def)
  ultimately show ?thesis by (auto simp: m caps_ok_def)
qed

lemma matches_iff: "matches r s \<longleftrightarrow> (\<exists>st. (([], s, []), st) \<in> paths r)"
  using re_at_None[of r "[]" s] by (auto simp: matches_def re_match_def split: option.splits)

section \<open>Searching finds the leftmost match\<close>

lemma search_from_Some:
  "search_from r u v = Some (u0, v0, st) \<Longrightarrow>
     \<exists>t. v = t @ v0 \<and> u0 = rev t @ u \<and> re_at r u0 v0 = Some st \<and>
       (\<forall>t1 t2. t = t1 @ t2 \<and> t2 \<noteq> [] \<longrightarrow> re_at r (rev t1 @ u) (t2 @ v0) = None)"
proof (induction v arbitrary: u)
  case Nil
  then show ?case by (auto split: option.splits)
next
  case (Cons c v)
  show ?case
  proof (cases "re_at r u (c # v)")
    case (Some st')
    with Cons.prems show ?thesis by auto
  next
    case None
    with Cons.prems have "search_from r (c # u) v = Some (u0, v0, st)" by simp
    from Cons.IH[OF this] obtain t where t: "v = t @ v0" "u0 = rev t @ c # u"
      "re_at r u0 v0 = Some st"
      "\<forall>t1 t2. t = t1 @ t2 \<and> t2 \<noteq> [] \<longrightarrow> re_at r (rev t1 @ c # u) (t2 @ v0) = None" by auto
    have "re_at r (rev t1 @ u) (t2 @ v0) = None" if "c # t = t1 @ t2" "t2 \<noteq> []" for t1 t2
    proof (cases t1)
      case Nil
      with that t(1) None show ?thesis by auto
    next
      case (Cons d t1')
      with that t(4) show ?thesis by auto
    qed
    then show ?thesis using t by (intro exI[of _ "c # t"]) simp
  qed
qed

lemma search_from_None:
  "search_from r u v = None \<longleftrightarrow> (\<forall>t1 t2. v = t1 @ t2 \<longrightarrow> re_at r (rev t1 @ u) t2 = None)"
proof (induction v arbitrary: u)
  case Nil
  show ?case by (auto split: option.splits)
next
  case (Cons c v)
  have "(\<forall>t1 t2. c # v = t1 @ t2 \<longrightarrow> re_at r (rev t1 @ u) t2 = None) \<longleftrightarrow>
    re_at r u (c # v) = None \<and> (\<forall>t1 t2. v = t1 @ t2 \<longrightarrow> re_at r (rev t1 @ c # u) t2 = None)"
    (is "?l \<longleftrightarrow> ?r")
  proof
    assume l: ?l
    have "re_at r (rev (c # t1) @ u) t2 = None" if "v = t1 @ t2" for t1 t2
      by (rule l[rule_format]) (simp add: that)
    with l[rule_format, of "[]" "c # v"] show ?r by simp
  next
    assume ?r
    then show ?l by (auto simp: Cons_eq_append_conv)
  qed
  with Cons.IH[of "c # u"] show ?case by (auto split: option.splits)
qed

lemma searches_iff:
  "searches r s \<longleftrightarrow> (\<exists>t1 t2 st. s = t1 @ t2 \<and> ((rev t1, t2, []), st) \<in> paths r)"
proof -
  have "searches r s \<longleftrightarrow> search_from r [] s \<noteq> None"
    by (auto simp: searches_def re_search_def split: option.splits)
  also have "\<dots> \<longleftrightarrow> (\<exists>t1 t2. s = t1 @ t2 \<and> re_at r (rev t1) t2 \<noteq> None)"
    by (simp add: search_from_None del: not_None_eq)
  finally show ?thesis by (auto simp: re_at_None)
qed

lemma re_search_Some:
  assumes "re_search r s = Some m"
  shows "mo_string m = s \<and> mo_start m \<le> mo_end m \<and> mo_end m \<le> length s \<and>
    (\<forall>i<mo_start m. re_at r (rev (take i s)) (drop i s) = None)"
proof -
  from assms obtain u0 v0 u v cs where sf: "search_from r [] s = Some (u0, v0, u, v, cs)"
    and m: "m = \<lparr>mo_string = s, mo_start = length u0, mo_end = length u, mo_caps = cs\<rparr>"
    by (auto simp: re_search_def split: option.splits)
  from search_from_Some[OF sf] obtain t where t: "s = t @ v0" "u0 = rev t"
    "re_at r u0 v0 = Some (u, v, cs)"
    "\<And>t1 t2. t = t1 @ t2 \<Longrightarrow> t2 \<noteq> [] \<Longrightarrow> re_at r (rev t1) (t2 @ v0) = None" by auto
  from re_at_paths[OF t(3)] obtain w where "v0 = w @ v" "u = rev w @ u0" by (rule paths_split)
  moreover have "re_at r (rev (take i s)) (drop i s) = None" if "i < length t" for i
    using t(4)[of "take i t" "drop i t"] that t(1) by simp
  ultimately show ?thesis using t by (auto simp: m)
qed

section \<open>Reading the moves of a pattern off its syntax\<close>

text \<open>
  The rules \<open>rx_simps\<close> turn the statement that a pattern moves a cursor into equations between
  strings; the component theories use them to say what a match of their pattern looks like.
\<close>

lemma paths_Empty [rx_simps]: "((u, v, cs), (u', v', cs')) \<in> paths REmpty \<longleftrightarrow> u' = u \<and> v' = v \<and> cs' = cs"
  by auto

lemma paths_Char [rx_simps]:
  "((u, v, cs), (u', v', cs')) \<in> paths (RChar p) \<longleftrightarrow> (\<exists>c. v = c # v' \<and> u' = c # u \<and> cs' = cs \<and> p c)"
  by auto

lemma paths_Seq [rx_simps]:
  "((u, v, cs), (u', v', cs')) \<in> paths (RSeq r1 r2) \<longleftrightarrow>
     (\<exists>a b c. ((u, v, cs), (a, b, c)) \<in> paths r1 \<and> ((a, b, c), (u', v', cs')) \<in> paths r2)"
  by auto

lemma paths_SeqI: "(a, b) \<in> paths r1 \<Longrightarrow> (b, c) \<in> paths r2 \<Longrightarrow> (a, c) \<in> paths (RSeq r1 r2)"
  by auto

lemma paths_Alt [rx_simps]:
  "((u, v, cs), (u', v', cs')) \<in> paths (RAlt r1 r2) \<longleftrightarrow>
     ((u, v, cs), (u', v', cs')) \<in> paths r1 \<or> ((u, v, cs), (u', v', cs')) \<in> paths r2"
  by auto

lemma paths_Group [rx_simps]:
  "((u, v, cs), (u', v', cs')) \<in> paths (RGroup n r) \<longleftrightarrow>
     (\<exists>ds. cs' = (n, length u, length u') # ds \<and> ((u, v, cs), (u', v', ds)) \<in> paths r)"
  by auto

lemma paths_Bol [rx_simps]:
  "((u, v, cs), (u', v', cs')) \<in> paths RBol \<longleftrightarrow> u = [] \<and> u' = u \<and> v' = v \<and> cs' = cs"
  by auto

lemma paths_Eol [rx_simps]:
  "((u, v, cs), (u', v', cs')) \<in> paths REol \<longleftrightarrow> at_eol v \<and> u' = u \<and> v' = v \<and> cs' = cs"
  by auto

lemma paths_WordB [rx_simps]:
  "((u, v, cs), (u', v', cs')) \<in> paths RWordB \<longleftrightarrow> at_word_boundary u v \<and> u' = u \<and> v' = v \<and> cs' = cs"
  by auto

lemma paths_Ahead [rx_simps]:
  "((u, v, cs), (u', v', cs')) \<in> paths (RAhead r) \<longleftrightarrow>
     (\<exists>st. ((u, v, cs), st) \<in> paths r) \<and> u' = u \<and> v' = v \<and> cs' = cs"
  by auto

lemma paths_NotAhead [rx_simps]:
  "((u, v, cs), (u', v', cs')) \<in> paths (RNotAhead r) \<longleftrightarrow>
     \<not> (\<exists>st. ((u, v, cs), st) \<in> paths r) \<and> u' = u \<and> v' = v \<and> cs' = cs"
  by auto

lemma star_char_fwd:
  "(st, st') \<in> (paths (RChar p) \<inter> consuming)\<^sup>* \<Longrightarrow>
   \<exists>t. list_all p t \<and> fst (snd st) = t @ fst (snd st') \<and> fst st' = rev t @ fst st \<and> snd (snd st') = snd (snd st)"
proof (induction rule: rtrancl_induct)
  case base
  show ?case by (rule exI[of _ "[]"]) simp
next
  case (step y z)
  then obtain t where t: "list_all p t" "fst (snd st) = t @ fst (snd y)" "fst y = rev t @ fst st"
    "snd (snd y) = snd (snd st)" by blast
  from step.hyps(2) obtain c where c: "fst (snd y) = c # fst (snd z)" "fst z = c # fst y"
    "snd (snd z) = snd (snd y)" "p c" by auto
  show ?case using t c by (intro exI[of _ "t @ [c]"]) simp
qed

lemma star_char_bwd:
  "list_all p t \<Longrightarrow> ((u, t @ v, cs), (rev t @ u, v, cs)) \<in> (paths (RChar p) \<inter> consuming)\<^sup>*"
proof (induction t arbitrary: u)
  case Nil
  show ?case by simp
next
  case (Cons c t)
  have "((u, c # t @ v, cs), (c # u, t @ v, cs)) \<in> paths (RChar p) \<inter> consuming"
    using Cons.prems by (simp add: consuming_def)
  with Cons.IH[of "c # u"] Cons.prems show ?case by (auto intro: converse_rtrancl_into_rtrancl)
qed

lemma paths_Star_char [rx_simps]:
  "((u, v, cs), (u', v', cs')) \<in> paths (RStar (RChar p)) \<longleftrightarrow>
     (\<exists>t. list_all p t \<and> v = t @ v' \<and> u' = rev t @ u \<and> cs' = cs)"
proof
  assume "((u, v, cs), (u', v', cs')) \<in> paths (RStar (RChar p))"
  then show "\<exists>t. list_all p t \<and> v = t @ v' \<and> u' = rev t @ u \<and> cs' = cs"
    using star_char_fwd[of "(u, v, cs)" "(u', v', cs')" p] by simp
next
  assume "\<exists>t. list_all p t \<and> v = t @ v' \<and> u' = rev t @ u \<and> cs' = cs"
  then show "((u, v, cs), (u', v', cs')) \<in> paths (RStar (RChar p))"
    using star_char_bwd by (auto simp del: paths.simps simp: paths.simps(5))
qed

lemma paths_Lazy_char [rx_simps]:
  "((u, v, cs), (u', v', cs')) \<in> paths (RLazy (RChar p)) \<longleftrightarrow>
     (\<exists>t. list_all p t \<and> v = t @ v' \<and> u' = rev t @ u \<and> cs' = cs)"
  using paths_Star_char[of u v cs u' v' cs' p] by simp

lemma paths_lit [rx_simps]:
  "((u, v, cs), (u', v', cs')) \<in> paths (lit s) \<longleftrightarrow> v = s @ v' \<and> u' = rev s @ u \<and> cs' = cs"
  by (induction s arbitrary: u v rule: lit.induct) (auto simp: one_of_def)

lemma paths_alts [rx_simps]:
  "((u, v, cs), (u', v', cs')) \<in> paths (alts rs) \<longleftrightarrow> list_ex (\<lambda>r. ((u, v, cs), (u', v', cs')) \<in> paths r) rs"
  by (induction rs rule: alts.induct) auto

declare paths.simps [simp del]
lemmas [rx_simps] = seqs.simps

text \<open>The captured text, from the spans.\<close>

lemma mgroup_middle:
  "map_of (mo_caps m) n = Some (length a, length a + length b) \<Longrightarrow> mo_string m = a @ b @ c \<Longrightarrow> n \<noteq> 0 \<Longrightarrow>
   mgroup m n = Some b"
  by (simp add: mgroup_def)

lemma re_match_path:
  assumes "re_match r s = Some m"
  obtains u v cs where "(([], s, []), (u, v, cs)) \<in> paths r"
    "m = \<lparr>mo_string = s, mo_start = 0, mo_end = length u, mo_caps = cs\<rparr>"
proof -
  from assms obtain u v cs where at: "re_at r [] s = Some (u, v, cs)"
    and m: "m = \<lparr>mo_string = s, mo_start = 0, mo_end = length u, mo_caps = cs\<rparr>"
    by (auto simp: re_match_def split: option.splits)
  from that[OF re_at_paths[OF at] m] show ?thesis .
qed

lemma re_match_None: "re_match r s = None \<longleftrightarrow> (\<forall>u v cs. (([], s, []), (u, v, cs)) \<notin> paths r)"
  using matches_iff[of r s] by (auto simp: matches_def)

lemma re_search_path:
  assumes "re_search r s = Some m"
  obtains a u v cs b where "s = a @ b" "((rev a, b, []), (u, v, cs)) \<in> paths r"
    "m = \<lparr>mo_string = s, mo_start = length a, mo_end = length u, mo_caps = cs\<rparr>"
proof -
  from assms obtain u0 v0 u v cs where sf: "search_from r [] s = Some (u0, v0, u, v, cs)"
    and m: "m = \<lparr>mo_string = s, mo_start = length u0, mo_end = length u, mo_caps = cs\<rparr>"
    by (auto simp: re_search_def split: option.splits)
  from search_from_Some[OF sf] obtain t where t: "s = t @ v0" "u0 = rev t"
    "re_at r u0 v0 = Some (u, v, cs)" by auto
  from that[of t v0 u v cs] re_at_paths[OF t(3)] t m show ?thesis by simp
qed

lemma searches_iff_search: "searches r s \<longleftrightarrow> (\<exists>m. re_search r s = Some m)"
  by (auto simp: searches_def)

lemma searches_needs:
  assumes "searches r s" and "\<And>u v u' v' cs. ((u, v, []), (u', v', cs)) \<in> paths r \<Longrightarrow> c \<in> set v"
  shows "c \<in> set s"
  using assms by (fastforce simp: searches_iff)

text \<open>Substitution leaves a string alone in which the pattern does not match anywhere.\<close>

lemma sub_from_absent:
  "(\<And>t1 t2. v = t1 @ t2 \<Longrightarrow> re_at r (rev t1 @ u) t2 = None) \<Longrightarrow> sub_from r rep adj u v = v"
proof (induction v arbitrary: u adj)
  case Nil
  from Nil[of "[]" "[]"] show ?case by (subst sub_from.simps) simp
next
  case (Cons c v)
  have "re_at r u (c # v) = None" using Cons.prems[of "[]" "c # v"] by simp
  moreover have "sub_from r rep False (c # u) v = v"
    by (rule Cons.IH) (use Cons.prems[of "c # _"] in simp)
  ultimately show ?case by (subst sub_from.simps) simp
qed

lemma re_sub_absent: "\<not> searches r s \<Longrightarrow> re_sub r rep s = s"
  unfolding re_sub_def
  by (rule sub_from_absent) (auto simp: searches_iff re_at_None)

section \<open>The entry points of the program\<close>


end
