(* ===== verification/Brackets.thy ===== *)
theory Brackets
  imports RegexFacts
begin

text \<open>
  Matching of brackets across lines (\<open>cpplint.py\<close>: \<open>FindEndOfExpressionInLine\<close>,
  \<open>CloseExpression\<close>, \<open>FindStartOfExpressionInLine\<close>, \<open>ReverseCloseExpression\<close>).

  The nesting stack of the source, a list with its top at the end, is a list with its top at the
  head.  A scan of one line is a loop of steps (\<open>end_step\<close>, \<open>start_step\<close>); the two multi-line
  functions share the loop \<open>scan_lines\<close> over the remaining lines, and the locale
  \<open>line_scanner\<close> states what that loop needs of a one-line scan.

  The lemmas give bounds for every input, and, for text without angle brackets, the equivalence of
  the scan with a grammar of balanced text (\<open>balanced\<close>, \<open>closes\<close>).
\<close>

type_synonym stack = "char list"

text \<open>The outcome of one character: go on with a stack, or return a position and no stack.\<close>

datatype scan_step = Go stack | Return int

definition opener :: "char \<Rightarrow> bool" where "opener c \<longleftrightarrow> c \<in> set ''([{''"
definition closer :: "char \<Rightarrow> bool" where "closer c \<longleftrightarrow> c \<in> set '')]}''"

definition pair :: "char \<Rightarrow> char \<Rightarrow> bool" where
  "pair a b \<longleftrightarrow> (a = CHR ''('' \<and> b = CHR '')'') \<or> (a = CHR ''['' \<and> b = CHR '']'') \<or>
     (a = CHR ''{'' \<and> b = CHR ''}'')"

text \<open>\<open>\<backslash>boperator\<backslash>s*$\<close>\<close>

definition RE_OPERATOR_END :: regex where
  "RE_OPERATOR_END = seqs [RWordB, lit ''operator'', RStar ws, REol]"

section \<open>Scanning forward\<close>

definition end_step :: "string \<Rightarrow> nat \<Rightarrow> stack \<Rightarrow> scan_step" where
  "end_step line i stack =
     (let char = line ! i in
      if opener char then Go (char # stack)
      else if char = CHR ''<'' then
        (if 0 < i \<and> line ! (i - 1) = CHR ''<'' then
           (if stack \<noteq> [] \<and> hd stack = CHR ''<''
            then (if tl stack = [] then Return (- 1) else Go (tl stack))
            else Go stack)
         else if 0 < i \<and> searches RE_OPERATOR_END (take i line) then Go stack
         else Go (CHR ''<'' # stack))
      else if closer char then
        (let stack = dropWhile (\<lambda>c. c = CHR ''<'') stack
         in if stack = [] then Return (- 1)
            else if pair (hd stack) char
            then (if tl stack = [] then Return (int i + 1) else Go (tl stack))
            else Return (- 1))
      else if char = CHR ''>'' then
        (if 0 < i \<and> (line ! (i - 1) = CHR ''-'' \<or> searches RE_OPERATOR_END (take (i - 1) line))
         then Go stack
         else if stack \<noteq> [] \<and> hd stack = CHR ''<''
         then (if tl stack = [] then Return (int i + 1) else Go (tl stack))
         else Go stack)
      else if char = CHR '';'' then
        (let stack = dropWhile (\<lambda>c. c = CHR ''<'') stack
         in if stack = [] then Return (- 1) else Go stack)
      else Go stack)"

function FindEndOfExpressionInLine :: "string \<Rightarrow> nat \<Rightarrow> stack \<Rightarrow> int \<times> stack option" where
  "FindEndOfExpressionInLine line i stack =
     (if i < length line then
        (case end_step line i stack of
           Return p \<Rightarrow> (p, None)
         | Go stack' \<Rightarrow> FindEndOfExpressionInLine line (Suc i) stack')
      else (- 1, Some stack))"
  by pat_completeness auto
termination
  by (relation "measure (\<lambda>(line, i, stack). length line - i)") auto

declare FindEndOfExpressionInLine.simps [simp del]

section \<open>Scanning backward\<close>

text \<open>The step also says whether the character before is skipped (\<open>i -= 1\<close> inside the body).\<close>

datatype back_step_result = BGo bool stack | BReturn int

text \<open>\<open>\<backslash>s>=\<backslash>s\<close>\<close>

definition RE_GE :: regex where
  "RE_GE = seqs [ws, lit ''>='', ws]"

definition start_step :: "string \<Rightarrow> nat \<Rightarrow> stack \<Rightarrow> back_step_result" where
  "start_step line i stack =
     (let char = line ! i in
      if closer char then BGo False (char # stack)
      else if char = CHR ''>'' then
        (if 0 < i \<and> (line ! (i - 1) = CHR ''-'' \<or> matches RE_GE (drop (i - 1) line) \<or>
              searches RE_OPERATOR_END (take i line))
         then BGo True stack
         else BGo False (CHR ''>'' # stack))
      else if char = CHR ''<'' then
        (if 0 < i \<and> line ! (i - 1) = CHR ''<'' then BGo True stack
         else if stack \<noteq> [] \<and> hd stack = CHR ''>''
         then (if tl stack = [] then BReturn (int i) else BGo False (tl stack))
         else BGo False stack)
      else if opener char then
        (let stack = dropWhile (\<lambda>c. c = CHR ''>'') stack
         in if stack = [] then BReturn (- 1)
            else if pair char (hd stack)
            then (if tl stack = [] then BReturn (int i) else BGo False (tl stack))
            else BReturn (- 1))
      else if char = CHR '';'' then
        (let stack = dropWhile (\<lambda>c. c = CHR ''>'') stack
         in if stack = [] then BReturn (- 1) else BGo False stack)
      else BGo False stack)"

text \<open>The loop, with \<open>n = i + 1\<close> characters left to scan.\<close>

function find_start :: "string \<Rightarrow> nat \<Rightarrow> stack \<Rightarrow> int \<times> stack option" where
  "find_start line n stack =
     (if n = 0 then (- 1, Some stack)
      else case start_step line (n - 1) stack of
        BReturn p \<Rightarrow> (p, None)
      | BGo skip stack' \<Rightarrow> find_start line (if skip then n - 2 else n - 1) stack')"
  by pat_completeness auto
termination
  by (relation "measure (\<lambda>(line, n, stack). n)") auto

declare find_start.simps [simp del]

definition FindStartOfExpressionInLine :: "string \<Rightarrow> int \<Rightarrow> stack \<Rightarrow> (int \<times> stack option) result" where
  "FindStartOfExpressionInLine line endpos stack =
     (if int (length line) \<le> endpos then Inl IndexError
      else Inr (find_start line (nat (endpos + 1)) stack))"

section \<open>Across lines\<close>

text \<open>
  The loop \<open>while stack and ...\<close> over the lines that follow (or precede): the last line looked at,
  and the line number and position found, if any.
\<close>

fun scan_lines :: "(string \<Rightarrow> stack \<Rightarrow> int \<times> stack option) \<Rightarrow> (nat \<times> string) list \<Rightarrow> string \<Rightarrow>
    stack option \<Rightarrow> string \<times> (nat \<times> int) option" where
  "scan_lines scan [] line stack = (line, None)"
| "scan_lines scan ((n, l) # ls) line stack =
     (if stack = None \<or> stack = Some [] then (line, None)
      else case scan l (the stack) of (p, stack') \<Rightarrow>
        if - 1 < p then (l, Some (n, p)) else scan_lines scan ls l stack')"

definition lines_after :: "string list \<Rightarrow> nat \<Rightarrow> (nat \<times> string) list" where
  "lines_after E n = map (\<lambda>i. (i, E ! i)) [Suc n..<length E]"

definition lines_before :: "string list \<Rightarrow> nat \<Rightarrow> (nat \<times> string) list" where
  "lines_before E n = map (\<lambda>i. (i, E ! i)) (rev [0..<n])"

text \<open>\<open><[<=]\<close>\<close>

definition RE_SHIFT_LE :: regex where
  "RE_SHIFT_LE = RSeq (chr (CHR ''<'')) (oneof ''<='')"

text \<open>
  \<open>E\<close> is \<open>clean_lines.elided\<close>; a result \<open>(line, linenum, pos)\<close> has \<open>pos = -1\<close> when nothing is found.
\<close>

definition CloseExpression :: "string list \<Rightarrow> nat \<Rightarrow> nat \<Rightarrow> (string \<times> nat \<times> int) result" where
  "CloseExpression E linenum pos =
     res_bind (py_get E (int linenum)) (\<lambda>line.
     res_bind (py_get line (int pos)) (\<lambda>c.
       if c \<notin> set ''({[<'' \<or> matches RE_SHIFT_LE (drop pos line)
       then Inr (line, length E, - 1)
       else case FindEndOfExpressionInLine line pos [] of (end_pos, stack) \<Rightarrow>
         if - 1 < end_pos then Inr (line, linenum, end_pos)
         else case scan_lines (\<lambda>l st. FindEndOfExpressionInLine l 0 st) (lines_after E linenum) line stack of
           (line', None) \<Rightarrow> Inr (line', length E, - 1)
         | (line', Some (n, p)) \<Rightarrow> Inr (line', n, p)))"

definition ReverseCloseExpression :: "string list \<Rightarrow> nat \<Rightarrow> nat \<Rightarrow> (string \<times> nat \<times> int) result" where
  "ReverseCloseExpression E linenum pos =
     res_bind (py_get E (int linenum)) (\<lambda>line.
     res_bind (py_get line (int pos)) (\<lambda>c.
       if c \<notin> set '')}]>'' then Inr (line, 0, - 1)
       else case find_start line (Suc pos) [] of (start_pos, stack) \<Rightarrow>
         if - 1 < start_pos then Inr (line, linenum, start_pos)
         else case scan_lines (\<lambda>l st. find_start l (length l) st) (lines_before E linenum) line stack of
           (line', None) \<Rightarrow> Inr (line', 0, - 1)
         | (line', Some (n, p)) \<Rightarrow> Inr (line', n, p)))"

section \<open>Bounds of one-line scans\<close>

lemmas bracket_char_defs = opener_def closer_def pair_def

lemma end_step_Return:
  "end_step line i stack = Return p \<Longrightarrow> p = - 1 \<or> (p = int i + 1 \<and> line ! i \<in> set '')]}>'')"
  by (auto simp: end_step_def closer_def Let_def split: if_splits)

lemma FindEnd_pos:
  "FindEndOfExpressionInLine line i stack = (p, r) \<Longrightarrow>
     (p = - 1) \<or> (r = None \<and> int i < p \<and> p \<le> int (length line) \<and> line ! (nat p - 1) \<in> set '')]}>'')"
proof (induction line i stack rule: FindEndOfExpressionInLine.induct)
  case (1 line i stack)
  show ?case
  proof (cases "i < length line")
    case False
    with "1.prems" show ?thesis by (simp add: FindEndOfExpressionInLine.simps[of line i])
  next
    case True
    show ?thesis
    proof (cases "end_step line i stack")
      case (Return q)
      with True "1.prems" have "p = q" "r = None"
        by (simp_all add: FindEndOfExpressionInLine.simps[of line i])
      then show ?thesis using end_step_Return[OF Return] True by (auto simp: nat_add_distrib)
    next
      case (Go stack')
      with True "1.prems" have "FindEndOfExpressionInLine line (Suc i) stack' = (p, r)"
        by (simp add: FindEndOfExpressionInLine.simps[of line i])
      from "1.IH"[OF True Go this] show ?thesis by auto
    qed
  qed
qed

lemma start_step_Return:
  "start_step line i stack = BReturn p \<Longrightarrow> p = - 1 \<or> (p = int i \<and> line ! i \<in> set ''([{<'')"
  by (auto simp: start_step_def opener_def Let_def split: if_splits)

lemma find_start_pos:
  "find_start line n stack = (p, r) \<Longrightarrow>
     p = - 1 \<or> (r = None \<and> 0 \<le> p \<and> p < int n \<and> line ! nat p \<in> set ''([{<'')"
proof (induction line n stack rule: find_start.induct)
  case (1 line n stack)
  show ?case
  proof (cases "n = 0")
    case True
    with "1.prems" show ?thesis by (simp add: find_start.simps[of line 0])
  next
    case False
    show ?thesis
    proof (cases "start_step line (n - 1) stack")
      case (BReturn q)
      with False "1.prems" have "p = q" "r = None" by (simp_all add: find_start.simps[of line n])
      moreover have "nat (int n - 1) = n - 1" by simp
      ultimately show ?thesis using start_step_Return[OF BReturn] False by auto
    next
      case (BGo skip stack')
      with False "1.prems" have "find_start line (if skip then n - 2 else n - 1) stack' = (p, r)"
        by (simp add: find_start.simps[of line n])
      from "1.IH"[OF False BGo this] show ?thesis by (auto split: if_splits)
    qed
  qed
qed

section \<open>The interface of the multi-line loop\<close>

text \<open>
  What the loop over lines needs of a one-line scan: a position that is not \<open>-1\<close> is a hit in the
  scanned line.
\<close>

locale line_scanner =
  fixes scan :: "string \<Rightarrow> stack \<Rightarrow> int \<times> stack option"
    and hit :: "string \<Rightarrow> int \<Rightarrow> bool"
  assumes scan_hit: "scan l st = (p, r) \<Longrightarrow> p = - 1 \<or> (hit l p \<and> r = None)"
begin

lemma scan_lines_hit:
  "scan_lines scan ls line stack = (l, Some (n, p)) \<Longrightarrow> (n, l) \<in> set ls \<and> hit l p \<and> - 1 < p"
proof (induction ls arbitrary: line stack)
  case Nil
  then show ?case by simp
next
  case (Cons nl ls)
  obtain m l' where nl: "nl = (m, l')" by (cases nl)
  obtain q s' where sc: "scan l' (the stack) = (q, s')" by fastforce
  show ?case
  proof (cases "- 1 < q")
    case True
    with Cons.prems sc nl scan_hit[OF sc] show ?thesis by (auto split: if_splits)
  next
    case False
    with Cons sc nl show ?thesis by (auto split: if_splits)
  qed
qed

end

definition end_hit :: "string \<Rightarrow> int \<Rightarrow> bool" where
  "end_hit l p \<longleftrightarrow> 0 < p \<and> p \<le> int (length l) \<and> l ! (nat p - 1) \<in> set '')]}>''"

definition start_hit :: "string \<Rightarrow> int \<Rightarrow> bool" where
  "start_hit l p \<longleftrightarrow> 0 \<le> p \<and> p < int (length l) \<and> l ! nat p \<in> set ''([{<''"

interpretation forward: line_scanner "\<lambda>l st. FindEndOfExpressionInLine l 0 st" end_hit
  by unfold_locales (use FindEnd_pos in \<open>fastforce simp: end_hit_def\<close>)

interpretation backward: line_scanner "\<lambda>l st. find_start l (length l) st" start_hit
  by unfold_locales (use find_start_pos in \<open>fastforce simp: start_hit_def\<close>)

lemma lines_after_iff: "(n, l) \<in> set (lines_after E k) \<longleftrightarrow> k < n \<and> n < length E \<and> l = E ! n"
  by (auto simp: lines_after_def)

lemma lines_before_iff: "(n, l) \<in> set (lines_before E k) \<longleftrightarrow> n < k \<and> l = E ! n"
  by (auto simp: lines_before_def)

lemma CloseExpression_cases:
  assumes "n < length E" "p < length (E ! n)"
  obtains (none) l where "CloseExpression E n p = Inr (l, length E, - 1)"
  | (found) m q where "CloseExpression E n p = Inr (E ! m, m, int q)" "n \<le> m" "m < length E"
      "0 < q" "q \<le> length (E ! m)" "E ! m ! (q - 1) \<in> set '')]}>''" "m = n \<longrightarrow> p < q"
proof (cases "E ! n ! p \<notin> set ''({[<'' \<or> matches RE_SHIFT_LE (drop p (E ! n))")
  case True
  with assms that(1) show ?thesis by (simp add: CloseExpression_def)
next
  case False
  obtain e st where fe: "FindEndOfExpressionInLine (E ! n) p [] = (e, st)" by fastforce
  show ?thesis
  proof (cases "- 1 < e")
    case True
    with FindEnd_pos[OF fe] have e: "int p < e" "e \<le> int (length (E ! n))"
      "E ! n ! (nat e - 1) \<in> set '')]}>''" by auto
    have "CloseExpression E n p = Inr (E ! n, n, int (nat e))"
      using assms False fe True by (simp add: CloseExpression_def)
    then show ?thesis by (rule that(2)) (use e assms(1) in auto)
  next
    case e: False
    obtain l r where sl: "scan_lines (\<lambda>l st. FindEndOfExpressionInLine l 0 st) (lines_after E n) (E ! n) st = (l, r)"
      by fastforce
    show ?thesis
    proof (cases r)
      case None
      then have "CloseExpression E n p = Inr (l, length E, - 1)"
        using assms False fe e sl by (auto simp: CloseExpression_def)
      then show ?thesis by (rule that(1))
    next
      case (Some mq)
      obtain m q where mq: "mq = (m, q)" by (cases mq)
      have c: "CloseExpression E n p = Inr (l, m, q)"
        using assms False fe e sl Some mq by (auto simp: CloseExpression_def)
      from sl Some mq have "(m, l) \<in> set (lines_after E n) \<and> end_hit l q \<and> - 1 < q"
        using forward.scan_lines_hit by blast
      then have "n < m" "m < length E" "l = E ! m" "0 < q" "q \<le> int (length l)"
        "l ! (nat q - 1) \<in> set '')]}>''" by (auto simp: lines_after_iff end_hit_def)
      with c show ?thesis by (intro that(2)[of m "nat q"]) auto
    qed
  qed
qed

lemma ReverseCloseExpression_cases:
  assumes "n < length E" "p < length (E ! n)"
  obtains (none) l where "ReverseCloseExpression E n p = Inr (l, 0, - 1)"
  | (found) m q where "ReverseCloseExpression E n p = Inr (E ! m, m, int q)" "m \<le> n"
      "q < length (E ! m)" "E ! m ! q \<in> set ''([{<''" "m = n \<longrightarrow> q \<le> p"
proof (cases "E ! n ! p \<notin> set '')}]>''")
  case True
  with assms that(1) show ?thesis by (simp add: ReverseCloseExpression_def)
next
  case False
  obtain e st where fe: "find_start (E ! n) (Suc p) [] = (e, st)" by fastforce
  show ?thesis
  proof (cases "- 1 < e")
    case True
    with find_start_pos[OF fe] have e: "0 \<le> e" "e < int (Suc p)" "E ! n ! nat e \<in> set ''([{<''" by auto
    have "ReverseCloseExpression E n p = Inr (E ! n, n, int (nat e))"
      using assms False fe True by (simp add: ReverseCloseExpression_def)
    then show ?thesis by (rule that(2)) (use e assms in auto)
  next
    case e: False
    obtain l r where sl: "scan_lines (\<lambda>l st. find_start l (length l) st) (lines_before E n) (E ! n) st = (l, r)"
      by fastforce
    show ?thesis
    proof (cases r)
      case None
      then have "ReverseCloseExpression E n p = Inr (l, 0, - 1)"
        using assms False fe e sl by (auto simp: ReverseCloseExpression_def)
      then show ?thesis by (rule that(1))
    next
      case (Some mq)
      obtain m q where mq: "mq = (m, q)" by (cases mq)
      have c: "ReverseCloseExpression E n p = Inr (l, m, q)"
        using assms False fe e sl Some mq by (auto simp: ReverseCloseExpression_def)
      from sl Some mq have "(m, l) \<in> set (lines_before E n) \<and> start_hit l q \<and> - 1 < q"
        using backward.scan_lines_hit by blast
      then have "m < n" "l = E ! m" "0 \<le> q" "q < int (length l)" "l ! nat q \<in> set ''([{<''"
        by (auto simp: lines_before_iff start_hit_def)
      with c show ?thesis by (intro that(2)[of m "nat q"]) auto
    qed
  qed
qed

section \<open>A grammar of balanced text\<close>

text \<open>Text whose round, square and curly brackets nest.  Angle brackets are excluded, the semicolon
  and every other character may occur.\<close>

definition plain :: "char \<Rightarrow> bool" where
  "plain c \<longleftrightarrow> \<not> opener c \<and> \<not> closer c \<and> c \<noteq> CHR ''<'' \<and> c \<noteq> CHR ''>''"

inductive balanced :: "string \<Rightarrow> bool" where
  empty: "balanced []"
| char: "plain c \<Longrightarrow> balanced s \<Longrightarrow> balanced (c # s)"
| nest: "pair a b \<Longrightarrow> balanced s \<Longrightarrow> balanced t \<Longrightarrow> balanced (a # s @ b # t)"

code_pred balanced .

text \<open>\<open>closes st w\<close>: \<open>w\<close> ends exactly with the bracket that closes the bottom of the stack \<open>st\<close>.\<close>

inductive closes :: "stack \<Rightarrow> string \<Rightarrow> bool" where
  last: "pair a b \<Longrightarrow> balanced s \<Longrightarrow> closes [a] (s @ [b])"
| more: "pair a b \<Longrightarrow> balanced s \<Longrightarrow> closes st w \<Longrightarrow> closes (a # st) (s @ b # w)"

text \<open>A bracketed expression: an opening bracket, balanced text, the matching closing bracket.\<close>

definition bracketed :: "string \<Rightarrow> bool" where
  "bracketed w \<longleftrightarrow> (\<exists>a s b. pair a b \<and> balanced s \<and> w = a # s @ [b])"

lemma pair_opener: "pair a b \<Longrightarrow> opener a \<and> closer b \<and> \<not> closer a \<and> \<not> opener b"
  by (auto simp: bracket_char_defs)

lemma pair_not_plain: "pair a b \<Longrightarrow> \<not> plain a \<and> \<not> plain b"
  by (auto simp: plain_def dest: pair_opener)

lemma plain_not: "plain c \<Longrightarrow> \<not> opener c \<and> \<not> closer c"
  by (simp add: plain_def)

lemma balanced_append: "balanced s \<Longrightarrow> balanced t \<Longrightarrow> balanced (s @ t)"
  by (induction rule: balanced.induct) (auto intro: balanced.intros)

lemma closes_Cons_balanced: "closes st w \<Longrightarrow> balanced s \<Longrightarrow> closes st (s @ w)"
proof (induction rule: closes.induct)
  case (last a b s')
  then show ?case using closes.last[of a b "s @ s'"] balanced_append by simp
next
  case (more a b s' st w)
  then show ?case using closes.more[of a b "s @ s'" st w] balanced_append by simp
qed

lemma closes_nonempty: "closes st w \<Longrightarrow> st \<noteq> [] \<and> w \<noteq> []"
  by (induction rule: closes.induct) auto

text \<open>The reference scan: the stack discipline alone.\<close>

datatype outcome = Closed nat | Broken | Open stack

fun later :: "outcome \<Rightarrow> outcome" where
  "later (Closed k) = Closed (Suc k)"
| "later Broken = Broken"
| "later (Open st) = Open st"

fun dyck :: "stack \<Rightarrow> string \<Rightarrow> outcome" where
  "dyck st [] = Open st"
| "dyck st (c # cs) =
     (if opener c then later (dyck (c # st) cs)
      else if closer c then
        (if st = [] \<or> \<not> pair (hd st) c then Broken
         else if tl st = [] then Closed 1 else later (dyck (tl st) cs))
      else if c = CHR '';'' \<and> st = [] then Broken
      else later (dyck st cs))"

lemma later_Closed [simp]: "later r = Closed k \<longleftrightarrow> (\<exists>j. r = Closed j \<and> k = Suc j)"
  by (cases r) auto

lemma dyck_bound: "dyck st w = Closed k \<Longrightarrow> 0 < k \<and> k \<le> length w"
  by (induction st w arbitrary: k rule: dyck.induct) (fastforce split: if_splits)+

lemma dyck_balanced:
  "balanced s \<Longrightarrow> st \<noteq> [] \<Longrightarrow> dyck st (s @ w) = (later ^^ length s) (dyck st w)"
proof (induction arbitrary: st w rule: balanced.induct)
  case empty
  show ?case by simp
next
  case (char c s)
  then show ?case by (simp add: plain_not)
next
  case (nest a b s t)
  from nest(1) pair_opener have ab: "opener a" "closer b" "\<not> opener b" by auto
  have "dyck st (a # s @ b # t @ w) = later ((later ^^ length s) (dyck (a # st) (b # t @ w)))"
    using ab nest.IH(1)[of "a # st" "b # t @ w"] by simp
  also have "dyck (a # st) (b # t @ w) = later ((later ^^ length t) (dyck st w))"
    using ab nest(1) nest.prems nest.IH(2)[of st w] by simp
  finally show ?case by (simp add: funpow_add funpow_swap1)
qed

lemma later_pow_Closed: "(later ^^ n) (Closed k) = Closed (n + k)"
  by (induction n) auto

lemma closes_dyck: "closes st w \<Longrightarrow> dyck st (w @ v) = Closed (length w)"
proof (induction rule: closes.induct)
  case (last a b s)
  from pair_opener[OF last(1)] last(1) have "dyck [a] (b # v) = Closed 1" by simp
  then show ?case using dyck_balanced[OF last(2), of "[a]" "b # v"] by (simp add: later_pow_Closed)
next
  case (more a b s st w)
  from pair_opener[OF more(1)] more(1) closes_nonempty[OF more(3)] more.IH
  have "dyck (a # st) (b # w @ v) = Closed (Suc (length w))" by simp
  then show ?case using dyck_balanced[OF more(2), of "a # st" "b # w @ v"] by (simp add: later_pow_Closed)
qed

lemma opener_pair: "opener a \<Longrightarrow> \<exists>b. pair a b"
  by (auto simp: bracket_char_defs)

lemma dyck_closes:
  "dyck st w = Closed k \<Longrightarrow> st \<noteq> [] \<Longrightarrow> CHR ''<'' \<notin> set w \<Longrightarrow> CHR ''>'' \<notin> set w \<Longrightarrow>
     closes st (take k w)"
proof (induction st w arbitrary: k rule: dyck.induct)
  case (1 st)
  then show ?case by simp
next
  case (2 st c cs)
  consider (op) "opener c" | (cl) "\<not> opener c" "closer c" | (pl) "\<not> opener c" "\<not> closer c" by blast
  then show ?case
  proof cases
    case op
    with "2.prems" obtain j where j: "dyck (c # st) cs = Closed j" "k = Suc j" by auto
    with "2.IH"(1)[OF op] "2.prems" have "closes (c # st) (take j cs)" by simp
    then obtain b s w where "take j cs = s @ b # w" "pair c b" "balanced s" "closes st w"
      using "2.prems"(2) by (cases rule: closes.cases) auto
    moreover have "closes st ((c # s @ [b]) @ w)" if "pair c b" "balanced s" "closes st w"
      using that closes_Cons_balanced[of st w "c # s @ [b]"] balanced.nest[of c b s "[]"]
      by (simp add: balanced.empty)
    ultimately show ?thesis using j by simp
  next
    case cl
    with "2.prems" obtain a st' where st: "st = a # st'" "pair a c"
      by (cases st) (auto split: if_splits)
    show ?thesis
    proof (cases "st' = []")
      case True
      with cl st "2.prems" closes.last[OF st(2) balanced.empty] show ?thesis by auto
    next
      case False
      with cl st "2.prems" obtain j where j: "dyck st' cs = Closed j" "k = Suc j" by auto
      from "2.IH"(2)[OF cl] False st j "2.prems" have "closes st' (take j cs)" by simp
      with closes.more[OF st(2) balanced.empty this] st j show ?thesis by simp
    qed
  next
    case pl
    with "2.prems" obtain j where j: "dyck st cs = Closed j" "k = Suc j" by auto
    with "2.IH"(3)[OF pl] "2.prems" have *: "closes st (take j cs)" by simp
    have "balanced [c]" using pl "2.prems" by (auto simp: plain_def intro: balanced.intros)
    from closes_Cons_balanced[OF * this] j show ?thesis by simp
  qed
qed

text \<open>The grammar and the reference scan agree.\<close>

lemma dyck_iff_closes:
  assumes "st \<noteq> []" "CHR ''<'' \<notin> set w" "CHR ''>'' \<notin> set w"
  shows "dyck st w = Closed k \<longleftrightarrow> k \<le> length w \<and> closes st (take k w)"
proof
  assume "dyck st w = Closed k"
  with dyck_closes[OF this assms] dyck_bound[OF this] show "k \<le> length w \<and> closes st (take k w)" by simp
next
  assume *: "k \<le> length w \<and> closes st (take k w)"
  then have "dyck st (take k w @ drop k w) = Closed (length (take k w))" by (intro closes_dyck) simp
  with * show "dyck st w = Closed k" by simp
qed

lemma closes_single: "closes [a] w \<longleftrightarrow> (\<exists>s b. pair a b \<and> balanced s \<and> w = s @ [b])"
  using closes_nonempty by (fastforce elim: closes.cases intro: closes.intros)

lemma bracketed_iff: "bracketed (a # w) \<longleftrightarrow> closes [a] w"
  by (auto simp: bracketed_def closes_single)

section \<open>The code's scans follow the grammar\<close>

definition no_angle :: "string \<Rightarrow> bool" where
  "no_angle s \<longleftrightarrow> CHR ''<'' \<notin> set s \<and> CHR ''>'' \<notin> set s"

lemma no_angle_simps [simp]:
  "no_angle []"
  "no_angle (c # s) \<longleftrightarrow> c \<noteq> CHR ''<'' \<and> c \<noteq> CHR ''>'' \<and> no_angle s"
  "no_angle (s @ t) \<longleftrightarrow> no_angle s \<and> no_angle t"
  by (auto simp: no_angle_def)

lemma dropWhile_angle: "no_angle st \<Longrightarrow> dropWhile (\<lambda>c. c = CHR ''<'') st = st \<and> dropWhile (\<lambda>c. c = CHR ''>'') st = st"
  by (cases st) auto

lemma no_angle_tl: "no_angle st \<Longrightarrow> no_angle (tl st)"
  by (cases st) auto

lemma end_step_plain:
  assumes "line ! i = c" "c \<noteq> CHR ''<''" "c \<noteq> CHR ''>''" "no_angle st"
  shows "end_step line i st =
    (if opener c then Go (c # st)
     else if closer c then
       (if st = [] \<or> \<not> pair (hd st) c then Return (- 1)
        else if tl st = [] then Return (int i + 1) else Go (tl st))
     else if c = CHR '';'' \<and> st = [] then Return (- 1) else Go st)"
  using assms by (simp add: end_step_def dropWhile_angle Let_def closer_def)

lemma FindEnd_dyck:
  "no_angle w \<Longrightarrow> no_angle st \<Longrightarrow> FindEndOfExpressionInLine (u @ w @ v) (length u) st =
     (case dyck st w of
        Closed k \<Rightarrow> (int (length u + k), None)
      | Broken \<Rightarrow> (- 1, None)
      | Open st' \<Rightarrow> FindEndOfExpressionInLine (u @ w @ v) (length u + length w) st')"
proof (induction w arbitrary: u st)
  case Nil
  show ?case by simp
next
  case (Cons c w)
  have nth: "(u @ (c # w) @ v) ! length u = c" by simp
  have IH: "no_angle st' \<Longrightarrow> FindEndOfExpressionInLine (u @ (c # w) @ v) (Suc (length u)) st' =
     (case dyck st' w of
        Closed k \<Rightarrow> (int (Suc (length u) + k), None)
      | Broken \<Rightarrow> (- 1, None)
      | Open st'' \<Rightarrow> FindEndOfExpressionInLine (u @ (c # w) @ v) (Suc (length u) + length w) st'')" for st'
    using Cons.IH[of st' "u @ [c]"] Cons.prems by (simp split: outcome.splits)
  have step: "end_step (u @ (c # w) @ v) (length u) st =
    (if opener c then Go (c # st)
     else if closer c then
       (if st = [] \<or> \<not> pair (hd st) c then Return (- 1)
        else if tl st = [] then Return (int (length u) + 1) else Go (tl st))
     else if c = CHR '';'' \<and> st = [] then Return (- 1) else Go st)"
    by (rule end_step_plain[OF nth]) (use Cons.prems in auto)
  have angles: "no_angle (c # st)" "no_angle (tl st)" using Cons.prems no_angle_tl by auto
  have lt: "length u < length (u @ (c # w) @ v)" by simp
  show ?case
    unfolding FindEndOfExpressionInLine.simps[of "u @ (c # w) @ v" "length u" st] step
    using lt IH[OF angles(1)] IH[OF angles(2)] IH[OF Cons.prems(2)]
    by (auto split: outcome.splits)
qed

lemma FindEnd_end: "FindEndOfExpressionInLine l (length l) st = (- 1, Some st)"
  by (subst FindEndOfExpressionInLine.simps) simp

lemma FindEnd_dyck_line:
  assumes "no_angle l" "no_angle st"
  shows "FindEndOfExpressionInLine l 0 st =
     (case dyck st l of Closed k \<Rightarrow> (int k, None) | Broken \<Rightarrow> (- 1, None) | Open st' \<Rightarrow> (- 1, Some st'))"
proof -
  have "FindEndOfExpressionInLine l 0 st =
     (case dyck st l of Closed k \<Rightarrow> (int k, None) | Broken \<Rightarrow> (- 1, None)
        | Open st' \<Rightarrow> FindEndOfExpressionInLine l (length l) st')"
    using FindEnd_dyck[OF assms, of "[]" "[]"] unfolding append_Nil append_Nil2 list.size(3) add_0 .
  then show ?thesis unfolding FindEnd_end .
qed

definition and_then :: "outcome \<Rightarrow> (stack \<Rightarrow> outcome) \<Rightarrow> outcome" where
  "and_then r f = (case r of Closed k \<Rightarrow> Closed k | Broken \<Rightarrow> Broken | Open st \<Rightarrow> f st)"

lemma and_then_simps [simp]:
  "and_then (Closed k) f = Closed k" "and_then Broken f = Broken" "and_then (Open st) f = f st"
  by (simp_all add: and_then_def)

lemma and_then_later: "and_then (later r) (\<lambda>st. later (f st)) = later (and_then r f)"
  by (cases r) simp_all

lemma dyck_append: "dyck st (u @ v) = and_then (dyck st u) (\<lambda>st'. (later ^^ length u) (dyck st' v))"
proof (induction u arbitrary: st)
  case Nil
  show ?case by simp
next
  case (Cons c u)
  show ?case by (simp add: Cons.IH and_then_later)
qed

lemma dyck_Open: "dyck st w = Open st' \<Longrightarrow> no_angle st \<Longrightarrow> no_angle w \<Longrightarrow> no_angle st' \<and> (st \<noteq> [] \<longrightarrow> st' \<noteq> [])"
proof (induction st w rule: dyck.induct)
  case (1 st)
  then show ?case by simp
next
  case (2 st c cs)
  have later_Open: "later r = Open x \<longleftrightarrow> r = Open x" for r x by (cases r) auto
  from 2 show ?case using no_angle_tl[of st] by (auto simp: later_Open split: if_splits)
qed

lemma later_pow_iff: "(later ^^ n) r = Closed (n + k) \<longleftrightarrow> r = Closed k"
  by (induction n) auto

lemma later_pow_ge: "(later ^^ n) r = Closed k \<Longrightarrow> n \<le> k"
  by (induction n arbitrary: k) auto

lemma scan_lines_dyck:
  assumes "\<forall>nl\<in>set ls. no_angle (snd nl)" "no_angle st" "st \<noteq> []"
  shows "scan_lines (\<lambda>l st. FindEndOfExpressionInLine l 0 st) ls line (Some st) = (l, Some (m, int q)) \<longleftrightarrow>
    (\<exists>ls1 ls2. ls = ls1 @ (m, l) # ls2 \<and> 0 < q \<and> q \<le> length l \<and>
       dyck st (concat (map snd ls1) @ take q l) = Closed (length (concat (map snd ls1)) + q))"
    (is "?scan ls line st \<longleftrightarrow> ?spec ls st")
  using assms
proof (induction ls arbitrary: line st)
  case Nil
  then show ?case by simp
next
  case (Cons nl ls)
  obtain n1 l1 where nl: "nl = (n1, l1)" by (cases nl)
  have FE: "FindEndOfExpressionInLine l1 0 st =
     (case dyck st l1 of Closed k \<Rightarrow> (int k, None) | Broken \<Rightarrow> (- 1, None) | Open st' \<Rightarrow> (- 1, Some st'))"
    using Cons.prems nl by (intro FindEnd_dyck_line) auto
  have here: "dyck st l1 = Closed q" if "dyck st (take q l1) = Closed q" for q
    using that dyck_append[of st "take q l1" "drop q l1"] by simp
  have spec: "?spec (nl # ls) st \<longleftrightarrow>
      (m = n1 \<and> l = l1 \<and> 0 < q \<and> q \<le> length l1 \<and> dyck st (take q l1) = Closed q) \<or>
      (\<exists>ls1 ls2. ls = ls1 @ (m, l) # ls2 \<and> 0 < q \<and> q \<le> length l \<and>
        dyck st (l1 @ concat (map snd ls1) @ take q l) =
          Closed (length l1 + (length (concat (map snd ls1)) + q)))"
    (is "_ \<longleftrightarrow> ?here \<or> ?there")
  proof
    assume "?spec (nl # ls) st"
    then obtain ls1 ls2 where *: "nl # ls = ls1 @ (m, l) # ls2" "0 < q" "q \<le> length l"
      "dyck st (concat (map snd ls1) @ take q l) = Closed (length (concat (map snd ls1)) + q)" by blast
    show "?here \<or> ?there"
    proof (cases ls1)
      case Nil
      with * nl show ?thesis by simp
    next
      case (Cons x xs)
      with * nl have "x = (n1, l1)" "ls = xs @ (m, l) # ls2" by auto
      with * Cons have "ls = xs @ (m, l) # ls2 \<and> 0 < q \<and> q \<le> length l \<and>
        dyck st (l1 @ concat (map snd xs) @ take q l) =
          Closed (length l1 + (length (concat (map snd xs)) + q))" by (simp add: add.assoc)
      then show ?thesis by blast
    qed
  next
    assume "?here \<or> ?there"
    then show "?spec (nl # ls) st"
    proof
      assume ?here
      then show ?thesis using nl by (intro exI[of _ "[]"] exI[of _ ls]) simp
    next
      assume ?there
      then obtain ls1 ls2 where *: "ls = ls1 @ (m, l) # ls2" "0 < q" "q \<le> length l"
        "dyck st (l1 @ concat (map snd ls1) @ take q l) =
          Closed (length l1 + (length (concat (map snd ls1)) + q))" by blast
      then show ?thesis using nl by (intro exI[of _ "nl # ls1"] exI[of _ ls2]) (simp add: add.assoc)
    qed
  qed
  show ?case
  proof (cases "dyck st l1")
    case (Closed k)
    have k: "0 < k" "k \<le> length l1" using dyck_bound[OF Closed] by auto
    have "dyck st (take q l1) = Closed q \<longleftrightarrow> q = k" for q
    proof
      assume "dyck st (take q l1) = Closed q"
      with here Closed show "q = k" by fastforce
    next
      assume "q = k"
      moreover have "CHR ''<'' \<notin> set l1" "CHR ''>'' \<notin> set l1" using Cons.prems nl by (auto simp: no_angle_def)
      moreover have "CHR ''<'' \<notin> set (take q l1)" "CHR ''>'' \<notin> set (take q l1)"
        using calculation by (auto dest: in_set_takeD)
      ultimately show "dyck st (take q l1) = Closed q"
        using Closed k Cons.prems(3) by (simp add: dyck_iff_closes)
    qed
    then have q_k: "dyck st (take q l1) = Closed q \<longleftrightarrow> q = k" .
    have "?scan (nl # ls) line st \<longleftrightarrow> m = n1 \<and> l = l1 \<and> q = k"
      using FE Closed nl Cons.prems(3) k by auto
    moreover have "dyck st (l1 @ w) \<noteq> Closed (length l1 + (x + q))" if "0 < q" for w x
      using Closed k that by (simp add: dyck_append)
    ultimately show ?thesis unfolding spec using q_k k by blast
  next
    case Broken
    have "\<not> ?scan (nl # ls) line st"
      using FE Broken nl Cons.prems(3) by (cases ls) auto
    moreover have "dyck st (l1 @ w) \<noteq> Closed x" for w x
      using Broken by (simp add: dyck_append)
    moreover have "dyck st (take q l1) \<noteq> Closed q" using here[of q] Broken by auto
    ultimately show ?thesis unfolding spec by blast
  next
    case (Open st')
    with dyck_Open[OF Open] Cons.prems nl have st': "no_angle st'" "st' \<noteq> []" by auto
    with Cons.IH[OF _ st', of l1] Cons.prems have IH: "?scan ls l1 st' \<longleftrightarrow> ?spec ls st'" by simp
    have "?scan (nl # ls) line st \<longleftrightarrow> ?scan ls l1 st'"
      using FE Open nl Cons.prems(3) by simp
    moreover have "dyck st (l1 @ w) = Closed (length l1 + x) \<longleftrightarrow> dyck st' w = Closed x" for w x
      using Open by (simp add: dyck_append later_pow_iff)
    moreover have "dyck st (take q l1) \<noteq> Closed q" using here[of q] Open by auto
    ultimately show ?thesis unfolding spec IH by blast
  qed
qed

lemma map_upt_split:
  "map f [a..<b] = xs @ y # ys \<longleftrightarrow>
     (\<exists>m. a \<le> m \<and> m < b \<and> xs = map f [a..<m] \<and> y = f m \<and> ys = map f [Suc m..<b])"
proof
  assume *: "map f [a..<b] = xs @ y # ys"
  let ?m = "a + length xs"
  from arg_cong[OF *, of length] have len: "b - a = length xs + Suc (length ys)" by simp
  then have m: "a \<le> ?m" "?m < b" by auto
  have "[a..<b] = [a..<?m] @ ?m # [Suc ?m..<b]"
    using m upt_add_eq_append[of a ?m "b - ?m"] upt_conv_Cons[of ?m b] by simp
  with * have "map f [a..<?m] @ f ?m # map f [Suc ?m..<b] = xs @ y # ys" by simp
  then have "xs = map f [a..<?m] \<and> y = f ?m \<and> ys = map f [Suc ?m..<b]"
    by (subst (asm) append_eq_append_conv) auto
  with m show "\<exists>m. a \<le> m \<and> m < b \<and> xs = map f [a..<m] \<and> y = f m \<and> ys = map f [Suc m..<b]" by blast
next
  assume "\<exists>m. a \<le> m \<and> m < b \<and> xs = map f [a..<m] \<and> y = f m \<and> ys = map f [Suc m..<b]"
  then obtain m where m: "a \<le> m" "m < b" "xs = map f [a..<m]" "y = f m" "ys = map f [Suc m..<b]" by blast
  have "[a..<b] = [a..<m] @ m # [Suc m..<b]"
    using m upt_add_eq_append[of a m "b - m"] upt_conv_Cons[of m b] by simp
  with m show "map f [a..<b] = xs @ y # ys" by simp
qed

text \<open>The text between two positions of a file.\<close>

definition text_between :: "string list \<Rightarrow> nat \<Rightarrow> nat \<Rightarrow> nat \<Rightarrow> nat \<Rightarrow> string" where
  "text_between E n p m q =
     (if m = n then take (q - p) (drop p (E ! n))
      else drop p (E ! n) @ concat (map (\<lambda>i. E ! i) [Suc n..<m]) @ take q (E ! m))"

lemma lines_after_split:
  "lines_after E n = ls1 @ (m, l) # ls2 \<longleftrightarrow>
     n < m \<and> m < length E \<and> ls1 = map (\<lambda>i. (i, E ! i)) [Suc n..<m] \<and> l = E ! m \<and>
     ls2 = map (\<lambda>i. (i, E ! i)) [Suc m..<length E]"
  by (auto simp: lines_after_def map_upt_split)

lemma no_angle_drop: "no_angle s \<Longrightarrow> no_angle (drop n s)"
  by (auto simp: no_angle_def dest: in_set_dropD)

lemma no_angle_take: "no_angle s \<Longrightarrow> no_angle (take n s)"
  by (auto simp: no_angle_def dest: in_set_takeD)

lemma opener_not_shift: "opener c \<Longrightarrow> \<not> matches RE_SHIFT_LE (c # s)"
  by (auto simp: matches_iff RE_SHIFT_LE_def one_of_def opener_def rx_simps)

lemma dyck_from_opener:
  assumes "opener a" "no_angle w"
  shows "dyck [] (a # w) = Closed k \<longleftrightarrow> k \<le> length (a # w) \<and> bracketed (take k (a # w))"
proof -
  have angles: "CHR ''<'' \<notin> set w" "CHR ''>'' \<notin> set w" using assms(2) by (auto simp: no_angle_def)
  have "\<not> bracketed []" by (simp add: bracketed_def)
  with assms(1) show ?thesis
    by (cases k) (auto simp: dyck_iff_closes[OF _ angles] bracketed_iff)
qed

lemma bracketed_length: "bracketed w \<Longrightarrow> 2 \<le> length w"
  by (auto simp: bracketed_def)

lemma CloseExpression_no_angle:
  assumes E: "\<forall>l\<in>set E. no_angle l" and n: "n < length E" and p: "p < length (E ! n)"
    and op: "opener (E ! n ! p)" and m: "m < length E" and q: "q \<le> length (E ! m)"
  shows "CloseExpression E n p = Inr (E ! m, m, int q) \<longleftrightarrow>
    (n < m \<and> 0 < q \<or> m = n \<and> p < q) \<and> bracketed (text_between E n p m q)"
proof -
  let ?l = "E ! n"
  define a w where "a = ?l ! p" and "w = drop (Suc p) ?l"
  have dr: "drop p ?l = a # w" using p by (simp add: a_def w_def Cons_nth_drop_Suc)
  have na: "no_angle ?l" "no_angle w" "no_angle (a # w)"
    using E n no_angle_drop[of ?l p] dr by (auto simp: w_def no_angle_drop)
  have FE: "FindEndOfExpressionInLine ?l p [] =
     (case dyck [] (a # w) of Closed k \<Rightarrow> (int (p + k), None) | Broken \<Rightarrow> (- 1, None)
      | Open st \<Rightarrow> (- 1, Some st))"
  proof -
    have "take p ?l @ (a # w) @ [] = ?l" "length (take p ?l) = p" "p + length (a # w) = length ?l"
      using p by (simp_all flip: dr)
    with FindEnd_dyck[OF na(3) no_angle_simps(1), of "take p ?l" "[]"] show ?thesis
      by (simp only: FindEnd_end)
  qed
  have start: "CloseExpression E n p = (case FindEndOfExpressionInLine ?l p [] of (e, st) \<Rightarrow>
      if - 1 < e then Inr (?l, n, e)
      else case scan_lines (\<lambda>l st. FindEndOfExpressionInLine l 0 st) (lines_after E n) ?l st of
        (l', None) \<Rightarrow> Inr (l', length E, - 1) | (l', Some (m, q)) \<Rightarrow> Inr (l', m, q))"
    using n p op opener_not_shift[OF op, of w] dr
    by (auto simp: CloseExpression_def opener_def a_def)
  have bracketed_text: "bracketed t \<longleftrightarrow> dyck [] t = Closed (length t)" if "t = a # t'" "no_angle t'" for t t'
    using dyck_from_opener[of a t' "length t"] op that by (simp add: a_def)
  have found: "CloseExpression E n p = Inr (E ! m, m, int q) \<longleftrightarrow>
    (case dyck [] (a # w) of Closed k \<Rightarrow> m = n \<and> q = p + k | Broken \<Rightarrow> False
     | Open st \<Rightarrow> scan_lines (\<lambda>l st. FindEndOfExpressionInLine l 0 st) (lines_after E n) ?l (Some st) = (E ! m, Some (m, int q)))"
  proof (cases "dyck [] (a # w)")
    case (Closed k)
    then have "CloseExpression E n p = Inr (?l, n, int (p + k))" unfolding start FE by simp
    with Closed show ?thesis by auto
  next
    case Broken
    then have "\<exists>l'. CloseExpression E n p = Inr (l', length E, - 1)"
      unfolding start FE by (cases "lines_after E n") auto
    with Broken show ?thesis by auto
  next
    case (Open st)
    obtain l' r where r: "scan_lines (\<lambda>l st. FindEndOfExpressionInLine l 0 st) (lines_after E n) ?l (Some st) = (l', r)"
      by fastforce
    with Open have "CloseExpression E n p =
        (case r of None \<Rightarrow> Inr (l', length E, - 1) | Some (m, q) \<Rightarrow> Inr (l', m, q))"
      unfolding start FE by simp
    then show ?thesis using Open r by (auto split: option.splits)
  qed
  show ?thesis
  proof (cases "m = n")
    case True
    let ?t = "take (q - p) (a # w)"
    have T: "text_between E n p m q = ?t" using True dr by (simp add: text_between_def)
    have "length w = length ?l - Suc p" by (simp add: w_def)
    then have len: "q - p \<le> length (a # w)" using True q by auto
    have D: "dyck [] (a # w) = Closed (q - p) \<longleftrightarrow> bracketed ?t"
      using dyck_from_opener[of a w "q - p"] op len na(2) by (simp add: a_def)
    have lt: "p < q" if "bracketed ?t" using bracketed_length[OF that] by (cases "p < q") auto
    have no: "scan_lines (\<lambda>l st. FindEndOfExpressionInLine l 0 st) (lines_after E n) ?l st \<noteq> (E ! m, Some (m, int q))" for st
      using forward.scan_lines_hit[of "lines_after E n" ?l st "E ! m" m "int q"] True
      by (auto simp: lines_after_iff)
    show ?thesis
    proof (cases "dyck [] (a # w)")
      case (Closed k)
      with dyck_bound[OF Closed] have "q = p + k \<longleftrightarrow> dyck [] (a # w) = Closed (q - p)" by auto
      then show ?thesis unfolding found T using Closed D lt True by auto
    next
      case Broken
      then show ?thesis unfolding found T using D True by auto
    next
      case (Open st)
      then show ?thesis unfolding found T using D True no by auto
    qed
  next
    case False
    let ?r = "concat (map (\<lambda>i. E ! i) [Suc n..<m]) @ take q (E ! m)"
    have T: "text_between E n p m q = a # w @ ?r" using False dr by (simp add: text_between_def)
    have ls: "\<forall>nl\<in>set (lines_after E n). no_angle (snd nl)" using E by (auto simp: lines_after_def)
    have "no_angle ?r" using E m by (auto simp: no_angle_def dest: in_set_takeD)
    with na(2) have B: "bracketed (a # w @ ?r) \<longleftrightarrow> dyck [] ((a # w) @ ?r) = Closed (length (a # w) + length ?r)"
      using bracketed_text[of "a # w @ ?r" "w @ ?r"] by simp
    show ?thesis
    proof (cases "dyck [] (a # w)")
      case (Closed k)
      have "q \<le> length ?r" using q by simp
      with dyck_bound[OF Closed] have "k = length (a # w) + length ?r \<Longrightarrow> q = 0" by linarith
      then show ?thesis unfolding found T B dyck_append Closed and_then_simps using False by auto
    next
      case Broken
      then show ?thesis unfolding found T B dyck_append by simp
    next
      case (Open st)
      then have "later (dyck [a] w) = Open st" using op by (simp add: a_def)
      then have "dyck [a] w = Open st" by (cases "dyck [a] w") auto
      from dyck_Open[OF this] na have st: "no_angle st" "st \<noteq> []" by auto
      have "scan_lines (\<lambda>l st. FindEndOfExpressionInLine l 0 st) (lines_after E n) ?l (Some st) = (E ! m, Some (m, int q)) \<longleftrightarrow>
        n < m \<and> 0 < q \<and> dyck st ?r = Closed (length ?r)"
        unfolding scan_lines_dyck[OF ls st] lines_after_split using m q
        by (auto simp: comp_def length_concat)
      then show ?thesis unfolding found T B dyck_append using Open False
        by (auto simp: later_pow_iff)
    qed
  qed
qed

section \<open>Scanning backward over balanced text\<close>

lemma start_step_plain:
  assumes "line ! i = c" "c \<noteq> CHR ''<''" "c \<noteq> CHR ''>''" "no_angle st" "st \<noteq> []"
  shows "start_step line i st =
    (if closer c then BGo False (c # st)
     else if opener c then
       (if \<not> pair c (hd st) then BReturn (- 1)
        else if tl st = [] then BReturn (int i) else BGo False (tl st))
     else BGo False st)"
  using assms by (simp add: start_step_def dropWhile_angle Let_def opener_def)

lemma find_start_step:
  "find_start (u @ c # v) (Suc (length u)) st = (case start_step (u @ c # v) (length u) st of
     BReturn p \<Rightarrow> (p, None) | BGo skip st' \<Rightarrow> find_start (u @ c # v) (length u - (if skip then 1 else 0)) st')"
  by (subst find_start.simps) (simp split: back_step_result.split)

lemma find_start_balanced:
  "balanced s \<Longrightarrow> st \<noteq> [] \<Longrightarrow> no_angle st \<Longrightarrow>
     find_start (u @ s @ v) (length u + length s) st = find_start (u @ s @ v) (length u) st"
proof (induction arbitrary: u v st rule: balanced.induct)
  case empty
  show ?case by simp
next
  case (char c s)
  have "find_start (u @ (c # s) @ v) (length u + length (c # s)) st =
        find_start (u @ c # s @ v) (Suc (length u)) st"
    using char.IH[OF char.prems, of "u @ [c]" v] by simp
  also have "\<dots> = find_start (u @ c # s @ v) (length u) st"
    unfolding find_start_step using char.hyps(1) char.prems
    by (simp add: start_step_plain[of _ _ c] plain_def)
  finally show ?case by simp
next
  case (nest a b s t)
  let ?line = "u @ (a # s @ b # t) @ v"
  have ab: "opener a" "closer b" "\<not> closer a" "no_angle [a, b]"
    using nest.hyps(1) by (auto simp: bracket_char_defs)
  have "find_start ?line (length u + length (a # s @ b # t)) st =
        find_start ?line (Suc (length (u @ a # s))) st"
    using nest.IH(2)[OF nest.prems, of "u @ a # s @ [b]" v] by (simp add: add.assoc)
  also have "\<dots> = find_start ?line (length (u @ a # s)) (b # st)"
    using find_start_step[of "u @ a # s" b "t @ v" st] ab nest.prems
    by (simp add: start_step_plain[of _ _ b] nth_append)
  also have "\<dots> = find_start ?line (Suc (length u)) (b # st)"
    using nest.IH(1)[of "b # st" "u @ [a]" "b # t @ v"] ab nest.prems by simp
  also have "\<dots> = find_start ?line (length u) st"
    using find_start_step[of u a "s @ b # t @ v" "b # st"] ab nest.prems nest.hyps(1)
    by (simp add: start_step_plain[of _ _ a])
  finally show ?case .
qed

lemma balanced_no_angle: "balanced s \<Longrightarrow> no_angle s"
  by (induction rule: balanced.induct) (auto simp: plain_def bracket_char_defs)

lemma find_start_bracketed:
  assumes "bracketed w"
  shows "find_start (u @ w @ v) (length u + length w) [] = (int (length u), None)"
proof -
  from assms obtain a s b where w: "pair a b" "balanced s" "w = a # s @ [b]"
    by (auto simp: bracketed_def)
  have ab: "opener a" "closer b" "\<not> closer a" "no_angle [a, b]"
    using w(1) by (auto simp: bracket_char_defs)
  let ?line = "u @ w @ v"
  have "find_start ?line (Suc (length (u @ a # s))) [] = find_start ?line (length (u @ a # s)) [b]"
    using find_start_step[of "u @ a # s" b v "[]"] ab
    by (simp add: w(3) start_step_def nth_append)
  also have "\<dots> = find_start ?line (Suc (length u)) [b]"
    using find_start_balanced[OF w(2), of "[b]" "u @ [a]" "b # v"] ab by (simp add: w(3))
  also have "\<dots> = (int (length u), None)"
    using find_start_step[of u a "s @ b # v" "[b]"] ab w(1)
    by (simp add: w(3) start_step_plain[of _ _ a])
  finally show ?thesis by (simp add: w(3))
qed

section \<open>Properties\<close>

text \<open>On an existing position \<open>CloseExpression\<close> always returns: either \<open>-1\<close> with the number of
  lines, or a line at or after the start with the position just past a closing bracket of that line
  (on the first line, after the start).\<close>

theorem CloseExpression_returns_past_closer:
  assumes "n < length E" "p < length (E ! n)"
  shows "(\<exists>l. CloseExpression E n p = Inr (l, length E, - 1)) \<or>
    (\<exists>m q. CloseExpression E n p = Inr (E ! m, m, int q) \<and> n \<le> m \<and> m < length E \<and>
      0 < q \<and> q \<le> length (E ! m) \<and> E ! m ! (q - 1) \<in> set '')]}>'' \<and> (if m = n then p < q else True))"
  by (rule CloseExpression_cases[OF assms]) auto

theorem CloseExpression_returns_past_closer_witness:
  "(\<exists>l. CloseExpression [''f(a,'', ''  b);''] 0 1 = Inr (l, 2, - 1)) \<or>
   (\<exists>m q. CloseExpression [''f(a,'', ''  b);''] 0 1 = Inr ([''f(a,'', ''  b);''] ! m, m, int q) \<and> m < 2 \<and> 0 < q)"
  using CloseExpression_returns_past_closer[of 0 "[''f(a,'', ''  b);'']" 1] by fastforce

text \<open>C4. On text without angle brackets \<open>CloseExpression\<close> from an opening bracket finds a position
  exactly if the text up to it, across lines, is a bracketed expression of the grammar: its verdict
  is the specification, in both directions.\<close>

theorem CloseExpression_iff_bracketed:
  assumes "\<forall>l\<in>set E. no_angle l" "n < length E" "p < length (E ! n)" "opener (E ! n ! p)"
    and "m < length E" "q \<le> length (E ! m)"
  shows "CloseExpression E n p = Inr (E ! m, m, int q) \<longleftrightarrow>
    (n < m \<and> 0 < q \<or> m = n \<and> p < q) \<and> bracketed (text_between E n p m q)"
  using assms by (rule CloseExpression_no_angle)

theorem CloseExpression_iff_bracketed_witness:
  "CloseExpression [''f(a[0],'', ''  g{};b)'', '');''] 0 1 = Inr (''  g{};b)'', 1, 8)"
proof -
  let ?E = "[''f(a[0],'', ''  g{};b)'', '');'']"
  have "balanced ''a[0],  g{};b''"
    by (rule balanced_append[of "''a''" "''[0],  g{};b''", simplified]
        balanced.nest[of "CHR ''[''" "CHR '']''" "''0''" "'',  g{};b''", simplified]
        balanced.nest[of "CHR ''{''" "CHR ''}''" "[]" "'';b''", simplified]
        balanced.empty balanced.char | simp add: plain_def pair_def opener_def closer_def)+
  then have "bracketed (text_between ?E 0 1 1 8)"
    by (simp add: text_between_def bracketed_def pair_def upt_rec numeral_eq_Suc)
  then show ?thesis
    using CloseExpression_iff_bracketed[of ?E 0 1 1 8] by (simp add: no_angle_def opener_def)
qed

text \<open>C8. Closing and reverse closing are inverse: from the opening bracket of a bracketed expression
  on a line, whatever surrounds it, \<open>CloseExpression\<close> stops just past its last character, and from that
  character \<open>ReverseCloseExpression\<close> comes back to the opening bracket.\<close>

theorem Close_Reverse_roundtrip:
  assumes "bracketed w" "n < length E" "E ! n = u @ w @ v"
  shows "CloseExpression E n (length u) = Inr (E ! n, n, int (length u + length w)) \<and>
    ReverseCloseExpression E n (length u + length w - 1) = Inr (E ! n, n, int (length u))"
proof -
  from assms(1) obtain a s b where w: "pair a b" "balanced s" "w = a # s @ [b]"
    by (auto simp: bracketed_def)
  have ab: "opener a" "closer b" "no_angle w"
    using w balanced_no_angle[OF w(2)] by (auto simp: bracket_char_defs)
  have "closes [a] (s @ [b])" using w by (simp add: closes.last)
  from closes_dyck[OF this, of "[]"] have "dyck [] w = Closed (length w)" using ab(1) w(3) by simp
  then have "FindEndOfExpressionInLine (u @ w @ v) (length u) [] = (int (length u + length w), None)"
    using FindEnd_dyck[OF ab(3), of "[]" u v] by simp
  moreover have "\<not> matches RE_SHIFT_LE (w @ v)" using opener_not_shift[OF ab(1), of "s @ b # v"] w(3) by simp
  ultimately have "CloseExpression E n (length u) = Inr (E ! n, n, int (length u + length w))"
    using assms(2,3) ab(1) w(3) by (auto simp: CloseExpression_def opener_def)
  moreover have "(u @ w @ v) ! (length u + length w - 1) = b" by (simp add: w(3) nth_append)
  then have "ReverseCloseExpression E n (length u + length w - 1) = Inr (E ! n, n, int (length u))"
    using assms(2,3) ab(2) find_start_bracketed[OF assms(1), of u v] py_get_in[of "length u + length w - 1" "u @ w @ v"] w(3)
    by (auto simp: ReverseCloseExpression_def closer_def)
  ultimately show ?thesis by blast
qed

theorem Close_Reverse_roundtrip_witness:
  "CloseExpression [''x = y<f(a, {1});''] 0 7 = Inr (''x = y<f(a, {1});'', 0, 15) \<and>
   ReverseCloseExpression [''x = y<f(a, {1});''] 0 14 = Inr (''x = y<f(a, {1});'', 0, 7)"
proof -
  have "balanced ''a, {1}''"
    by (rule balanced.char balanced.nest[of "CHR ''{''" "CHR ''}''" "''1''" "[]", simplified] balanced.empty
        | simp add: plain_def pair_def opener_def closer_def)+
  then have "bracketed ''(a, {1})''" by (simp add: bracketed_def pair_def)
  from Close_Reverse_roundtrip[OF this, of 0 "[''x = y<f(a, {1});'']" "''x = y<f''" "'';''"]
  show ?thesis by (simp add: eval_nat_numeral)
qed

text \<open>The forward scan does not skip the \<open>>\<close> of \<open>operator>\<close> although its comment says it ignores
  operator functions: it looks for the word one character too early, so an argument list that starts
  with \<open>operator>\<close> is taken to end there, whatever follows.\<close>

theorem FindEnd_stops_at_operator_gt:
  "FindEndOfExpressionInLine (''<operator>'' @ v) 0 [] = (10, None)"
proof -
  let ?l = "''<operator>'' @ v"
  have nth: "?l ! 0 = CHR ''<''" "?l ! 1 = CHR ''o''" "?l ! 2 = CHR ''p''" "?l ! 3 = CHR ''e''"
    "?l ! 4 = CHR ''r''" "?l ! 5 = CHR ''a''" "?l ! 6 = CHR ''t''" "?l ! 7 = CHR ''o''"
    "?l ! 8 = CHR ''r''" "?l ! 9 = CHR ''>''" by simp_all
  have tk: "take 8 ?l = ''<operato''" by simp
  have no_op: "\<not> searches RE_OPERATOR_END ''<operato''"
    by (simp add: searches_def re_search_def re_at_def RE_OPERATOR_END_def char_class_defs at_word_boundary_def)
  have s0: "end_step ?l 0 [] = Go ''<''"
    using nth(1) by (simp add: end_step_def opener_def)
  have sk: "end_step ?l i ''<'' = Go ''<''" if "i \<in> {1,2,3,4,5,6,7,8}" for i
    using that nth by (auto simp: end_step_def opener_def closer_def)
  have s9: "end_step ?l 9 ''<'' = Return 10"
    using nth(9,10) tk no_op by (simp add: end_step_def opener_def closer_def)
  have go: "FindEndOfExpressionInLine ?l i st = FindEndOfExpressionInLine ?l (Suc i) st'"
    if "end_step ?l i st = Go st'" "i < 10" for i st st'
    using that by (subst FindEndOfExpressionInLine.simps) simp
  have skip: "FindEndOfExpressionInLine ?l i ''<'' = FindEndOfExpressionInLine ?l (Suc i) ''<''"
    if "i \<in> {1,2,3,4,5,6,7,8}" for i
    using sk[OF that] that by (intro go) auto
  have "FindEndOfExpressionInLine ?l 0 [] = FindEndOfExpressionInLine ?l 1 ''<''"
    using go[OF s0] by (simp del: append_Cons append_Nil)
  also have "\<dots> = FindEndOfExpressionInLine ?l 5 ''<''"
    using skip[of 1] skip[of 2] skip[of 3] skip[of 4] by (simp del: append_Cons append_Nil add: eval_nat_numeral)
  also have "\<dots> = FindEndOfExpressionInLine ?l 9 ''<''"
    using skip[of 5] skip[of 6] skip[of 7] skip[of 8] by (simp del: append_Cons append_Nil)
  also have "\<dots> = (10, None)"
    using s9 by (subst FindEndOfExpressionInLine.simps) simp
  finally show ?thesis .
qed

end
