(* ===== verification/LintLog.thy ===== *)
theory LintLog
  imports RegexFacts
begin

text \<open>
  The linter's module-wide state and what happens to a reported problem (\<open>cpplint.py\<close>:
  \<open>_ERROR_CATEGORIES\<close>, \<open>_CppLintState\<close>, \<open>ParseNolintSuppressions\<close> and its siblings,
  \<open>_ShouldPrintError\<close>, \<open>Error\<close>).

  A check of the source calls its \<open>error\<close> argument; a check of the model returns the list of
  \<open>report\<close>s in the order of the calls.  \<open>Error\<close> is the handler the program passes: it consults
  the suppressions, the verbosity and the filters, counts the report and writes it to the error
  stream.  \<open>emit_all\<close> runs a check's reports through it.
\<close>

section \<open>Reports and decimal output\<close>

record report =
  r_file :: string
  r_line :: int
  r_cat :: string
  r_conf :: int
  r_msg :: string

definition report :: "string \<Rightarrow> int \<Rightarrow> string \<Rightarrow> int \<Rightarrow> string \<Rightarrow> report" where
  "report f l c k m = \<lparr>r_file = f, r_line = l, r_cat = c, r_conf = k, r_msg = m\<rparr>"

lemma report_sel [simp]:
  "r_file (report f l c k m) = f" "r_line (report f l c k m) = l" "r_cat (report f l c k m) = c"
  "r_conf (report f l c k m) = k" "r_msg (report f l c k m) = m"
  by (simp_all add: report_def)

text \<open>\<open>%d\<close> and \<open>%s\<close> of an integer.\<close>

fun show_nat :: "nat \<Rightarrow> string" where
  "show_nat n = (if n < 10 then [''0123456789'' ! n] else show_nat (n div 10) @ [''0123456789'' ! (n mod 10)])"

declare show_nat.simps [simp del]

definition show_int :: "int \<Rightarrow> string" where
  "show_int i = (if i < 0 then ''-'' @ show_nat (nat (- i)) else show_nat (nat i))"

section \<open>Categories and state\<close>

definition ERROR_CATEGORIES :: "string list" where
  "ERROR_CATEGORIES = [
    ''build/class'', ''build/c++11'', ''build/deprecated'', ''build/endif_comment'', 
    ''build/explicit_make_pair'', ''build/forward_decl'', ''build/header_guard'', 
    ''build/include'', ''build/include_alpha'', ''build/include_order'', 
    ''build/include_what_you_use'', ''build/namespaces'', ''build/printf_format'', 
    ''build/storage_class'', ''legal/copyright'', ''readability/alt_tokens'', 
    ''readability/braces'', ''readability/casting'', ''readability/check'', 
    ''readability/constructors'', ''readability/fn_size'', ''readability/function'', 
    ''readability/inheritance'', ''readability/multiline_comment'', 
    ''readability/multiline_string'', ''readability/namespace'', ''readability/nolint'', 
    ''readability/nul'', ''readability/strings'', ''readability/todo'', 
    ''readability/utf8'', ''runtime/arrays'', ''runtime/casting'', ''runtime/explicit'', 
    ''runtime/int'', ''runtime/init'', ''runtime/invalid_increment'', 
    ''runtime/member_string_references'', ''runtime/memset'', 
    ''runtime/indentation_namespace'', ''runtime/operator'', ''runtime/printf'', 
    ''runtime/printf_format'', ''runtime/references'', ''runtime/string'', 
    ''runtime/threadsafe_fn'', ''runtime/vlog'', ''whitespace/blank_line'', 
    ''whitespace/braces'', ''whitespace/comma'', ''whitespace/comments'', 
    ''whitespace/empty_conditional_body'', ''whitespace/empty_loop_body'', 
    ''whitespace/end_of_line'', ''whitespace/ending_newline'', ''whitespace/forcolon'', 
    ''whitespace/indent'', ''whitespace/line_length'', ''whitespace/newline'', 
    ''whitespace/operators'', ''whitespace/parens'', ''whitespace/semicolon'', 
    ''whitespace/tab'', ''whitespace/todo'']"

definition LEGACY_ERROR_CATEGORIES :: "string list" where
  "LEGACY_ERROR_CATEGORIES = [''readability/streams'']"

definition DEFAULT_FILTERS :: "string list" where
  "DEFAULT_FILTERS = [''-build/include_alpha'']"

record lint_state =
  verbose_level :: int
  error_count :: nat
  filters :: "string list"
  filters_backup :: "string list"
  counting :: string
  errors_by_category :: "(string \<times> nat) list"
  output_format :: string

text \<open>\<open>_CppLintState.__init__\<close>\<close>

definition init_lint_state :: lint_state where
  "init_lint_state = \<lparr>verbose_level = 1, error_count = 0, filters = DEFAULT_FILTERS,
     filters_backup = DEFAULT_FILTERS, counting = ''total'', errors_by_category = [],
     output_format = ''emacs''\<rparr>"

definition SetOutputFormat :: "string \<Rightarrow> lint_state \<Rightarrow> lint_state" where
  "SetOutputFormat fmt s = s\<lparr>output_format := fmt\<rparr>"

text \<open>Returns the previous level.\<close>

definition SetVerboseLevel :: "int \<Rightarrow> lint_state \<Rightarrow> int \<times> lint_state" where
  "SetVerboseLevel level s = (verbose_level s, s\<lparr>verbose_level := level\<rparr>)"

definition SetCountingStyle :: "string \<Rightarrow> lint_state \<Rightarrow> lint_state" where
  "SetCountingStyle style s = s\<lparr>counting := style\<rparr>"

definition filter_ok :: "string \<Rightarrow> bool" where
  "filter_ok f \<longleftrightarrow> startswith f ''+'' \<or> startswith f ''-''"

text \<open>The pieces of a comma-separated list, stripped, without the empty ones.\<close>

definition clean_filters :: "string \<Rightarrow> string list" where
  "clean_filters fs = filter (\<lambda>f. f \<noteq> []) (map (strip ascii_space) (split_char (CHR '','') fs))"

text \<open>
  \<open>AddFilters\<close> appends first and validates the whole list afterwards: when it raises, the bad
  filter is already in the state.
\<close>

definition AddFilters :: "string \<Rightarrow> lint_state \<Rightarrow> unit result \<times> lint_state" where
  "AddFilters fs s =
     (let s' = s\<lparr>filters := filters s @ clean_filters fs\<rparr>
      in (if list_all filter_ok (filters s') then Inr () else Inl ValueError, s'))"

definition SetFilters :: "string \<Rightarrow> lint_state \<Rightarrow> unit result \<times> lint_state" where
  "SetFilters fs s = AddFilters fs (s\<lparr>filters := DEFAULT_FILTERS\<rparr>)"

definition BackupFilters :: "lint_state \<Rightarrow> lint_state" where
  "BackupFilters s = s\<lparr>filters_backup := filters s\<rparr>"

definition RestoreFilters :: "lint_state \<Rightarrow> lint_state" where
  "RestoreFilters s = s\<lparr>filters := filters_backup s\<rparr>"

definition ResetErrorCounts :: "lint_state \<Rightarrow> lint_state" where
  "ResetErrorCounts s = s\<lparr>error_count := 0, errors_by_category := []\<rparr>"

text \<open>The dictionary of counts is an association list with distinct keys.\<close>

fun bump :: "string \<Rightarrow> (string \<times> nat) list \<Rightarrow> (string \<times> nat) list" where
  "bump k [] = [(k, 1)]"
| "bump k ((k', n) # d) = (if k = k' then (k', Suc n) # d else (k', n) # bump k d)"

definition IncrementErrorCount :: "string \<Rightarrow> lint_state \<Rightarrow> lint_state" where
  "IncrementErrorCount category s =
     (let s' = s\<lparr>error_count := Suc (error_count s)\<rparr>
      in if counting s \<in> {''toplevel'', ''detailed''}
         then (let category' = (if counting s \<noteq> ''detailed'' then hd (split_char (CHR ''/'') category)
                                else category)
               in s'\<lparr>errors_by_category := bump category' (errors_by_category s)\<rparr>)
         else s')"

text \<open>The lines \<open>PrintErrorCounts\<close> writes (Python's dictionary order is the order of the list).\<close>

definition PrintErrorCounts :: "lint_state \<Rightarrow> string list" where
  "PrintErrorCounts s =
     map (\<lambda>(category, count). ''Category '' @ [SQ] @ category @ [SQ] @ '' errors found: '' @
            show_nat count @ [NL]) (errors_by_category s) @
     [''Total errors found: '' @ show_nat (error_count s) @ [NL]]"

section \<open>NOLINT suppressions\<close>

type_synonym suppressions = "string option \<rightharpoonup> int set"

definition suppress :: "string option \<Rightarrow> int \<Rightarrow> suppressions \<Rightarrow> suppressions" where
  "suppress k l S = S(k \<mapsto> insert l (case S k of None \<Rightarrow> {} | Some ls \<Rightarrow> ls))"

text \<open>\<open>\<backslash>bNOLINT(NEXTLINE)?\<backslash>b(\([^)]+\))?\<close>\<close>

definition RE_NOLINT :: regex where
  "RE_NOLINT = seqs [RWordB, lit ''NOLINT'', ROpt (RGroup 1 (lit ''NEXTLINE'')), RWordB,
     ROpt (RGroup 2 (seqs [chr (CHR ''(''), RPlus (noneof '')''), chr (CHR '')'')]))]"

definition ParseNolintSuppressions ::
  "string \<Rightarrow> string \<Rightarrow> int \<Rightarrow> suppressions \<Rightarrow> report list \<times> suppressions" where
  "ParseNolintSuppressions filename raw_line linenum S =
     (case re_search RE_NOLINT raw_line of
        None \<Rightarrow> ([], S)
      | Some matched \<Rightarrow>
          (let suppressed_line = (case mgroup matched 1 of None \<Rightarrow> linenum | Some _ \<Rightarrow> linenum + 1)
           in case mgroup matched 2 of
                None \<Rightarrow> ([], suppress None suppressed_line S)
              | Some category \<Rightarrow>
                  if category = ''(*)'' then ([], suppress None suppressed_line S)
                  else if startswith category ''('' \<and> endswith category '')'' then
                    (let category' = py_slice category 1 (- 1)
                     in if category' \<in> set ERROR_CATEGORIES
                        then ([], suppress (Some category') suppressed_line S)
                        else if category' \<notin> set LEGACY_ERROR_CATEGORIES
                        then ([report filename linenum ''readability/nolint'' 5
                                (''Unknown NOLINT error category: '' @ category')], S)
                        else ([], S))
                  else ([], S)))"

definition ResetNolintSuppressions :: suppressions where
  "ResetNolintSuppressions = Map.empty"

definition lines_of :: "suppressions \<Rightarrow> string option \<Rightarrow> int set" where
  "lines_of S k = (case S k of None \<Rightarrow> {} | Some ls \<Rightarrow> ls)"

definition IsErrorSuppressedByNolint :: "string \<Rightarrow> int \<Rightarrow> suppressions \<Rightarrow> bool" where
  "IsErrorSuppressedByNolint category linenum S \<longleftrightarrow>
     linenum \<in> lines_of S (Some category) \<or> linenum \<in> lines_of S None"

section \<open>The error handler\<close>

record world =
  w_lint :: lint_state
  w_supp :: suppressions
  w_stderr :: "string list"

fun is_filtered :: "string \<Rightarrow> string list \<Rightarrow> bool \<Rightarrow> bool result" where
  "is_filtered category [] acc = Inr acc"
| "is_filtered category (one_filter # fs) acc =
     (if startswith one_filter ''-'' then
        is_filtered category fs (if startswith category (drop 1 one_filter) then True else acc)
      else if startswith one_filter ''+'' then
        is_filtered category fs (if startswith category (drop 1 one_filter) then False else acc)
      else Inl AssertionError)"

definition ShouldPrintError :: "string \<Rightarrow> int \<Rightarrow> int \<Rightarrow> world \<Rightarrow> bool result" where
  "ShouldPrintError category confidence linenum w =
     (if IsErrorSuppressedByNolint category linenum (w_supp w) then Inr False
      else if confidence < verbose_level (w_lint w) then Inr False
      else res_map Not (is_filtered category (filters (w_lint w)) False))"

definition format_error :: "string \<Rightarrow> report \<Rightarrow> string" where
  "format_error fmt r =
     (if fmt = ''vs7'' then r_file r @ ''('' @ show_int (r_line r) @ ''):  ''
      else if fmt = ''eclipse'' then r_file r @ '':'' @ show_int (r_line r) @ '': warning: ''
      else r_file r @ '':'' @ show_int (r_line r) @ '':  '') @
     r_msg r @ ''  ['' @ r_cat r @ ''] ['' @ show_int (r_conf r) @ '']'' @ [NL]"

definition Error :: "report \<Rightarrow> world \<Rightarrow> world result" where
  "Error r w = res_bind (ShouldPrintError (r_cat r) (r_conf r) (r_line r) w)
     (\<lambda>p. Inr (if p then
        w\<lparr>w_lint := IncrementErrorCount (r_cat r) (w_lint w),
          w_stderr := w_stderr w @ [format_error (output_format (w_lint w)) r]\<rparr>
      else w))"

text \<open>The calls of a check, in order, on any handler; \<open>emit_all\<close> is the program's.\<close>

fun emit_with :: "(report \<Rightarrow> 'w \<Rightarrow> 'w result) \<Rightarrow> report list \<Rightarrow> 'w \<Rightarrow> 'w result" where
  "emit_with err [] w = Inr w"
| "emit_with err (r # rs) w = res_bind (err r w) (emit_with err rs)"

abbreviation emit_all :: "report list \<Rightarrow> world \<Rightarrow> world result" where
  "emit_all \<equiv> emit_with Error"

section \<open>The handler's contract\<close>

text \<open>
  What a check relies on when it calls \<open>error\<close>: in a state the handler accepts, a call returns, and
  whether and how later reports are shown does not depend on the reports before them.
\<close>

locale error_handler =
  fixes err :: "report \<Rightarrow> 'w \<Rightarrow> 'w result"
    and ok :: "'w \<Rightarrow> bool"
    and shown :: "'w \<Rightarrow> report \<Rightarrow> bool"
    and line :: "'w \<Rightarrow> report \<Rightarrow> string"
    and log :: "'w \<Rightarrow> string list"
    and count :: "'w \<Rightarrow> nat"
  assumes err_returns: "ok w \<Longrightarrow> \<exists>w'. err r w = Inr w'"
    and err_ok: "ok w \<Longrightarrow> err r w = Inr w' \<Longrightarrow> ok w'"
    and err_shown: "ok w \<Longrightarrow> err r w = Inr w' \<Longrightarrow> shown w' = shown w"
    and err_line: "ok w \<Longrightarrow> err r w = Inr w' \<Longrightarrow> line w' = line w"
    and err_log: "ok w \<Longrightarrow> err r w = Inr w' \<Longrightarrow> log w' = log w @ (if shown w r then [line w r] else [])"
    and err_count: "ok w \<Longrightarrow> err r w = Inr w' \<Longrightarrow> count w' = count w + (if shown w r then 1 else 0)"
begin

lemma emit_spec:
  "ok w \<Longrightarrow> \<exists>w'. emit_with err rs w = Inr w' \<and> ok w' \<and> shown w' = shown w \<and> line w' = line w \<and>
     log w' = log w @ map (line w) (filter (shown w) rs) \<and>
     count w' = count w + length (filter (shown w) rs)"
proof (induction rs arbitrary: w)
  case Nil
  then show ?case by simp
next
  case (Cons r rs)
  obtain w1 where w1: "err r w = Inr w1" using err_returns[OF Cons.prems] by blast
  from Cons.IH[OF err_ok[OF Cons.prems w1]] obtain w2 where
    "emit_with err rs w1 = Inr w2" "ok w2" "shown w2 = shown w1" "line w2 = line w1"
    "log w2 = log w1 @ map (line w1) (filter (shown w1) rs)"
    "count w2 = count w1 + length (filter (shown w1) rs)" by blast
  with w1 Cons.prems err_shown[of w r w1] err_line[of w r w1] err_log[of w r w1] err_count[of w r w1]
  show ?case by simp
qed

lemma emit_append:
  "emit_with err (rs @ qs) w = res_bind (emit_with err rs w) (emit_with err qs)"
proof (induction rs arbitrary: w)
  case Nil
  show ?case by simp
next
  case (Cons r rs)
  then show ?case by (cases "err r w") auto
qed

end

section \<open>Filters\<close>

text \<open>The filter that decides: the last one whose category is a prefix of the report's.\<close>

definition deciding_filter :: "string \<Rightarrow> string list \<Rightarrow> string option" where
  "deciding_filter category fs = find (\<lambda>f. startswith category (drop 1 f)) (rev fs)"

lemma deciding_filter_in: "deciding_filter c fs = Some f \<Longrightarrow> f \<in> set fs"
  unfolding deciding_filter_def by (metis find_Some_iff length_rev nth_mem set_rev)

lemma find_append: "find P (xs @ ys) = (case find P xs of None \<Rightarrow> find P ys | Some x \<Rightarrow> Some x)"
  by (induction xs) auto

lemma filter_ok_cases:
  "filter_ok f \<Longrightarrow> (startswith f ''+'' \<and> \<not> startswith f ''-'') \<or> (startswith f ''-'' \<and> \<not> startswith f ''+'')"
  by (cases f) (auto simp: filter_ok_def)

lemma is_filtered_spec:
  "list_all filter_ok fs \<Longrightarrow> is_filtered category fs acc =
     Inr (case deciding_filter category fs of None \<Rightarrow> acc | Some f \<Rightarrow> startswith f ''-'')"
proof (induction fs arbitrary: acc)
  case Nil
  show ?case by (simp add: deciding_filter_def)
next
  case (Cons f fs)
  then have "filter_ok f" by simp
  from filter_ok_cases[OF this] Cons show ?case
    by (auto simp: deciding_filter_def find_append split: option.splits)
qed

lemma ShouldPrintError_returns:
  "list_all filter_ok (filters (w_lint w)) \<Longrightarrow> returns (ShouldPrintError c k l w)"
  by (simp add: ShouldPrintError_def is_filtered_spec)

definition filters_ok :: "world \<Rightarrow> bool" where
  "filters_ok w \<longleftrightarrow> list_all filter_ok (filters (w_lint w))"

definition shown :: "world \<Rightarrow> report \<Rightarrow> bool" where
  "shown w r \<longleftrightarrow> ShouldPrintError (r_cat r) (r_conf r) (r_line r) w = Inr True"

definition log_line :: "world \<Rightarrow> report \<Rightarrow> string" where
  "log_line w r = format_error (output_format (w_lint w)) r"

lemma IncrementErrorCount_frame [simp]:
  "filters (IncrementErrorCount c s) = filters s"
  "verbose_level (IncrementErrorCount c s) = verbose_level s"
  "output_format (IncrementErrorCount c s) = output_format s"
  "counting (IncrementErrorCount c s) = counting s"
  "filters_backup (IncrementErrorCount c s) = filters_backup s"
  "error_count (IncrementErrorCount c s) = Suc (error_count s)"
  by (simp_all add: IncrementErrorCount_def Let_def)

lemma Error_eq:
  assumes "filters_ok w"
  shows "Error r w = Inr (if shown w r then
        w\<lparr>w_lint := IncrementErrorCount (r_cat r) (w_lint w), w_stderr := w_stderr w @ [log_line w r]\<rparr>
      else w)"
  using assms unfolding Error_def shown_def filters_ok_def log_line_def
  by (auto simp: ShouldPrintError_def is_filtered_spec)

lemma shown_cong:
  "filters (w_lint w') = filters (w_lint w) \<Longrightarrow> verbose_level (w_lint w') = verbose_level (w_lint w) \<Longrightarrow>
   w_supp w' = w_supp w \<Longrightarrow> shown w' = shown w"
  by (rule ext) (simp add: shown_def ShouldPrintError_def)

lemma Error_cases:
  assumes "filters_ok w" "Error r w = Inr w'"
  obtains "\<not> shown w r" "w' = w"
  | "shown w r" "w' = w\<lparr>w_lint := IncrementErrorCount (r_cat r) (w_lint w),
        w_stderr := w_stderr w @ [log_line w r]\<rparr>"
  using assms by (cases "shown w r") (auto simp: Error_eq)

lemma Error_shown:
  assumes "filters_ok w" "Error r w = Inr w'"
  shows "filters_ok w' \<and> shown w' = shown w \<and> log_line w' = log_line w"
  using assms
proof (cases rule: Error_cases)
  case 1
  with assms show ?thesis by simp
next
  case 2
  then have "shown w' = shown w" by (intro shown_cong) simp_all
  with 2(2) assms(1) show ?thesis by (simp add: filters_ok_def log_line_def fun_eq_iff)
qed

interpretation lint: error_handler Error filters_ok shown log_line w_stderr "\<lambda>w. error_count (w_lint w)"
proof unfold_locales
  fix w r w'
  assume ok: "filters_ok w"
  show "\<exists>w'. Error r w = Inr w'" using ok by (simp add: Error_eq)
  assume e: "Error r w = Inr w'"
  show "filters_ok w'" "shown w' = shown w" "log_line w' = log_line w"
    using Error_shown[OF ok e] by simp_all
  show "w_stderr w' = w_stderr w @ (if shown w r then [log_line w r] else [])"
    using ok e by (cases rule: Error_cases) simp_all
  show "error_count (w_lint w') = error_count (w_lint w) + (if shown w r then 1 else 0)"
    using ok e by (cases rule: Error_cases) simp_all
qed

section \<open>Counts per category\<close>

definition total_of :: "(string \<times> nat) list \<Rightarrow> nat" where
  "total_of d = sum_list (map snd d)"

lemma total_of_bump [simp]: "total_of (bump k d) = Suc (total_of d)"
  by (induction k d rule: bump.induct) (auto simp: total_of_def)

lemma bump_keys: "set (map fst (bump k d)) = insert k (set (map fst d))"
  by (induction k d rule: bump.induct) auto

lemma distinct_bump: "distinct (map fst d) \<Longrightarrow> distinct (map fst (bump k d))"
proof (induction k d rule: bump.induct)
  case (2 k k' n d)
  then show ?case using bump_keys[of k d] by (auto simp: image_iff)
qed simp

lemma map_of_bump: "map_of (bump k d) k' =
    (if k' = k then Some (case map_of d k of None \<Rightarrow> 1 | Some n \<Rightarrow> Suc n) else map_of d k')"
  by (induction k d rule: bump.induct) auto

text \<open>The tallies are consistent: per category they add up to the total, when they are kept.\<close>

definition counts_ok :: "lint_state \<Rightarrow> bool" where
  "counts_ok s \<longleftrightarrow> distinct (map fst (errors_by_category s)) \<and>
     (if counting s \<in> {''toplevel'', ''detailed''} then total_of (errors_by_category s) = error_count s
      else errors_by_category s = [])"

lemma counts_ok_reset: "counts_ok (ResetErrorCounts s)"
  by (simp add: counts_ok_def ResetErrorCounts_def total_of_def)

lemma counts_ok_increment: "counts_ok s \<Longrightarrow> counts_ok (IncrementErrorCount c s)"
  by (auto simp: counts_ok_def IncrementErrorCount_def Let_def distinct_bump)

lemma counts_ok_Error:
  "filters_ok w \<Longrightarrow> counts_ok (w_lint w) \<Longrightarrow> Error r w = Inr w' \<Longrightarrow> counts_ok (w_lint w')"
  by (erule (1) Error_cases) (simp_all add: counts_ok_increment)

lemma counts_ok_emit:
  "filters_ok w \<Longrightarrow> counts_ok (w_lint w) \<Longrightarrow> emit_all rs w = Inr w' \<Longrightarrow> counts_ok (w_lint w')"
proof (induction rs arbitrary: w)
  case Nil
  then show ?case by simp
next
  case (Cons r rs)
  then obtain w1 where "Error r w = Inr w1" "emit_all rs w1 = Inr w'" by auto
  with Cons.prems(1,2) Error_shown counts_ok_Error Cons.IH show ?case by blast
qed

section \<open>Suppressions\<close>

lemma lines_of_suppress: "lines_of (suppress k l S) k' = (if k' = k then insert l (lines_of S k) else lines_of S k')"
  by (auto simp: lines_of_def suppress_def)

lemma IsErrorSuppressed_suppress:
  "IsErrorSuppressedByNolint c l' (suppress k l S) \<longleftrightarrow>
     IsErrorSuppressedByNolint c l' S \<or> (l' = l \<and> (k = None \<or> k = Some c))"
  by (auto simp: IsErrorSuppressedByNolint_def lines_of_suppress)

lemma py_slice_inner: "py_slice (a # xs @ [b]) 1 (- 1) = xs"
  by (simp add: py_slice_def py_clip_def nat_add_distrib)

lemma parenthesised:
  "startswith t ''('' \<and> endswith t '')'' \<longleftrightarrow> t = CHR ''('' # py_slice t 1 (- 1) @ '')''"
proof
  assume *: "startswith t ''('' \<and> endswith t '')''"
  then obtain u where u: "t = u @ '')''" by (auto simp: endswith_iff)
  with * obtain xs where "t = CHR ''('' # xs @ '')''" by (cases u) auto
  then show "t = CHR ''('' # py_slice t 1 (- 1) @ '')''" by (simp add: py_slice_inner)
next
  assume *: "t = CHR ''('' # py_slice t 1 (- 1) @ '')''"
  have "startswith (CHR ''('' # xs @ '')'') ''('' \<and> endswith (CHR ''('' # xs @ '')'') '')''" for xs
    by (auto simp: endswith_iff intro: exI[of _ "CHR ''('' # xs"])
  from this[of "py_slice t 1 (- 1)"] show "startswith t ''('' \<and> endswith t '')''" by (simp flip: *)
qed

lemma category_nonempty: "c \<in> set ERROR_CATEGORIES \<Longrightarrow> c \<noteq> []"
  by (auto simp: ERROR_CATEGORIES_def)

section \<open>Properties\<close>

text \<open>C23. The handler shows a report exactly if no NOLINT comment suppresses its category on its
  line, its confidence reaches the verbosity, and the last filter whose category is a prefix of the
  report's category (if there is one) starts with \<open>+\<close>.\<close>

theorem ShouldPrintError_spec:
  assumes "filters_ok w"
  shows "ShouldPrintError c k l w = Inr (\<not> IsErrorSuppressedByNolint c l (w_supp w) \<and>
    verbose_level (w_lint w) \<le> k \<and>
    (case deciding_filter c (filters (w_lint w)) of None \<Rightarrow> True | Some f \<Rightarrow> startswith f ''+''))"
proof -
  from assms have ok: "list_all filter_ok (filters (w_lint w))" by (simp add: filters_ok_def)
  have "startswith f ''+'' \<longleftrightarrow> \<not> startswith f ''-''"
    if "deciding_filter c (filters (w_lint w)) = Some f" for f
    using deciding_filter_in[OF that] ok filter_ok_cases[of f] by (auto simp: list_all_iff)
  then show ?thesis
    by (auto simp: ShouldPrintError_def is_filtered_spec[OF ok] split: option.splits)
qed

theorem ShouldPrintError_spec_witness:
  defines "w \<equiv> \<lparr>w_lint = init_lint_state\<lparr>filters := [''-'', ''+runtime/printf'', ''-runtime/printf_format'']\<rparr>,
    w_supp = Map.empty, w_stderr = []\<rparr>"
  shows "ShouldPrintError ''runtime/printf'' 4 7 w = Inr True \<and>
    ShouldPrintError ''runtime/printf_format'' 3 7 w = Inr False"
proof -
  have ok: "filters_ok w"
    by (simp add: w_def filters_ok_def filter_ok_def)
  show ?thesis
    unfolding ShouldPrintError_spec[OF ok]
    by (simp add: w_def deciding_filter_def IsErrorSuppressedByNolint_def lines_of_def init_lint_state_def)
qed

text \<open>C7. Running the reports of a check through \<open>Error\<close> returns, writes one line for each report
  that is shown, in the order of the calls and with nothing in between, and raises the total by their
  number.\<close>

theorem emit_all_spec:
  assumes "filters_ok w"
  shows "\<exists>w'. emit_all rs w = Inr w' \<and>
    w_stderr w' = w_stderr w @ map (log_line w) (filter (shown w) rs) \<and>
    error_count (w_lint w') = error_count (w_lint w) + length (filter (shown w) rs)"
  using lint.emit_spec[OF assms, of rs] by blast

theorem emit_all_spec_witness:
  defines "w \<equiv> \<lparr>w_lint = init_lint_state, w_supp = Map.empty, w_stderr = []\<rparr>"
  defines "rs \<equiv> [report ''a.cc'' 3 ''whitespace/tab'' 1 ''Tab found'',
    report ''a.cc'' 4 ''build/include_alpha'' 4 ''Order'', report ''a.cc'' 5 ''whitespace/newline'' 0 ''More'']"
  shows "\<exists>w'. emit_all rs w = Inr w' \<and> error_count (w_lint w') = 1 \<and>
    w_stderr w' = [''a.cc:3:  Tab found  [whitespace/tab] [1]'' @ [NL]]"
proof -
  have ok: "filters_ok w"
    by (simp add: w_def filters_ok_def filter_ok_def init_lint_state_def DEFAULT_FILTERS_def)
  have f: "filter (shown w) rs = [report ''a.cc'' 3 ''whitespace/tab'' 1 ''Tab found'']"
    by (simp add: rs_def w_def shown_def ShouldPrintError_def IsErrorSuppressedByNolint_def lines_of_def
        init_lint_state_def DEFAULT_FILTERS_def report_def)
  from emit_all_spec[OF ok, of rs] obtain w' where
    w': "emit_all rs w = Inr w'" "w_stderr w' = w_stderr w @ map (log_line w) (filter (shown w) rs)"
    "error_count (w_lint w') = error_count (w_lint w) + length (filter (shown w) rs)" by blast
  show ?thesis
    using w' unfolding f
    by (simp add: w_def log_line_def format_error_def init_lint_state_def report_def show_int_def show_nat.simps)
qed

lemma detailed_tally:
  assumes "filters_ok w" "counting (w_lint w) = ''detailed''" "emit_all rs w = Inr w'"
  shows "map_of (errors_by_category (w_lint w')) c =
    (case map_of (errors_by_category (w_lint w)) c of
       None \<Rightarrow> if length (filter (\<lambda>r. shown w r \<and> r_cat r = c) rs) = 0 then None
               else Some (length (filter (\<lambda>r. shown w r \<and> r_cat r = c) rs))
     | Some n \<Rightarrow> Some (n + length (filter (\<lambda>r. shown w r \<and> r_cat r = c) rs)))"
  using assms
proof (induction rs arbitrary: w)
  case Nil
  then show ?case by (simp split: option.splits)
next
  case (Cons r rs)
  then obtain w1 where w1: "Error r w = Inr w1" "emit_all rs w1 = Inr w'" by auto
  from Error_shown[OF Cons.prems(1) w1(1)] have s: "filters_ok w1" "shown w1 = shown w" by auto
  from Cons.prems(1) w1(1) have "counting (w_lint w1) = ''detailed'' \<and>
    errors_by_category (w_lint w1) =
      (if shown w r then bump (r_cat r) (errors_by_category (w_lint w)) else errors_by_category (w_lint w))"
    by (cases rule: Error_cases) (use Cons.prems(2) in \<open>simp_all add: IncrementErrorCount_def Let_def\<close>)
  with Cons.IH[OF s(1) _ w1(2)] s(2) show ?case
    by (auto simp: map_of_bump split: option.splits)
qed

text \<open>With \<open>--counting=detailed\<close>, after a reset, the tally of every category is the number of
  shown reports of that category (and a category without any has no entry).\<close>

theorem error_counts_by_category:
  assumes "filters_ok w" "counting (w_lint w) = ''detailed''"
    and "emit_all rs (w\<lparr>w_lint := ResetErrorCounts (w_lint w)\<rparr>) = Inr w'"
  shows "map_of (errors_by_category (w_lint w')) c =
    (let n = length (filter (\<lambda>r. shown w r \<and> r_cat r = c) rs) in if n = 0 then None else Some n)"
proof -
  let ?w = "w\<lparr>w_lint := ResetErrorCounts (w_lint w)\<rparr>"
  have "filters_ok ?w" "counting (w_lint ?w) = ''detailed''"
    using assms(1,2) by (simp_all add: filters_ok_def ResetErrorCounts_def)
  moreover have "shown ?w = shown w" by (rule shown_cong) (simp_all add: ResetErrorCounts_def)
  moreover have "errors_by_category (w_lint ?w) = []" by (simp add: ResetErrorCounts_def)
  ultimately show ?thesis using detailed_tally[OF _ _ assms(3), of c] by (simp add: Let_def)
qed

theorem error_counts_by_category_witness:
  defines "w \<equiv> \<lparr>w_lint = init_lint_state\<lparr>counting := ''detailed''\<rparr>, w_supp = Map.empty, w_stderr = []\<rparr>"
  defines "rs \<equiv> [report ''a.cc'' 3 ''whitespace/tab'' 1 ''m'', report ''a.cc'' 4 ''whitespace/tab'' 1 ''m'']"
  shows "\<exists>w'. emit_all rs (w\<lparr>w_lint := ResetErrorCounts (w_lint w)\<rparr>) = Inr w' \<and>
    map_of (errors_by_category (w_lint w')) ''whitespace/tab'' = Some 2"
proof -
  let ?w = "w\<lparr>w_lint := ResetErrorCounts (w_lint w)\<rparr>"
  have ok: "filters_ok w" "filters_ok ?w"
    by (simp_all add: w_def filters_ok_def filter_ok_def init_lint_state_def DEFAULT_FILTERS_def ResetErrorCounts_def)
  have d: "counting (w_lint w) = ''detailed''" by (simp add: w_def)
  from lint.emit_spec[OF ok(2), of rs] obtain w' where w': "emit_all rs ?w = Inr w'" by blast
  have "length (filter (\<lambda>r. shown w r \<and> r_cat r = ''whitespace/tab'') rs) = 2"
    by (simp add: rs_def w_def shown_def ShouldPrintError_def IsErrorSuppressedByNolint_def lines_of_def
        init_lint_state_def DEFAULT_FILTERS_def report_def)
  with error_counts_by_category[OF ok(1) d w', of "''whitespace/tab''"]
  have "map_of (errors_by_category (w_lint w')) ''whitespace/tab'' = Some 2" by (simp only: Let_def) simp
  with w' show ?thesis by blast
qed

text \<open>Whatever filters configuration files add while a file is linted, \<open>RestoreFilters\<close> brings back
  the filters of the time of \<open>BackupFilters\<close>, even when an addition raised.\<close>

theorem RestoreFilters_after_AddFilters:
  "filters (RestoreFilters (fold (\<lambda>f s. snd (AddFilters f s)) fs (BackupFilters s))) = filters s"
proof -
  have "filters_backup (fold (\<lambda>f s. snd (AddFilters f s)) fs t) = filters_backup t" for t
    by (induction fs arbitrary: t) (simp_all add: AddFilters_def Let_def)
  then show ?thesis by (simp add: RestoreFilters_def BackupFilters_def)
qed

text \<open>C12. What a NOLINT comment does: it suppresses, on its own line or (NEXTLINE) on the next one,
  every category when it names none or \<open>*\<close>, and just the named category when it is a known one; it
  changes nothing else.\<close>

theorem ParseNolintSuppressions_spec:
  "IsErrorSuppressedByNolint c l' (snd (ParseNolintSuppressions filename raw_line l S)) \<longleftrightarrow>
     IsErrorSuppressedByNolint c l' S \<or>
     (\<exists>m. re_search RE_NOLINT raw_line = Some m \<and>
        l' = (if mgroup m 1 = None then l else l + 1) \<and>
        (mgroup m 2 = None \<or> mgroup m 2 = Some ''(*)'' \<or>
         (c \<in> set ERROR_CATEGORIES \<and> mgroup m 2 = Some (CHR ''('' # c @ '')''))))"
proof (cases "re_search RE_NOLINT raw_line")
  case None
  then show ?thesis by (simp add: ParseNolintSuppressions_def)
next
  case (Some m)
  show ?thesis
  proof (cases "mgroup m 2")
    case None
    with Some show ?thesis
      by (simp add: ParseNolintSuppressions_def IsErrorSuppressed_suppress split: option.splits)
  next
    case g2: (Some t)
    consider (star) "t = ''(*)''" | (cat) "t \<noteq> ''(*)''" "startswith t ''('' \<and> endswith t '')''"
      | (other) "t \<noteq> ''(*)''" "\<not> (startswith t ''('' \<and> endswith t '')'')" by blast
    then show ?thesis
    proof cases
      case star
      then show ?thesis using Some g2
        by (auto simp: ParseNolintSuppressions_def IsErrorSuppressed_suppress Let_def split: option.splits)
    next
      case cat
      then obtain c' where t: "t = CHR ''('' # c' @ '')''" using parenthesised by blast
      have k: "py_slice t 1 (- 1) = c'" using py_slice_inner t by simp
      have "t = CHR ''('' # c @ '')'' \<longleftrightarrow> c' = c" using t by simp
      with Some g2 cat k show ?thesis
        by (auto simp: ParseNolintSuppressions_def IsErrorSuppressed_suppress Let_def split: option.splits)
    next
      case other
      have "t \<noteq> CHR ''('' # c @ '')''"
        using other(2) parenthesised py_slice_inner by (metis append_Cons)
      with Some g2 other show ?thesis
        by (auto simp: ParseNolintSuppressions_def Let_def)
    qed
  qed
qed

end
