(* ===== verification/Cleansing.thy ===== *)
theory Cleansing
  imports LintLog
begin

text \<open>
  Removal of comments and string contents (\<open>cpplint.py\<close>: \<open>IsCppString\<close>, \<open>CleanseRawStrings\<close>,
  \<open>RemoveMultiLineComments\<close> and its helpers, \<open>CleanseComments\<close>, \<open>CleansedLines\<close>).

  A list of lines that the source updates in place is taken and returned.  The loops over the rest
  of a line are recursive functions (\<open>raw_begin\<close>, \<open>collapse\<close>); they terminate because every round
  leaves a shorter rest, which for raw strings rests on what a match of the pattern looks like
  (\<open>RE_RAW_match\<close>).
\<close>

section \<open>Patterns\<close>

text \<open>\<open>\<backslash>\<backslash>([abfnrtv?"\<backslash>\<backslash>\<backslash>']|\<backslash>d+|x[0-9a-fA-F]+)\<close>\<close>

definition RE_CLEANSE_ESCAPES :: regex where
  "RE_CLEANSE_ESCAPES = RSeq (chr BS) (RGroup 1 (alts [oneof (''abfnrtv?'' @ [DQ, BS, SQ]), RPlus digit,
     RSeq (lit ''x'') (RPlus (RChar hex_char))]))"

text \<open>\<open>/\<backslash>*(?:[^*]|\<backslash>*(?!/))*\<backslash>*/\<close>\<close>

definition RE_C_COMMENT :: regex where
  "RE_C_COMMENT = seqs [lit ''/*'', RStar (RAlt (noneof ''*'') (RSeq (lit ''*'') (RNotAhead (lit ''/'')))),
     lit ''*/'']"

definition RE_CLEANSE_C_COMMENTS :: regex where
  "RE_CLEANSE_C_COMMENTS = RGroup 1 (alts [
     seqs [RStar ws, RE_C_COMMENT, RStar ws, REol],
     seqs [RE_C_COMMENT, RPlus ws],
     seqs [RPlus ws, RE_C_COMMENT, RAhead (RChar (\<lambda>c. \<not> word_char c))],
     RE_C_COMMENT])"

text \<open>\<open>^(.*)\<backslash>b(?:R|u8R|uR|UR|LR)"([^\<backslash>s\<backslash>\<backslash>()]*)\((.*)$\<close>\<close>

definition raw_prefixes :: "string list" where
  "raw_prefixes = [''R'', ''u8R'', ''uR'', ''UR'', ''LR'']"

definition delim_char :: "char \<Rightarrow> bool" where
  "delim_char c \<longleftrightarrow> \<not> ascii_space c \<and> none_of [BS, CHR ''('', CHR '')''] c"

definition RE_RAW :: regex where
  "RE_RAW = seqs [RBol, RGroup 1 (RStar anyc), RWordB, alts (map lit raw_prefixes), chr DQ,
     RGroup 2 (RStar (RChar delim_char)), chr (CHR ''(''), RGroup 3 (RStar anyc), REol]"

text \<open>\<open>^(\<backslash>s*)\<backslash>S\<close>\<close>

definition RE_LEADING_SPACE :: regex where
  "RE_LEADING_SPACE = seqs [RBol, RGroup 1 (RStar ws), nonws]"

text \<open>\<open>^\<backslash>s*#\<backslash>s*include\<backslash>s*([<"])([^>"]*)[>"].*$\<close>\<close>

definition RE_INCLUDE :: regex where
  "RE_INCLUDE = seqs [RBol, RStar ws, chr (CHR ''#''), RStar ws, lit ''include'', RStar ws,
     RGroup 1 (oneof [CHR ''<'', DQ]), RGroup 2 (RStar (noneof [CHR ''>'', DQ])),
     oneof [CHR ''>'', DQ], RStar anyc, REol]"

text \<open>\<open>^([^\<backslash>'"]*)([\<backslash>'"])(.*)$\<close>\<close>

definition RE_FIRST_QUOTE :: regex where
  "RE_FIRST_QUOTE = seqs [RBol, RGroup 1 (RStar (noneof [SQ, DQ])), RGroup 2 (oneof [SQ, DQ]),
     RGroup 3 (RStar anyc), REol]"

text \<open>\<open>\<backslash>b(?:0[bBxX]?|[1-9])[0-9a-fA-F]*$\<close>\<close>

definition RE_DIGITS_END :: regex where
  "RE_DIGITS_END = seqs [RWordB, RAlt (RSeq (lit ''0'') (ROpt (oneof ''bBxX''))) (oneof ''123456789''),
     RStar (RChar hex_char), REol]"

text \<open>\<open>^((?:\<backslash>'?[0-9a-zA-Z_])*)(.*)$\<close>\<close>

definition RE_DIGIT_SEPARATORS :: regex where
  "RE_DIGIT_SEPARATORS = seqs [RBol, RGroup 1 (RStar (RSeq (ROpt (chr SQ)) wordc)),
     RGroup 2 (RStar anyc), REol]"

section \<open>Strings\<close>

definition IsCppString :: "string \<Rightarrow> bool" where
  "IsCppString line =
     (let line = py_replace [BS, BS] ''XX'' line
      in (int (py_count [DQ] line) - int (py_count [BS, DQ] line) - int (py_count [SQ, DQ, SQ] line)) mod 2 = 1)"

lemma raw_prefix_R: "p \<in> set raw_prefixes \<Longrightarrow> \<exists>q\<in>set [[], ''u8'', ''u'', ''U'', ''L'']. p = q @ ''R''"
  by (auto simp: raw_prefixes_def)

text \<open>Every match of the raw-string pattern cuts its line into the same pieces.\<close>

lemma RE_RAW_match:
  assumes "re_match RE_RAW s = Some m"
  obtains h p d t z where "s = h @ p @ DQ # d @ CHR ''('' # t @ z" "p \<in> set raw_prefixes"
    "mgroup m 1 = Some h" "mgroup m 2 = Some d" "mgroup m 3 = Some t"
    "z = [] \<or> z = [NL]" "list_all delim_char d" "NL \<notin> set t" "at_word_boundary (rev h) (p @ DQ # d @ CHR ''('' # t @ z)"
proof -
  from assms obtain u v cs where path: "(([], s, []), (u, v, cs)) \<in> paths RE_RAW"
    and m: "m = \<lparr>mo_string = s, mo_start = 0, mo_end = length u, mo_caps = cs\<rparr>"
    by (rule re_match_path)
  from path obtain h p d t where h: "list_all (none_of [NL]) h" "s = h @ p @ DQ # d @ CHR ''('' # t @ v"
    and p: "p \<in> set raw_prefixes" and d: "list_all delim_char d" and t: "list_all (none_of [NL]) t"
    and v: "at_eol v" and b: "at_word_boundary (rev h) (p @ DQ # d @ CHR ''('' # t @ v)"
    and cs: "cs = [(3, length (h @ p @ DQ # d @ ''(''), length (h @ p @ DQ # d @ CHR ''('' # t)),
        (2, length (h @ p @ [DQ]), length (h @ p @ DQ # d)), (1, 0, length h)]"
    by (auto simp: RE_RAW_def rx_simps list_ex_iff one_of_def)
  have "mgroup m 1 = Some h" using h(2) by (simp add: m cs mgroup_def)
  moreover have "mgroup m 2 = Some d" using h(2) by (simp add: m cs mgroup_def)
  moreover have "mgroup m 3 = Some t" using h(2) by (simp add: m cs mgroup_def)
  moreover have "v = [] \<or> v = [NL]" using v by (cases v) auto
  moreover have "NL \<notin> set t" using t by (auto simp: list_all_iff none_of_def)
  ultimately show ?thesis using that h(2) p d b by blast
qed

section \<open>Raw strings\<close>

abbreviation empty_literal :: string where
  "empty_literal \<equiv> [DQ, DQ]"

text \<open>\<open>while delimiter is None: ...\<close>: the line that is kept, and the delimiter of a raw string that
  the line leaves open.\<close>

function raw_begin :: "string \<Rightarrow> string \<times> string option" where
  "raw_begin line =
     (case re_match RE_RAW line of
        None \<Rightarrow> (line, None)
      | Some matched \<Rightarrow>
          (let delimiter = CHR '')'' # grp matched 2 @ [DQ]
           in case find_nat delimiter (grp matched 3) of
                Some e \<Rightarrow> raw_begin (grp matched 1 @ empty_literal @ drop (e + length delimiter) (grp matched 3))
              | None \<Rightarrow> (grp matched 1 @ empty_literal, Some delimiter)))"
  by pat_completeness auto
termination
proof (relation "measure length", goal_cases)
  case (2 line m delimiter e)
  from 2(1) obtain h p d t z where "line = h @ p @ DQ # d @ CHR ''('' # t @ z"
    and p: "p \<in> set raw_prefixes" and "mgroup m 1 = Some h" "mgroup m 2 = Some d" "mgroup m 3 = Some t"
    by (rule RE_RAW_match) auto
  moreover have "p \<noteq> []" using p by (auto simp: raw_prefixes_def)
  ultimately show ?case by (simp add: grp_def 2(2), cases p) auto
qed simp

declare raw_begin.simps [simp del]

fun raw_line :: "string option \<Rightarrow> string \<Rightarrow> (string \<times> string option) result" where
  "raw_line None line = Inr (raw_begin line)"
| "raw_line (Some delimiter) line =
     (case find_nat delimiter line of
        Some e \<Rightarrow>
          (case re_match RE_LEADING_SPACE line of
             None \<Rightarrow> Inl AttributeError
           | Some leading_space \<Rightarrow>
               Inr (raw_begin (grp leading_space 1 @ empty_literal @ drop (e + length delimiter) line)))
      | None \<Rightarrow> Inr (empty_literal, Some delimiter))"

fun raw_lines_from :: "string option \<Rightarrow> string list \<Rightarrow> string list result" where
  "raw_lines_from delimiter [] = Inr []"
| "raw_lines_from delimiter (line # lines) =
     res_bind (raw_line delimiter line)
       (\<lambda>(line', delimiter'). res_map (\<lambda>rest. line' # rest) (raw_lines_from delimiter' lines))"

definition CleanseRawStrings :: "string list \<Rightarrow> string list result" where
  "CleanseRawStrings raw_lines = raw_lines_from None raw_lines"

text \<open>An open raw string has a delimiter that starts with a closing parenthesis, so the line that
  holds it has a character that is not white space, and \<open>leading_space\<close> is a match.\<close>

definition raw_delim :: "string option \<Rightarrow> bool" where
  "raw_delim d \<longleftrightarrow> (case d of None \<Rightarrow> True | Some t \<Rightarrow> t \<noteq> [] \<and> hd t = CHR '')'')"

lemma raw_begin_delim: "raw_delim (snd (raw_begin line))"
proof (induction line rule: raw_begin.induct)
  case (1 line)
  show ?case
  proof (cases "re_match RE_RAW line")
    case None
    then show ?thesis by (subst raw_begin.simps) (simp add: raw_delim_def)
  next
    case (Some m)
    show ?thesis
    proof (cases "find_nat (CHR '')'' # grp m 2 @ [DQ]) (grp m 3)")
      case None
      with Some show ?thesis by (subst raw_begin.simps) (simp add: raw_delim_def)
    next
      case e: (Some e)
      from "1.IH"[OF Some refl e] show ?thesis
        by (subst raw_begin.simps) (simp add: Some e)
    qed
  qed
qed

lemma leading_space_match:
  assumes "c \<in> set line" "\<not> ascii_space c"
  shows "re_match RE_LEADING_SPACE line \<noteq> None"
proof -
  let ?h = "takeWhile ascii_space line" and ?t = "dropWhile ascii_space line"
  have t: "?t \<noteq> []" using assms by (auto simp: dropWhile_eq_Nil_conv)
  have "list_all ascii_space ?h" by (auto simp: list_all_iff dest: set_takeWhileD)
  moreover have "line = ?h @ hd ?t # tl ?t" using t by simp
  moreover have "\<not> ascii_space (hd ?t)" using t by (rule hd_dropWhile)
  ultimately have "(([], line, []), (hd ?t # rev ?h @ [], tl ?t, [(1, 0, length ?h)])) \<in> paths RE_LEADING_SPACE"
    unfolding RE_LEADING_SPACE_def seqs.simps rx_simps by (simp add: rx_simps)
  then show ?thesis using matches_iff[of RE_LEADING_SPACE line] by (auto simp: matches_def)
qed

lemma raw_line_returns:
  assumes "raw_delim d"
  shows "\<exists>line' d'. raw_line d line = Inr (line', d') \<and> raw_delim d'"
proof (cases d)
  case None
  then show ?thesis using raw_begin_delim[of line] by (cases "raw_begin line") simp
next
  case (Some t)
  show ?thesis
  proof (cases "find_nat t line")
    case None
    with Some assms show ?thesis by simp
  next
    case e: (Some e)
    from find_nat_Some[OF e] have "prefix t (drop e line)" by simp
    moreover from Some assms have "t \<noteq> []" "hd t = CHR '')''" by (auto simp: raw_delim_def)
    ultimately have "CHR '')'' \<in> set (drop e line)"
      by (metis hd_in_set set_mono_prefix subsetD)
    then have "CHR '')'' \<in> set line" by (rule in_set_dropD)
    then have "re_match RE_LEADING_SPACE line \<noteq> None"
      by (rule leading_space_match) (simp add: ascii_space_def)
    then obtain ls where "re_match RE_LEADING_SPACE line = Some ls" by blast
    with Some e raw_begin_delim[of "grp ls 1 @ empty_literal @ drop (e + length t) line"] show ?thesis
      by (cases "raw_begin (grp ls 1 @ empty_literal @ drop (e + length t) line)") simp
  qed
qed

lemma raw_lines_from_returns:
  "raw_delim d \<Longrightarrow> \<exists>ls. raw_lines_from d raw = Inr ls \<and> length ls = length raw"
proof (induction raw arbitrary: d)
  case Nil
  show ?case by simp
next
  case (Cons line raw)
  obtain line' d' where "raw_line d line = Inr (line', d')" "raw_delim d'"
    using raw_line_returns[OF Cons.prems] by blast
  with Cons.IH show ?case by fastforce
qed

lemma raw_lines_from_length: "raw_lines_from d raw = Inr ls \<Longrightarrow> length ls = length raw"
  by (induction raw arbitrary: d ls) auto

lemma CleanseRawStrings_returns: "\<exists>ls. CleanseRawStrings raw = Inr ls \<and> length ls = length raw"
  unfolding CleanseRawStrings_def by (rule raw_lines_from_returns) (simp add: raw_delim_def)

lemma raw_begin_none: "re_match RE_RAW line = None \<Longrightarrow> raw_begin line = (line, None)"
  by (subst raw_begin.simps) simp

lemma leading_space_group:
  assumes "re_match RE_LEADING_SPACE line = Some m"
  shows "mgroup m 1 = Some (takeWhile ascii_space line)"
proof -
  from assms obtain u v cs where path: "(([], line, []), (u, v, cs)) \<in> paths RE_LEADING_SPACE"
    and m: "m = \<lparr>mo_string = line, mo_start = 0, mo_end = length u, mo_caps = cs\<rparr>"
    by (rule re_match_path)
  from path obtain h c where h: "list_all ascii_space h" "line = h @ c # v" "\<not> ascii_space c"
    and cs: "cs = [(1, 0, length h)]"
    by (auto simp: RE_LEADING_SPACE_def rx_simps)
  have "takeWhile ascii_space line = h"
    using h by (simp add: takeWhile_append list_all_iff)
  with h(2) show ?thesis by (simp add: m cs mgroup_def)
qed

text \<open>A line with one quote, which opens a raw string without prefix, has one way to match.\<close>

lemma RE_RAW_unique:
  assumes "DQ \<notin> set h" "\<not> head_is_word (rev h)" "NL \<notin> set h" and "list_all delim_char d" "DQ \<notin> set d"
    and "DQ \<notin> set t" "NL \<notin> set t"
  shows "\<exists>m. re_match RE_RAW (h @ CHR ''R'' # DQ # d @ CHR ''('' # t) = Some m \<and>
    mgroup m 1 = Some h \<and> mgroup m 2 = Some d \<and> mgroup m 3 = Some t"
proof -
  let ?s = "h @ CHR ''R'' # DQ # d @ CHR ''('' # t"
  have nl: "list_all (none_of [NL]) h" "list_all (none_of [NL]) t"
    using assms by (auto simp: list_all_iff none_of_def)
  have wb: "at_word_boundary (rev h) (CHR ''R'' # DQ # d @ CHR ''('' # t)"
    using assms(2) by (simp add: at_word_boundary_def char_class_defs)
  have "\<exists>u v cs. (([], ?s, []), (u, v, cs)) \<in> paths RE_RAW"
    unfolding RE_RAW_def raw_prefixes_def
    by (simp add: rx_simps one_of_def) (metis nl assms(4) wb at_eol.simps(1) append_Nil2 append_Cons)
  then obtain m where m: "re_match RE_RAW ?s = Some m"
    using matches_iff[of RE_RAW ?s] by (auto simp: matches_def)
  then obtain h' p d' t' z where dec: "?s = h' @ p @ DQ # d' @ CHR ''('' # t' @ z" "p \<in> set raw_prefixes"
    "mgroup m 1 = Some h'" "mgroup m 2 = Some d'" "mgroup m 3 = Some t'"
    "z = [] \<or> z = [NL]" "list_all delim_char d'"
    by (rule RE_RAW_match)
  have "DQ \<notin> set (h' @ p)"
  proof
    assume "DQ \<in> set (h' @ p)"
    then have "2 \<le> count_list ?s DQ"
      unfolding dec(1) by (auto simp: count_list_append Suc_le_eq count_list_0_iff)
    moreover have "count_list ?s DQ = 1"
      using assms by (simp add: count_list_append count_list_0_iff)
    ultimately show False by simp
  qed
  with first_split_unique[of "h @ ''R''" DQ "d @ CHR ''('' # t" "h' @ p" "d' @ CHR ''('' # t' @ z"] dec(1) assms(1)
  have e: "h @ ''R'' = h' @ p" "d @ CHR ''('' # t = d' @ CHR ''('' # t' @ z" by auto
  have "CHR ''('' \<notin> set d" "CHR ''('' \<notin> set d'"
    using assms(4) dec(7) by (auto simp: list_all_iff delim_char_def none_of_def)
  with first_split_unique[OF e(2)] have d: "d' = d" "t = t' @ z" by auto
  with assms(7) dec(6) have t: "t' = t" by auto
  have h: "h' = h"
  proof -
    from raw_prefix_R[OF dec(2)] obtain q where q: "p = q @ ''R''" "q \<in> set [[], ''u8'', ''u'', ''U'', ''L'']"
      by blast
    with e(1) have "h = h' @ q" by simp
    with q(2) assms(2) show ?thesis by (auto simp: char_class_defs)
  qed
  have "mgroup m 1 = Some h" "mgroup m 2 = Some d" "mgroup m 3 = Some t"
    using dec(3-5) unfolding h d(1) t by auto
  with m show ?thesis by (intro exI[of _ m] conjI)
qed

text \<open>A line that begins a raw string \<open>R"d(...\<close> which is not closed there.\<close>

lemma raw_begin_open:
  assumes "DQ \<notin> set h" "\<not> head_is_word (rev h)" "NL \<notin> set h" and "list_all delim_char d" "DQ \<notin> set d"
    and "DQ \<notin> set t" "NL \<notin> set t"
  shows "raw_begin (h @ CHR ''R'' # DQ # d @ CHR ''('' # t) = (h @ empty_literal, Some (CHR '')'' # d @ [DQ]))"
proof -
  obtain m where m: "re_match RE_RAW (h @ CHR ''R'' # DQ # d @ CHR ''('' # t) = Some m"
    "mgroup m 1 = Some h" "mgroup m 2 = Some d" "mgroup m 3 = Some t"
    using RE_RAW_unique[OF assms] by blast
  have "find_nat (CHR '')'' # d @ [DQ]) t = None"
  proof -
    have False if "prefix (CHR '')'' # d @ [DQ]) (drop i t)" for i
      using set_mono_prefix[OF that] assms(6) by (auto dest: in_set_dropD)
    then show ?thesis by (auto simp: find_nat_None)
  qed
  with m show ?thesis by (subst raw_begin.simps) (simp add: grp_def)
qed

lemma raw_begin_after_close:
  assumes "list_all ascii_space h" "DQ \<notin> set t"
  shows "raw_begin (h @ empty_literal @ t) = (h @ empty_literal @ t, None)"
proof (rule raw_begin_none, rule ccontr)
  assume "re_match RE_RAW (h @ empty_literal @ t) \<noteq> None"
  then obtain m where m: "re_match RE_RAW (h @ empty_literal @ t) = Some m" by blast
  from m obtain h' p d' t' z where dec: "h @ empty_literal @ t = h' @ p @ DQ # d' @ CHR ''('' # t' @ z" "p \<in> set raw_prefixes"
    by (rule RE_RAW_match) (rule that)
  from raw_prefix_R[OF dec(2)] obtain q where q: "p = q @ ''R''" by blast
  have "\<not> ascii_space DQ" by (simp add: ascii_space_def)
  with assms(1) have hq: "DQ \<notin> set h" unfolding list_all_iff by blast
  obtain a b where ab: "h @ DQ # DQ # t = (a @ ''R'') @ DQ # b"
    using dec(1) q that[of "h' @ q" "d' @ CHR ''('' # t' @ z"] by simp
  show False
  proof (cases "DQ \<in> set (a @ ''R'')")
    case False
    with first_split_unique[OF ab hq] have "h = a @ ''R''" by blast
    with assms(1) show False by (simp add: ascii_space_def)
  next
    case True
    then obtain a1 a2 where a: "a @ ''R'' = a1 @ DQ # a2" "DQ \<notin> set a1"
      using split_list_first[OF True] by blast
    with ab have "h @ DQ # DQ # t = a1 @ DQ # a2 @ DQ # b" by simp
    from first_split_unique[OF this hq a(2)] have e: "DQ # t = a2 @ DQ # b" by blast
    have "a2 \<noteq> []" using a(1) by (cases a2 rule: rev_cases) auto
    with e have "DQ \<in> set t" by (cases a2) auto
    with assms(2) show False by simp
  qed
qed

text \<open>The lines inside.\<close>

lemma raw_lines_from_inside:
  "list_all (\<lambda>l. find_nat d l = None) mids \<Longrightarrow>
   raw_lines_from (Some d) (mids @ ls) =
     res_map (\<lambda>rest. replicate (length mids) empty_literal @ rest) (raw_lines_from (Some d) ls)"
proof (induction mids)
  case Nil
  show ?case by (cases "raw_lines_from (Some d) ls") auto
next
  case (Cons l mids)
  then show ?case by (cases "raw_lines_from (Some d) ls") auto
qed



text \<open>When a second raw string opens on the line, only the last one is looked at: the first, although
  it is complete on its line, stays in the line if the second goes on to the next line.\<close>

theorem CleanseRawStrings_keeps_first_of_two:
  "CleanseRawStrings [''f(R'' @ [DQ] @ ''x(1)x'' @ [DQ] @ '', R'' @ [DQ] @ ''y(2'', ''3)y'' @ [DQ] @ '');''] =
     Inr [''f(R'' @ [DQ] @ ''x(1)x'' @ [DQ] @ '', '' @ [DQ, DQ], [DQ, DQ] @ '');'']"
proof -
  have first: "raw_begin (''f(R'' @ [DQ] @ ''x(1)x'' @ [DQ] @ '', R'' @ [DQ] @ ''y(2'') =
      (''f(R'' @ [DQ] @ ''x(1)x'' @ [DQ] @ '', '' @ [DQ, DQ], Some ('')y'' @ [DQ]))"
    by (subst raw_begin.simps)
      (simp add: re_match_def re_at_def RE_RAW_def raw_prefixes_def char_class_defs at_word_boundary_def
        delim_char_def grp_def mgroup_def)
  have second: "raw_begin ([] @ [DQ, DQ] @ '');'') = ([] @ [DQ, DQ] @ '');'', None)"
    by (rule raw_begin_after_close) simp_all
  show ?thesis
    using first second
    by (simp add: CleanseRawStrings_def re_match_def re_at_def RE_LEADING_SPACE_def char_class_defs
        grp_def mgroup_def)
qed

section \<open>Multi-line comments\<close>

function FindNextMultiLineCommentStart :: "string list \<Rightarrow> nat \<Rightarrow> nat" where
  "FindNextMultiLineCommentStart lines lineix =
     (if lineix < length lines then
        (if startswith (strip uni_space (lines ! lineix)) ''/*'' \<and>
            py_find_from (strip uni_space (lines ! lineix)) ''*/'' 2 < 0
         then lineix
         else FindNextMultiLineCommentStart lines (lineix + 1))
      else length lines)"
  by pat_completeness auto
termination
  by (relation "measure (\<lambda>(lines, i). length lines - i)") auto

function FindNextMultiLineCommentEnd :: "string list \<Rightarrow> nat \<Rightarrow> nat" where
  "FindNextMultiLineCommentEnd lines lineix =
     (if lineix < length lines then
        (if endswith (strip uni_space (lines ! lineix)) ''*/'' then lineix
         else FindNextMultiLineCommentEnd lines (lineix + 1))
      else length lines)"
  by pat_completeness auto
termination
  by (relation "measure (\<lambda>(lines, i). length lines - i)") auto

declare FindNextMultiLineCommentStart.simps [simp del] FindNextMultiLineCommentEnd.simps [simp del]

definition RemoveMultiLineCommentsFromRange :: "string list \<Rightarrow> nat \<Rightarrow> nat \<Rightarrow> string list" where
  "RemoveMultiLineCommentsFromRange lines b e = foldl (\<lambda>ls i. ls[i := ''/**/'']) lines [b..<e]"

lemma blank_range_length [simp]: "length (RemoveMultiLineCommentsFromRange lines b e) = length lines"
proof -
  have "length (foldl (\<lambda>ls i. ls[i := ''/**/'']) lines is) = length lines" for "is" :: "nat list"
    by (induction "is" arbitrary: lines) auto
  then show ?thesis by (simp add: RemoveMultiLineCommentsFromRange_def)
qed

lemma blank_range_nth:
  assumes "i < length lines"
  shows "RemoveMultiLineCommentsFromRange lines b e ! i = (if b \<le> i \<and> i < e then ''/**/'' else lines ! i)"
proof -
  have "i < length lines \<Longrightarrow> foldl (\<lambda>ls i. ls[i := ''/**/'']) lines is ! i =
      (if i \<in> set is then ''/**/'' else lines ! i)" for "is" :: "nat list"
    by (induction "is" arbitrary: lines) (auto simp: nth_list_update)
  with assms show ?thesis by (simp add: RemoveMultiLineCommentsFromRange_def)
qed

definition opens_comment :: "string \<Rightarrow> bool" where
  "opens_comment l \<longleftrightarrow> startswith (strip uni_space l) ''/*'' \<and> py_find_from (strip uni_space l) ''*/'' 2 < 0"

definition ends_comment :: "string \<Rightarrow> bool" where
  "ends_comment l \<longleftrightarrow> endswith (strip uni_space l) ''*/''"

lemma FindStart_spec:
  "i \<le> length ls \<Longrightarrow> i \<le> FindNextMultiLineCommentStart ls i \<and> FindNextMultiLineCommentStart ls i \<le> length ls \<and>
    (\<forall>j. i \<le> j \<and> j < FindNextMultiLineCommentStart ls i \<longrightarrow> \<not> opens_comment (ls ! j)) \<and>
    (FindNextMultiLineCommentStart ls i < length ls \<longrightarrow> opens_comment (ls ! FindNextMultiLineCommentStart ls i))"
proof (induction ls i rule: FindNextMultiLineCommentStart.induct)
  case (1 ls i)
  show ?case
  proof (cases "i < length ls \<and> \<not> opens_comment (ls ! i)")
    case True
    with 1 have IH: "Suc i \<le> FindNextMultiLineCommentStart ls (Suc i)"
      "FindNextMultiLineCommentStart ls (Suc i) \<le> length ls"
      "\<forall>j. Suc i \<le> j \<and> j < FindNextMultiLineCommentStart ls (Suc i) \<longrightarrow> \<not> opens_comment (ls ! j)"
      "FindNextMultiLineCommentStart ls (Suc i) < length ls \<longrightarrow> opens_comment (ls ! FindNextMultiLineCommentStart ls (Suc i))"
      by (simp_all add: opens_comment_def)
    have step: "FindNextMultiLineCommentStart ls i = FindNextMultiLineCommentStart ls (Suc i)"
      using True by (subst FindNextMultiLineCommentStart.simps) (auto simp: opens_comment_def)
    show ?thesis unfolding step using IH True by (metis Suc_leI Suc_leD le_neq_implies_less)
  next
    case False
    with 1(2) show ?thesis
      by (subst (1 2 3 4 5) FindNextMultiLineCommentStart.simps) (auto simp: opens_comment_def)
  qed
qed

lemma FindEnd_spec:
  "i \<le> length ls \<Longrightarrow> i \<le> FindNextMultiLineCommentEnd ls i \<and> FindNextMultiLineCommentEnd ls i \<le> length ls \<and>
    (\<forall>j. i \<le> j \<and> j < FindNextMultiLineCommentEnd ls i \<longrightarrow> \<not> ends_comment (ls ! j)) \<and>
    (FindNextMultiLineCommentEnd ls i < length ls \<longrightarrow> ends_comment (ls ! FindNextMultiLineCommentEnd ls i))"
proof (induction ls i rule: FindNextMultiLineCommentEnd.induct)
  case (1 ls i)
  show ?case
  proof (cases "i < length ls \<and> \<not> ends_comment (ls ! i)")
    case True
    with 1 have IH: "Suc i \<le> FindNextMultiLineCommentEnd ls (Suc i)"
      "FindNextMultiLineCommentEnd ls (Suc i) \<le> length ls"
      "\<forall>j. Suc i \<le> j \<and> j < FindNextMultiLineCommentEnd ls (Suc i) \<longrightarrow> \<not> ends_comment (ls ! j)"
      "FindNextMultiLineCommentEnd ls (Suc i) < length ls \<longrightarrow> ends_comment (ls ! FindNextMultiLineCommentEnd ls (Suc i))"
      by (simp_all add: ends_comment_def)
    have step: "FindNextMultiLineCommentEnd ls i = FindNextMultiLineCommentEnd ls (Suc i)"
      using True by (subst FindNextMultiLineCommentEnd.simps) (auto simp: ends_comment_def)
    show ?thesis unfolding step using IH True by (metis Suc_leI Suc_leD le_neq_implies_less)
  next
    case False
    with 1(2) show ?thesis
      by (subst (1 2 3 4 5) FindNextMultiLineCommentEnd.simps) (auto simp: ends_comment_def)
  qed
qed

function remove_comments_from :: "string \<Rightarrow> string list \<Rightarrow> nat \<Rightarrow> report list \<times> string list" where
  "remove_comments_from filename lines lineix =
     (if lineix < length lines then
        (let lineix_begin = FindNextMultiLineCommentStart lines lineix
         in if length lines \<le> lineix_begin then ([], lines)
            else (let lineix_end = FindNextMultiLineCommentEnd lines lineix_begin
                  in if length lines \<le> lineix_end
                     then ([report filename (int lineix_begin + 1) ''readability/multiline_comment'' 5
                              ''Could not find end of multi-line comment''], lines)
                     else remove_comments_from filename
                            (RemoveMultiLineCommentsFromRange lines lineix_begin (lineix_end + 1)) (lineix_end + 1)))
      else ([], lines))"
  by pat_completeness auto
termination
proof (relation "measure (\<lambda>(f, lines, i). length lines - i)", goal_cases)
  case (2 f lines i b e)
  have "i \<le> b" using FindStart_spec[of i lines] 2 by simp
  moreover have "b \<le> e" using FindEnd_spec[of b lines] 2 by simp
  ultimately show ?case using 2 by simp
qed simp

declare remove_comments_from.simps [simp del]

definition RemoveMultiLineComments :: "string \<Rightarrow> string list \<Rightarrow> report list \<times> string list" where
  "RemoveMultiLineComments filename lines = remove_comments_from filename lines 0"

lemma blank_not_open: "\<not> opens_comment ''/**/''"
  by (simp add: opens_comment_def py_simps uni_space_def ascii_space_def)

lemma no_start_below:
  assumes "FindNextMultiLineCommentStart ls 0 \<ge> length ls" "j < length ls"
  shows "\<not> opens_comment (ls ! j)"
  using FindStart_spec[of 0 ls] assms by auto

text \<open>What one pass leaves, as a relation between the lines before and after.\<close>

definition comments_removed :: "string list \<Rightarrow> nat \<Rightarrow> report list \<times> string list \<Rightarrow> bool" where
  "comments_removed ls i res \<longleftrightarrow> length (snd res) = length ls \<and>
     (\<forall>j<length ls. snd res ! j = ls ! j \<or> snd res ! j = ''/**/'') \<and>
     ((fst res = [] \<and> (\<forall>j<length ls. i \<le> j \<longrightarrow> \<not> opens_comment (snd res ! j))) \<or>
      (\<exists>b fn. i \<le> b \<and> b < length ls \<and>
         fst res = [report fn (int b + 1) ''readability/multiline_comment'' 5 ''Could not find end of multi-line comment''] \<and>
         opens_comment (snd res ! b) \<and>
         (\<forall>j<length ls. i \<le> j \<and> j < b \<longrightarrow> \<not> opens_comment (snd res ! j)) \<and>
         (\<forall>j<length ls. b \<le> j \<longrightarrow> \<not> ends_comment (snd res ! j))))"

lemma comments_removed_unfinished:
  assumes "length ls' = length ls" "\<forall>j<length ls. ls' ! j = ls ! j \<or> ls' ! j = ''/**/''" "i \<le> b" "b < length ls"
    and "rs = [report fn (int b + 1) ''readability/multiline_comment'' 5 ''Could not find end of multi-line comment'']"
    and "opens_comment (ls' ! b)" "\<forall>j<length ls. i \<le> j \<and> j < b \<longrightarrow> \<not> opens_comment (ls' ! j)"
    and "\<forall>j<length ls. b \<le> j \<longrightarrow> \<not> ends_comment (ls' ! j)"
  shows "comments_removed ls i (rs, ls')"
  unfolding comments_removed_def fst_conv snd_conv
  by (intro conjI disjI2 exI[of _ b] exI[of _ fn]) (fact assms)+

lemma remove_comments_below:
  "j < i \<Longrightarrow> i \<le> length ls \<Longrightarrow> snd (remove_comments_from fn ls i) ! j = ls ! j"
proof (induction fn ls i rule: remove_comments_from.induct)
  case (1 fn ls i)
  let ?b = "FindNextMultiLineCommentStart ls i" and ?e = "FindNextMultiLineCommentEnd ls (FindNextMultiLineCommentStart ls i)"
  show ?case
  proof (cases "i < length ls \<and> ?b < length ls \<and> ?e < length ls")
    case True
    have b: "i \<le> ?b" "?b \<le> ?e" using FindStart_spec[of i ls] FindEnd_spec[of ?b ls] True by simp_all
    have "snd (remove_comments_from fn (RemoveMultiLineCommentsFromRange ls ?b (?e + 1)) (?e + 1)) ! j =
        RemoveMultiLineCommentsFromRange ls ?b (?e + 1) ! j"
      using 1(1)[OF _ refl _ refl] True b 1(2) by simp
    also have "\<dots> = ls ! j" using blank_range_nth[of j ls ?b "?e + 1"] 1(2,3) b by simp
    finally show ?thesis using True by (subst remove_comments_from.simps) (simp add: Let_def)
  next
    case False
    then show ?thesis by (subst remove_comments_from.simps) (auto simp: Let_def)
  qed
qed

lemma comments_removed_step:
  assumes "comments_removed (RemoveMultiLineCommentsFromRange ls b (e + 1)) (e + 1) res" "i \<le> b" "b \<le> e" "e < length ls"
    and "\<forall>j. i \<le> j \<and> j < b \<longrightarrow> \<not> opens_comment (ls ! j)"
    and "\<And>j. j \<le> e \<Longrightarrow> snd res ! j = RemoveMultiLineCommentsFromRange ls b (e + 1) ! j"
  shows "comments_removed ls i res"
proof -
  note IH = assms(1)
  have low: "snd res ! j = (if b \<le> j then ''/**/'' else ls ! j)" if "j \<le> e" for j
    using assms(4) assms(6)[OF that] blank_range_nth[of j ls b "e + 1"] that by simp
  have len: "length (snd res) = length ls" using IH by (simp add: comments_removed_def)
  have each: "\<forall>j<length ls. snd res ! j = ls ! j \<or> snd res ! j = ''/**/''"
  proof (intro allI impI)
    fix j assume "j < length ls"
    with IH blank_range_nth[of j ls b "e + 1"] show "snd res ! j = ls ! j \<or> snd res ! j = ''/**/''"
      by (auto simp: comments_removed_def split: if_splits)
  qed
  have clean: "\<not> opens_comment (snd res ! j)" if "i \<le> j" "j \<le> e" for j
    using low[OF that(2)] assms(5) that blank_not_open by (cases "b \<le> j") auto
  from IH consider "fst res = []" "\<forall>j<length ls. e + 1 \<le> j \<longrightarrow> \<not> opens_comment (snd res ! j)"
    | c fn where "e + 1 \<le> c" "c < length ls"
       "fst res = [report fn (int c + 1) ''readability/multiline_comment'' 5 ''Could not find end of multi-line comment'']"
       "opens_comment (snd res ! c)"
       "\<forall>j<length ls. e + 1 \<le> j \<and> j < c \<longrightarrow> \<not> opens_comment (snd res ! j)"
       "\<forall>j<length ls. c \<le> j \<longrightarrow> \<not> ends_comment (snd res ! j)"
    unfolding comments_removed_def blank_range_length by blast
  then show ?thesis
  proof cases
    case 1
    have "\<not> opens_comment (snd res ! j)" if "j < length ls" "i \<le> j" for j
      using clean[of j] 1(2) that by (cases "j \<le> e") auto
    with 1(1) len each show ?thesis unfolding comments_removed_def by simp
  next
    case (2 c fn)
    have "\<not> opens_comment (snd res ! j)" if "j < length ls" "i \<le> j \<and> j < c" for j
      using clean[of j] 2(5) that by (cases "j \<le> e") auto
    moreover have "i \<le> c" using 2(1) assms(2,3) by simp
    ultimately have "comments_removed ls i (fst res, snd res)"
      using comments_removed_unfinished[OF len each _ 2(2,3,4) _ 2(6)] by blast
    then show ?thesis by simp
  qed
qed

lemma remove_comments_removed: "comments_removed ls i (remove_comments_from fn ls i)"
proof (induction fn ls i rule: remove_comments_from.induct)
  case (1 fn ls i)
  let ?b = "FindNextMultiLineCommentStart ls i" and ?e = "FindNextMultiLineCommentEnd ls (FindNextMultiLineCommentStart ls i)"
  consider "length ls \<le> i" | "i < length ls" "length ls \<le> ?b" | "i < length ls" "?b < length ls" "length ls \<le> ?e"
    | "i < length ls" "?b < length ls" "?e < length ls" by linarith
  then show ?case
  proof cases
    case 1
    then show ?thesis by (subst remove_comments_from.simps) (simp add: comments_removed_def)
  next
    case 2
    then have "remove_comments_from fn ls i = ([], ls)"
      by (subst remove_comments_from.simps) (simp add: Let_def)
    moreover have "\<forall>j<length ls. i \<le> j \<longrightarrow> \<not> opens_comment (ls ! j)"
      using FindStart_spec[of i ls] 2 by auto
    ultimately show ?thesis by (simp add: comments_removed_def)
  next
    case 3
    have "remove_comments_from fn ls i =
        ([report fn (int ?b + 1) ''readability/multiline_comment'' 5 ''Could not find end of multi-line comment''], ls)"
      using 3 by (subst remove_comments_from.simps) (simp add: Let_def)
    moreover have "i \<le> ?b" "opens_comment (ls ! ?b)" "\<forall>j<length ls. i \<le> j \<and> j < ?b \<longrightarrow> \<not> opens_comment (ls ! j)"
      "\<forall>j<length ls. ?b \<le> j \<longrightarrow> \<not> ends_comment (ls ! j)"
      using FindStart_spec[of i ls] FindEnd_spec[of ?b ls] 3 by auto
    ultimately show ?thesis
      using comments_removed_unfinished[of ls ls i ?b _ fn] 3(2) by simp
  next
    case 4
    let ?ls = "RemoveMultiLineCommentsFromRange ls ?b (?e + 1)"
    have "remove_comments_from fn ls i = remove_comments_from fn ?ls (?e + 1)"
      using 4 by (subst remove_comments_from.simps) (simp add: Let_def)
    moreover have "comments_removed ?ls (?e + 1) (remove_comments_from fn ?ls (?e + 1))" using 1 4 by simp
    moreover have "i \<le> ?b" "?b \<le> ?e" "\<forall>j. i \<le> j \<and> j < ?b \<longrightarrow> \<not> opens_comment (ls ! j)"
      using FindStart_spec[of i ls] FindEnd_spec[of ?b ls] 4 by simp_all
    moreover have "snd (remove_comments_from fn ?ls (?e + 1)) ! j = ?ls ! j" if "j \<le> ?e" for j
      using remove_comments_below[of j "?e + 1" ?ls fn] that 4(3) by simp
    ultimately show ?thesis using comments_removed_step 4(3) by metis
  qed
qed


text \<open>The line \<open>/*/\<close>, which opens a comment in C++, counts as a comment that is complete.\<close>

theorem slash_star_slash_closes:
  "RemoveMultiLineComments fn [''/*/'', ''int x;'', ''*/''] = ([], [''/**/'', ''int x;'', ''*/''])"
  by (simp add: RemoveMultiLineComments_def remove_comments_from.simps FindNextMultiLineCommentStart.simps
      FindNextMultiLineCommentEnd.simps RemoveMultiLineCommentsFromRange_def py_simps uni_space_def ascii_space_def Let_def)

section \<open>Comments on one line\<close>

definition CleanseComments :: "string \<Rightarrow> string" where
  "CleanseComments line =
     (let commentpos = py_find line ''//'';
          line = (if commentpos \<noteq> - 1 \<and> \<not> IsCppString (py_slice line 0 commentpos)
                  then rstrip uni_space (py_slice line 0 commentpos) else line)
      in re_sub RE_CLEANSE_C_COMMENTS [] line)"

text \<open>Reading from the left: a backslash takes the character after it, any other double quote opens or
  closes a string.\<close>

fun open_quote :: "bool \<Rightarrow> string \<Rightarrow> bool" where
  "open_quote q [] = q"
| "open_quote q [c] = (if c = DQ then \<not> q else q)"
| "open_quote q (c # d # cs) =
     (if c = BS then open_quote q cs else open_quote (if c = DQ then \<not> q else q) (d # cs))"

lemma quote_count:
  "(of_bool q + int (py_count [DQ] (py_replace [BS, BS] ''XX'' s)) -
     int (py_count [BS, DQ] (py_replace [BS, BS] ''XX'' s))) mod 2 = of_bool (open_quote q s)"
proof (induction q s rule: open_quote.induct)
  case (1 q)
  show ?case by simp
next
  case (2 q c)
  show ?case by (cases q) auto
next
  case (3 q c d cs)
  show ?case
  proof (cases "c = BS")
    case True
    with 3(1) show ?thesis
      by (cases "d = BS"; cases "d = DQ"; cases q) (simp_all add: algebra_simps)
  next
    case False
    let ?r = "py_replace [BS, BS] ''XX'' (d # cs)"
    have r: "py_replace [BS, BS] ''XX'' (c # d # cs) = c # ?r" using False by simp
    have n: "int (py_count [DQ] (c # ?r)) = of_bool (c = DQ) + int (py_count [DQ] ?r)"
      "int (py_count [BS, DQ] (c # ?r)) = int (py_count [BS, DQ] ?r)" using False by auto
    have o: "open_quote q (c # d # cs) = open_quote (if c = DQ then \<not> q else q) (d # cs)" using False by simp
    have parity: "(of_bool q + (of_bool b + x) - y) mod 2 = (of_bool (if b then \<not> q else q) + x - y) mod 2"
      for b and x y :: int by (cases b; cases q) (simp_all, presburger+)
    show ?thesis unfolding r n o parity using 3(2)[OF False] .
  qed
qed

text \<open>C37. On a line without single quotes, \<open>IsCppString\<close> tells whether a reader who goes through the line
  from the left, skipping the character after every backslash, ends inside a string.\<close>

theorem IsCppString_open_quote:
  assumes "SQ \<notin> set line"
  shows "IsCppString line \<longleftrightarrow> open_quote False line"
proof -
  have "SQ \<notin> set (py_replace [BS, BS] ''XX'' line)"
    using set_py_replace[of "[BS, BS]" "''XX''" line] assms by auto
  then have "py_count [SQ, DQ, SQ] (py_replace [BS, BS] ''XX'' line) = 0"
    by (rule py_count_absent) simp
  with quote_count[of False line] show ?thesis
    by (simp add: IsCppString_def Let_def)
qed

theorem IsCppString_open_quote_witness:
  "IsCppString (''f('' @ [DQ, BS, BS, BS, DQ] @ ''a'')"
  by (subst IsCppString_open_quote) simp_all

lemma c_comment_needs:
  assumes "searches RE_CLEANSE_C_COMMENTS s"
  shows "CHR ''/'' \<in> set s \<and> CHR ''*'' \<in> set s"
proof -
  have "CHR ''/'' \<in> set v \<and> CHR ''*'' \<in> set v" if "((u, v, cs), (u', v', cs')) \<in> paths RE_CLEANSE_C_COMMENTS" for u v u' v' cs cs'
  proof -
    have c: "CHR ''/'' \<in> set v \<and> CHR ''*'' \<in> set v" if "((u, v, cs), (u', v', cs')) \<in> paths RE_C_COMMENT" for u v u' v' cs cs'
      using that by (auto simp: RE_C_COMMENT_def rx_simps one_of_def)
    from that show ?thesis
      unfolding RE_CLEANSE_C_COMMENTS_def by (simp add: rx_simps) (use c in fastforce)
  qed
  then show ?thesis using assms searches_needs by blast
qed

lemma find_slashes: "CHR ''/'' \<notin> set h \<Longrightarrow> find_nat ''//'' (h @ CHR ''/'' # CHR ''/'' # c) = Some (length h)"
  by (induction h) auto

text \<open>A \<open>//\<close> that does not stand inside a string starts a comment: \<open>CleanseComments\<close> cuts the line
  there and strips the white space before it; inside a string the line stays as it is.\<close>

theorem CleanseComments_line_comment:
  assumes "CHR ''/'' \<notin> set h" "CHR ''*'' \<notin> set (h @ c)"
  shows "CleanseComments (h @ ''//'' @ c) = (if IsCppString h then h @ ''//'' @ c else rstrip uni_space h)"
proof -
  have pos: "py_find (h @ CHR ''/'' # CHR ''/'' # c) ''//'' = int (length h)"
    using find_slashes[OF assms(1)] by (simp add: py_find_def)
  have slice: "py_slice (h @ CHR ''/'' # CHR ''/'' # c) 0 (int (length h)) = h"
    by simp
  have "CHR ''/'' \<notin> set (rstrip uni_space h)"
    using set_mono_prefix[OF rstrip_prefix[of uni_space h]] assms(1) by blast
  then have stripped: "re_sub RE_CLEANSE_C_COMMENTS [] (rstrip uni_space h) = rstrip uni_space h"
    using c_comment_needs re_sub_absent by blast
  have "CHR ''*'' \<notin> set (h @ CHR ''/'' # CHR ''/'' # c)" using assms(2) by simp
  then have "re_sub RE_CLEANSE_C_COMMENTS [] (h @ CHR ''/'' # CHR ''/'' # c) = h @ CHR ''/'' # CHR ''/'' # c"
    using c_comment_needs re_sub_absent by blast
  with pos slice stripped show ?thesis by (simp add: CleanseComments_def Let_def)
qed

theorem CleanseComments_line_comment_witness:
  "CleanseComments ''x = y;  // add'' = ''x = y;'' \<and>
   CleanseComments (''s = '' @ [DQ] @ ''http://a'' @ [DQ] @ '';'') = ''s = '' @ [DQ] @ ''http://a'' @ [DQ] @ '';''"
  using CleanseComments_line_comment[of "''x = y;  ''" "'' add''"]
    CleanseComments_line_comment[of "''s = '' @ [DQ] @ ''http:''" "''a'' @ [DQ] @ '';''"]
  by (simp add: IsCppString_def rstrip_def uni_space_def ascii_space_def)

text \<open>With white space on both sides, a comment inside a line takes the white space to its left with
  it, not the one to its right: the third alternative of the pattern starts further left.\<close>

theorem CleanseComments_clears_left:
  "CleanseComments ''x  /* c */ y'' = ''x y''"
  by (simp add: CleanseComments_def re_sub_def sub_from.simps re_at_def RE_CLEANSE_C_COMMENTS_def RE_C_COMMENT_def
      py_find_def char_class_defs Let_def)

section \<open>Collapsing strings\<close>

lemma RE_FIRST_QUOTE_match:
  assumes "re_match RE_FIRST_QUOTE s = Some m"
  obtains h q t z where "s = h @ q # t @ z" "q \<in> {SQ, DQ}" "SQ \<notin> set h" "DQ \<notin> set h"
    "mgroup m 1 = Some h" "mgroup m 2 = Some [q]" "mgroup m 3 = Some t" "NL \<notin> set t" "z = [] \<or> z = [NL]"
proof -
  from assms obtain u v cs where path: "(([], s, []), (u, v, cs)) \<in> paths RE_FIRST_QUOTE"
    and m: "m = \<lparr>mo_string = s, mo_start = 0, mo_end = length u, mo_caps = cs\<rparr>"
    by (rule re_match_path)
  from path obtain h q t where h: "list_all (none_of [SQ, DQ]) h" "s = h @ q # t @ v"
    and q: "one_of [SQ, DQ] q" and t: "list_all (none_of [NL]) t" and v: "at_eol v"
    and cs: "cs = [(3, length (h @ [q]), length (h @ q # t)), (2, length h, length (h @ [q])), (1, 0, length h)]"
    by (auto simp: RE_FIRST_QUOTE_def rx_simps)
  have "mgroup m 1 = Some h" using h(2) by (simp add: m cs mgroup_def)
  moreover have "mgroup m 2 = Some [q]" using h(2) by (simp add: m cs mgroup_def)
  moreover have "mgroup m 3 = Some t" using h(2) by (simp add: m cs mgroup_def)
  moreover have "v = [] \<or> v = [NL]" using v by (cases v) auto
  moreover have "NL \<notin> set t" "SQ \<notin> set h" "DQ \<notin> set h" using t h(1) by (auto simp: list_all_iff none_of_def)
  moreover have "q \<in> {SQ, DQ}" using q by (simp add: one_of_def)
  ultimately show ?thesis using that h(2) by blast
qed

lemma RE_DIGIT_SEPARATORS_match:
  assumes "re_match RE_DIGIT_SEPARATORS s = Some m"
  obtains a b z where "s = a @ b @ z" "mgroup m 1 = Some a" "mgroup m 2 = Some b"
proof -
  from assms obtain u v cs where path: "(([], s, []), (u, v, cs)) \<in> paths RE_DIGIT_SEPARATORS"
    and m: "m = \<lparr>mo_string = s, mo_start = 0, mo_end = length u, mo_caps = cs\<rparr>"
    by (rule re_match_path)
  from path obtain x y ds t where p: "(([], s, []), (x, y, ds)) \<in> paths (RStar (RSeq (ROpt (chr SQ)) wordc))"
    and t: "y = t @ v" and cs: "cs = (2, length x, length (rev t @ x)) # (1, 0, length x) # ds"
    unfolding RE_DIGIT_SEPARATORS_def by (simp add: rx_simps) auto
  from p obtain a where "s = a @ y" "x = rev a @ []" by (rule paths_split)
  then have "s = a @ t @ v" "x = rev a" using t by simp_all
  then show ?thesis using that[of a t v] by (simp add: m cs mgroup_def)
qed

lemma RE_DIGIT_SEPARATORS_matches:
  assumes "NL \<notin> set s"
  shows "re_match RE_DIGIT_SEPARATORS s \<noteq> None"
proof -
  have star: "(([], s, []), ([], s, [])) \<in> paths (RStar r)" for r
    by (simp add: paths.simps(5))
  have "list_all (none_of [NL]) s" using assms by (auto simp: list_all_iff none_of_def)
  then have "(([], s, []), (rev s, [], [(2, 0, length s), (1, 0, 0)])) \<in> paths RE_DIGIT_SEPARATORS"
    unfolding RE_DIGIT_SEPARATORS_def seqs.simps paths_Seq paths_Group paths_Bol paths_Eol paths_Star_char
    using star by (auto intro!: exI[of _ "[(1, 0, 0)]"] exI[of _ "[]"])
  then show ?thesis using matches_iff[of RE_DIGIT_SEPARATORS s] by (auto simp: matches_def)
qed

lemma digits_end_not_Nil: "searches RE_DIGITS_END h \<Longrightarrow> h \<noteq> []"
  by (auto simp: searches_iff RE_DIGITS_END_def rx_simps)

text \<open>The loop of \<open>_CollapseStrings\<close> with its variables \<open>elided\<close> and \<open>collapsed\<close>.\<close>

function collapse :: "string \<Rightarrow> string \<Rightarrow> string result" where
  "collapse elided collapsed =
     (case re_match RE_FIRST_QUOTE elided of
        None \<Rightarrow> Inr (collapsed @ elided)
      | Some match \<Rightarrow>
          (if grp match 2 = [DQ] then
             (case find_nat [DQ] (grp match 3) of
                Some second_quote \<Rightarrow>
                  collapse (drop (second_quote + 1) (grp match 3)) (collapsed @ grp match 1 @ [DQ, DQ])
              | None \<Rightarrow> Inr (collapsed @ elided))
           else if searches RE_DIGITS_END (grp match 1) then
             (case re_match RE_DIGIT_SEPARATORS (SQ # grp match 3) of
                None \<Rightarrow> Inl AttributeError
              | Some match_literal \<Rightarrow>
                  collapse (grp match_literal 2) (collapsed @ grp match 1 @ py_replace [SQ] [] (grp match_literal 1)))
           else
             (case find_nat [SQ] (grp match 3) of
                Some second_quote \<Rightarrow>
                  collapse (drop (second_quote + 1) (grp match 3)) (collapsed @ grp match 1 @ [SQ, SQ])
              | None \<Rightarrow> Inr (collapsed @ elided))))"
  by pat_completeness auto
termination
proof (relation "measure (\<lambda>(elided, collapsed). length elided)", goal_cases)
  case (2 elided collapsed m q)
  from 2(1) obtain h c t z where "elided = h @ c # t @ z" "mgroup m 3 = Some t" by (rule RE_FIRST_QUOTE_match)
  then show ?case by (simp add: grp_def)
next
  case (3 elided collapsed m ml)
  from 3(1) obtain h c t z where m: "elided = h @ c # t @ z" "mgroup m 1 = Some h" "mgroup m 3 = Some t"
    by (rule RE_FIRST_QUOTE_match)
  from 3(4) obtain a b y where "SQ # grp m 3 = a @ b @ y" "mgroup ml 2 = Some b" by (rule RE_DIGIT_SEPARATORS_match)
  then have "length (grp ml 2) \<le> Suc (length t)"
    using m(3) by (simp add: grp_def) (metis length_append le_add2 le_add1 le_trans length_Cons)
  moreover have "h \<noteq> []" using digits_end_not_Nil[OF 3(3)] m(2) by (simp add: grp_def)
  ultimately show ?case using m(1) by (cases h) auto
next
  case (4 elided collapsed m q)
  from 4(1) obtain h c t z where "elided = h @ c # t @ z" "mgroup m 3 = Some t" by (rule RE_FIRST_QUOTE_match)
  then show ?case by (simp add: grp_def)
qed simp

declare collapse.simps [simp del]

definition CollapseStrings :: "string \<Rightarrow> string result" where
  "CollapseStrings elided =
     (if matches RE_INCLUDE elided then Inr elided
      else collapse (re_sub RE_CLEANSE_ESCAPES [] elided) [])"

lemma collapse_returns: "\<exists>s. collapse elided collapsed = Inr s"
proof (induction elided collapsed rule: collapse.induct)
  case (1 elided collapsed)
  show ?case
  proof (cases "re_match RE_FIRST_QUOTE elided")
    case None
    then show ?thesis by (subst collapse.simps) simp
  next
    case (Some m)
    note IH = 1[OF Some]
    from Some obtain t where t: "mgroup m 3 = Some t" "NL \<notin> set t" by (rule RE_FIRST_QUOTE_match)
    consider "grp m 2 = [DQ]" | "grp m 2 \<noteq> [DQ]" "searches RE_DIGITS_END (grp m 1)"
      | "grp m 2 \<noteq> [DQ]" "\<not> searches RE_DIGITS_END (grp m 1)" by blast
    then show ?thesis
    proof cases
      case 1
      then show ?thesis using IH(1)
        by (subst collapse.simps) (simp add: Some split: option.split)
    next
      case 2
      have "NL \<notin> set (SQ # grp m 3)" using t by (simp add: grp_def)
      from RE_DIGIT_SEPARATORS_matches[OF this] obtain ml where
        ml: "re_match RE_DIGIT_SEPARATORS (SQ # grp m 3) = Some ml" by blast
      from IH(2)[OF 2 ml] show ?thesis by (subst collapse.simps) (use 2 in \<open>simp add: Some ml\<close>)
    next
      case 3
      then show ?thesis using IH(3)
        by (subst collapse.simps) (simp add: Some split: option.split)
    qed
  qed
qed

lemma CollapseStrings_returns: "\<exists>s. CollapseStrings line = Inr s"
  by (simp add: CollapseStrings_def collapse_returns)

text \<open>The reference: every string literal that is closed on the line loses its contents.\<close>

function empty_strings :: "string \<Rightarrow> string" where
  "empty_strings [] = []"
| "empty_strings (c # cs) =
     (if c = DQ then (case find_nat [DQ] cs of None \<Rightarrow> c # cs | Some q \<Rightarrow> DQ # DQ # empty_strings (drop (q + 1) cs))
      else c # empty_strings cs)"
  by pat_completeness auto
termination
  by (relation "measure length") auto

declare empty_strings.simps(2) [simp del]

lemma empty_strings_none: "DQ \<notin> set s \<Longrightarrow> empty_strings s = s"
  by (induction s) (auto simp: empty_strings.simps(2))

lemma empty_strings_head: "DQ \<notin> set h \<Longrightarrow> empty_strings (h @ s) = h @ empty_strings s"
  by (induction h) (auto simp: empty_strings.simps(2))

lemma first_quote_unique:
  assumes "SQ \<notin> set h" "DQ \<notin> set h" "NL \<notin> set t"
  shows "\<exists>m. re_match RE_FIRST_QUOTE (h @ DQ # t) = Some m \<and> grp m 1 = h \<and> grp m 2 = [DQ] \<and> grp m 3 = t"
proof -
  have nl: "list_all (none_of [SQ, DQ]) h" "list_all (none_of [NL]) t"
    using assms by (auto simp: list_all_iff none_of_def)
  have "\<exists>u v cs. (([], h @ DQ # t, []), (u, v, cs)) \<in> paths RE_FIRST_QUOTE"
    unfolding RE_FIRST_QUOTE_def
    by (simp add: rx_simps one_of_def) (metis nl at_eol.simps(1) append_Nil2)
  then obtain m where m: "re_match RE_FIRST_QUOTE (h @ DQ # t) = Some m"
    using matches_iff[of RE_FIRST_QUOTE "h @ DQ # t"] by (auto simp: matches_def)
  then obtain h' q t' z where dec: "h @ DQ # t = h' @ q # t' @ z" "q \<in> {SQ, DQ}" "SQ \<notin> set h'" "DQ \<notin> set h'"
    "mgroup m 1 = Some h'" "mgroup m 2 = Some [q]" "mgroup m 3 = Some t'" "z = [] \<or> z = [NL]"
    by (rule RE_FIRST_QUOTE_match)
  have "takeWhile (\<lambda>c. c \<noteq> SQ \<and> c \<noteq> DQ) (h @ DQ # t) = h"
    using assms by (subst takeWhile_append2) auto
  moreover have "takeWhile (\<lambda>c. c \<noteq> SQ \<and> c \<noteq> DQ) (h' @ q # t' @ z) = h'"
    using dec(2-4) by (subst takeWhile_append2) auto
  ultimately have h: "h' = h" using dec(1) by simp
  with dec(1) have q: "q = DQ" "t = t' @ z" by auto
  with dec(8) assms(3) have "t' = t" by auto
  then have "grp m 1 = h" "grp m 2 = [DQ]" "grp m 3 = t"
    using dec(5-7) h q(1) unfolding grp_def by simp_all
  with m show ?thesis by (intro exI[of _ m] conjI)
qed

lemma collapse_empty_strings:
  "SQ \<notin> set s \<Longrightarrow> NL \<notin> set s \<Longrightarrow> collapse s acc = Inr (acc @ empty_strings s)"
proof (induction "length s" arbitrary: s acc rule: less_induct)
  case less
  show ?case
  proof (cases "DQ \<in> set s")
    case False
    have "re_match RE_FIRST_QUOTE s = None"
    proof (rule ccontr)
      assume "re_match RE_FIRST_QUOTE s \<noteq> None"
      then obtain m where "re_match RE_FIRST_QUOTE s = Some m" by blast
      then show False using False less.prems by (auto elim!: RE_FIRST_QUOTE_match)
    qed
    then show ?thesis using empty_strings_none[OF False] by (subst collapse.simps) simp
  next
    case True
    then obtain h t where s: "s = h @ DQ # t" "DQ \<notin> set h" using split_list_first[of DQ s] by blast
    with less.prems have "SQ \<notin> set h" "NL \<notin> set t" by auto
    from first_quote_unique[OF this(1) s(2) this(2)] obtain m where
      m: "re_match RE_FIRST_QUOTE s = Some m" "grp m 1 = h" "grp m 2 = [DQ]" "grp m 3 = t" unfolding s(1) by blast
    show ?thesis
    proof (cases "find_nat [DQ] t")
      case None
      with m s show ?thesis
        by (subst collapse.simps) (simp add: empty_strings_head empty_strings.simps(2))
    next
      case (Some q)
      have "set (drop (q + 1) t) \<subseteq> set s" using s set_drop_subset[of "q + 1" t] by auto
      with less.prems have "SQ \<notin> set (drop (q + 1) t)" "NL \<notin> set (drop (q + 1) t)" by blast+
      from less.hyps[OF _ this, of "acc @ h @ [DQ, DQ]"]
      have "collapse (drop (q + 1) t) (acc @ h @ [DQ, DQ]) = Inr ((acc @ h @ [DQ, DQ]) @ empty_strings (drop (q + 1) t))"
        by (simp add: s)
      then show ?thesis using m Some
        by (subst collapse.simps) (simp add: s empty_strings_head empty_strings.simps(2))
    qed
  qed
qed

text \<open>C21. On a line without escapes and single quotes that is not an \<open>#include\<close>, \<open>_CollapseStrings\<close>
  empties exactly the string literals that are closed on the line, and keeps everything else.\<close>

theorem CollapseStrings_empties_literals:
  assumes "BS \<notin> set line" "SQ \<notin> set line" "NL \<notin> set line" "\<not> matches RE_INCLUDE line"
  shows "CollapseStrings line = Inr (empty_strings line)"
proof -
  have "BS \<in> set v" if "((u, v, cs), (u', v', cs')) \<in> paths RE_CLEANSE_ESCAPES" for u v u' v' cs cs'
    using that by (auto simp: RE_CLEANSE_ESCAPES_def rx_simps one_of_def)
  then have "\<not> searches RE_CLEANSE_ESCAPES line" using searches_needs assms(1) by blast
  then show ?thesis
    using assms collapse_empty_strings[of line "[]"] by (simp add: CollapseStrings_def re_sub_absent)
qed

theorem CollapseStrings_empties_literals_witness:
  "CollapseStrings (''f('' @ [DQ] @ ''a // b'' @ [DQ] @ '', '' @ [DQ] @ ''c'') =
     Inr (''f('' @ [DQ, DQ] @ '', '' @ [DQ] @ ''c'')"
proof -
  have "\<not> matches RE_INCLUDE (''f('' @ [DQ] @ ''a // b'' @ [DQ] @ '', '' @ [DQ] @ ''c'')"
    by (simp add: matches_def re_match_def re_at_def RE_INCLUDE_def char_class_defs)
  then show ?thesis
    by (subst CollapseStrings_empties_literals) (simp_all add: empty_strings.simps(2))
qed

section \<open>The four copies of a file\<close>

record cleansed_lines =
  cl_elided :: "string list"
  cl_lines :: "string list"
  cl_raw_lines :: "string list"
  cl_num_lines :: nat
  cl_lines_without_raw_strings :: "string list"

definition CleansedLines :: "string list \<Rightarrow> cleansed_lines result" where
  "CleansedLines ls =
     res_bind (CleanseRawStrings ls) (\<lambda>without.
       res_bind (res_mapM CollapseStrings without) (\<lambda>collapsed.
         Inr \<lparr>cl_elided = map CleanseComments collapsed, cl_lines = map CleanseComments without,
           cl_raw_lines = ls, cl_num_lines = length ls, cl_lines_without_raw_strings = without\<rparr>))"

definition NumLines :: "cleansed_lines \<Rightarrow> nat" where
  "NumLines cl = cl_num_lines cl"

lemma CleansedLines_returns: "\<exists>cl. CleansedLines ls = Inr cl"
proof -
  obtain without where w: "CleanseRawStrings ls = Inr without" "length without = length ls"
    using CleanseRawStrings_returns by blast
  have "res_mapM CollapseStrings without = Inr (map (\<lambda>l. projr (CollapseStrings l)) without)"
    by (rule res_mapM_total) (use CollapseStrings_returns in \<open>metis sum.sel(2)\<close>)
  with w show ?thesis by (simp add: CleansedLines_def)
qed

lemma CleansedLines_lengths:
  assumes "CleansedLines ls = Inr cl"
  shows "cl_raw_lines cl = ls \<and> NumLines cl = length ls \<and>
     length (cl_elided cl) = length ls \<and> length (cl_lines cl) = length ls \<and>
     length (cl_lines_without_raw_strings cl) = length ls"
  using assms CleanseRawStrings_returns[of ls] by (auto simp: CleansedLines_def NumLines_def dest: res_mapM_length)

text \<open>C33. Building a \<open>CleansedLines\<close> never raises, and its four copies have as many lines as the file.\<close>

theorem CleansedLines_same_length:
  "\<exists>cl. CleansedLines ls = Inr cl \<and> cl_raw_lines cl = ls \<and> NumLines cl = length ls \<and>
     length (cl_elided cl) = length ls \<and> length (cl_lines cl) = length ls \<and>
     length (cl_lines_without_raw_strings cl) = length ls"
  using CleansedLines_returns[of ls] CleansedLines_lengths by blast

end
