(* ===== verification/Nesting.thy ===== *)
theory Nesting
  imports Brackets Cleansing
begin

text \<open>
  The parser of nested blocks (\<open>cpplint.py\<close>: \<open>_BlockInfo\<close> and its subclasses, \<open>_PreprocessorInfo\<close>,
  \<open>NestingState\<close>, and the check of indentation inside namespaces that reads it).

  Blocks are Python objects that are compared by identity, so every block carries the identity it got
  when it was created; \<open>copy.deepcopy\<close> of a stack gives its blocks new identities.  A stack, a Python
  list with its top at the end, is a list with its top at the head.  \<open>Update\<close> is composed of the
  steps of the source in its order: preprocessor, parentheses and inline assembly, namespaces, class,
  \<open>CheckBegin\<close>, access keywords, braces.
\<close>

section \<open>Blocks\<close>

datatype asm_state = NO_ASM | INSIDE_ASM | END_ASM | BLOCK_ASM

record class_info =
  ci_name :: string
  ci_starting_linenum :: nat
  ci_is_derived :: bool
  ci_access :: string
  ci_is_struct :: bool
  ci_class_indent :: nat
  ci_last_line :: nat

datatype block_kind =
    Block
  | ExternC
  | Class class_info
  | Namespace string nat

record block =
  b_id :: nat
  seen_open_brace :: bool
  open_parentheses :: int
  inline_asm :: asm_state
  check_namespace_indentation :: bool
  kind :: block_kind

text \<open>\<open>_BlockInfo.__init__\<close>, \<open>_ExternCInfo.__init__\<close>, \<open>_NamespaceInfo.__init__\<close>\<close>

definition new_BlockInfo :: "nat \<Rightarrow> bool \<Rightarrow> block" where
  "new_BlockInfo i seen = \<lparr>b_id = i, seen_open_brace = seen, open_parentheses = 0, inline_asm = NO_ASM,
     check_namespace_indentation = False, kind = Block\<rparr>"

definition new_ExternCInfo :: "nat \<Rightarrow> block" where
  "new_ExternCInfo i = (new_BlockInfo i True)\<lparr>kind := ExternC\<rparr>"

definition new_NamespaceInfo :: "nat \<Rightarrow> string option \<Rightarrow> nat \<Rightarrow> block" where
  "new_NamespaceInfo i name linenum =
     (new_BlockInfo i False)\<lparr>check_namespace_indentation := True,
       kind := Namespace (case name of None \<Rightarrow> [] | Some n \<Rightarrow> n) linenum\<rparr>"

definition IsBlockInfo :: "block \<Rightarrow> bool" where
  "IsBlockInfo b \<longleftrightarrow> kind b = Block"

fun is_class :: "block_kind \<Rightarrow> bool" where
  "is_class (Class ci) = True"
| "is_class _ = False"

fun is_namespace :: "block_kind \<Rightarrow> bool" where
  "is_namespace (Namespace n l) = True"
| "is_namespace _ = False"

text \<open>\<open>^( *)\<backslash>S\<close>\<close>

definition RE_INDENT :: regex where
  "RE_INDENT = seqs [RBol, RGroup 1 (RStar (lit '' '')), nonws]"

definition GetIndentLevel :: "string \<Rightarrow> nat" where
  "GetIndentLevel line = (case re_match RE_INDENT line of Some m \<Rightarrow> length (grp m 1) | None \<Rightarrow> 0)"

text \<open>The loop that looks for the last line of a class: the first line where the braces are level.\<close>

fun class_last_line :: "string list \<Rightarrow> nat list \<Rightarrow> int \<Rightarrow> nat result" where
  "class_last_line E [] depth = Inr 0"
| "class_last_line E (i # is) depth =
     res_bind (py_get E (int i)) (\<lambda>line.
       let depth = depth + int (py_count ''{'' line) - int (py_count ''}'' line)
       in if depth = 0 then Inr i else class_last_line E is depth)"

definition new_ClassInfo :: "nat \<Rightarrow> string \<Rightarrow> string \<Rightarrow> cleansed_lines \<Rightarrow> nat \<Rightarrow> block result" where
  "new_ClassInfo i name class_or_struct clean_lines linenum =
     res_bind (py_get (cl_raw_lines clean_lines) (int linenum)) (\<lambda>raw.
     res_bind (class_last_line (cl_elided clean_lines) [linenum..<NumLines clean_lines] 0) (\<lambda>last_line.
       Inr ((new_BlockInfo i False)\<lparr>check_namespace_indentation := True,
         kind := Class \<lparr>ci_name = name, ci_starting_linenum = linenum, ci_is_derived = False,
           ci_access = (if class_or_struct = ''struct'' then ''public'' else ''private''),
           ci_is_struct = (class_or_struct = ''struct''), ci_class_indent = GetIndentLevel raw,
           ci_last_line = last_line\<rparr>\<rparr>)))"

section \<open>Checks at the beginning and at the end of a block\<close>

text \<open>\<open>(^|[^:]):($|[^:])\<close>\<close>

definition RE_BARE_COLON :: regex where
  "RE_BARE_COLON = seqs [RAlt RBol (noneof '':''), lit '':'', RAlt REol (noneof '':'')]"

definition CheckBegin :: "cleansed_lines \<Rightarrow> nat \<Rightarrow> block \<Rightarrow> block result" where
  "CheckBegin clean_lines linenum b =
     (case kind b of
        Class ci \<Rightarrow> res_map (\<lambda>line. if searches RE_BARE_COLON line then b\<lparr>kind := Class (ci\<lparr>ci_is_derived := True\<rparr>)\<rparr> else b)
                     (py_get (cl_elided clean_lines) (int linenum))
      | _ \<Rightarrow> Inr b)"

text \<open>\<open>\<backslash>b(DISALLOW_COPY_AND_ASSIGN|DISALLOW_IMPLICIT_CONSTRUCTORS)\(NAME\)\<close>; a class name is made of
  word characters and colons, which stand for themselves in the pattern.\<close>

definition RE_DISALLOW :: "string \<Rightarrow> regex" where
  "RE_DISALLOW name = seqs [RWordB, RGroup 1 (RAlt (lit ''DISALLOW_COPY_AND_ASSIGN'') (lit ''DISALLOW_IMPLICIT_CONSTRUCTORS'')),
     lit (''('' @ name @ '')'')]"

text \<open>\<open>^\<backslash>s*$\<close>\<close>

definition RE_BLANK :: regex where
  "RE_BLANK = seqs [RBol, RStar ws, REol]"

text \<open>\<open>for i in xrange(linenum - 1, self.starting_linenum, -1)\<close>\<close>

fun check_disallow :: "string \<Rightarrow> string \<Rightarrow> string list \<Rightarrow> nat list \<Rightarrow> bool \<Rightarrow> report list result" where
  "check_disallow filename name E [] seen_last_thing_in_class = Inr []"
| "check_disallow filename name E (i # is) seen_last_thing_in_class =
     res_bind (py_get E (int i)) (\<lambda>line.
       case re_search (RE_DISALLOW name) line of
         Some match \<Rightarrow>
           Inr (if seen_last_thing_in_class
                then [report filename (int i) ''readability/constructors'' 3
                        (grp match 1 @ '' should be the last thing in the class'')]
                else [])
       | None \<Rightarrow> check_disallow filename name E is (seen_last_thing_in_class \<or> \<not> matches RE_BLANK line))"

text \<open>\<open>^( *)\}\<close>\<close>

definition RE_CLOSING_BRACE :: regex where
  "RE_CLOSING_BRACE = seqs [RBol, RGroup 1 (RStar (lit '' '')), lit ''}'']"

definition class_title :: "class_info \<Rightarrow> string" where
  "class_title ci = (if ci_is_struct ci then ''struct '' else ''class '') @ ci_name ci"

definition CheckEnd_class :: "string \<Rightarrow> cleansed_lines \<Rightarrow> nat \<Rightarrow> class_info \<Rightarrow> report list result" where
  "CheckEnd_class filename clean_lines linenum ci =
     res_bind (check_disallow filename (ci_name ci) (cl_elided clean_lines)
                 (rev [Suc (ci_starting_linenum ci)..<linenum]) False) (\<lambda>disallow.
     res_bind (py_get (cl_elided clean_lines) (int linenum)) (\<lambda>line.
       Inr (disallow @
         (case re_match RE_CLOSING_BRACE line of
            Some indent \<Rightarrow> if length (grp indent 1) \<noteq> ci_class_indent ci
              then [report filename (int linenum) ''whitespace/indent'' 3
                      (''Closing brace should be aligned with beginning of '' @ class_title ci)]
              else []
          | None \<Rightarrow> []))))"

text \<open>\<open>};*\<backslash>s*(//|/\*).*\<backslash>bnamespace\<close> and its three continuations: \<open>\<backslash>b\<close>, \<open>\<backslash>s+NAME[\*/\.\<backslash>\<backslash>\<backslash>s]*$\<close>,
  \<open>[\*/\.\<backslash>\<backslash>\<backslash>s]*$\<close>\<close>

definition namespace_end :: "regex list \<Rightarrow> regex" where
  "namespace_end rest = seqs ([lit ''}'', RStar (lit '';''), RStar ws, RGroup 1 (RAlt (lit ''//'') (lit ''/*'')),
     RStar anyc, RWordB, lit ''namespace''] @ rest)"

definition end_decoration :: regex where
  "end_decoration = RStar (RChar (\<lambda>c. one_of [CHR ''*'', CHR ''/'', CHR ''.'', BS] c \<or> ascii_space c))"

definition RE_ANY_NAMESPACE_END :: regex where
  "RE_ANY_NAMESPACE_END = namespace_end [RWordB]"

definition RE_NAMED_END :: "string \<Rightarrow> regex" where
  "RE_NAMED_END name = namespace_end [RPlus ws, lit name, end_decoration, REol]"

definition RE_ANONYMOUS_END :: regex where
  "RE_ANONYMOUS_END = namespace_end [end_decoration, REol]"

text \<open>\<open>}.*\<backslash>b(namespace anonymous|anonymous namespace)\<backslash>b\<close>\<close>

definition RE_ANONYMOUS_WORDS :: regex where
  "RE_ANONYMOUS_WORDS = seqs [lit ''}'', RStar anyc, RWordB,
     RGroup 1 (RAlt (lit ''namespace anonymous'') (lit ''anonymous namespace'')), RWordB]"

definition CheckEnd_namespace :: "string \<Rightarrow> cleansed_lines \<Rightarrow> nat \<Rightarrow> string \<Rightarrow> nat \<Rightarrow> report list result" where
  "CheckEnd_namespace filename clean_lines linenum name starting_linenum =
     res_map (\<lambda>line.
       let rep = (\<lambda>msg. [report filename (int linenum) ''readability/namespace'' 5 msg]) in
       if int linenum - int starting_linenum < 10 \<and> \<not> matches RE_ANY_NAMESPACE_END line then []
       else if name \<noteq> [] then
         (if \<not> matches (RE_NAMED_END name) line
          then rep (''Namespace should be terminated with '' @ [DQ] @ ''// namespace '' @ name @ [DQ]) else [])
       else if \<not> matches RE_ANONYMOUS_END line then
         (if matches RE_ANONYMOUS_WORDS line
          then rep (''Anonymous namespace should be terminated with '' @ [DQ] @ ''// namespace'' @ [DQ] @
                 '' or '' @ [DQ] @ ''// anonymous namespace'' @ [DQ])
          else rep (''Anonymous namespace should be terminated with '' @ [DQ] @ ''// namespace'' @ [DQ]))
       else [])
     (py_get (cl_raw_lines clean_lines) (int linenum))"

definition CheckEnd :: "string \<Rightarrow> cleansed_lines \<Rightarrow> nat \<Rightarrow> block \<Rightarrow> report list result" where
  "CheckEnd filename clean_lines linenum b =
     (case kind b of
        Class ci \<Rightarrow> CheckEnd_class filename clean_lines linenum ci
      | Namespace name start \<Rightarrow> CheckEnd_namespace filename clean_lines linenum name start
      | _ \<Rightarrow> Inr [])"

section \<open>The state\<close>

record pp_info =
  stack_before_if :: "block list"
  stack_before_else :: "block list"
  seen_else :: bool

record nesting =
  stack_of :: "block list"
  previous_stack_top :: "block option"
  pp_stack :: "pp_info list"
  next_id :: nat

definition init_nesting :: nesting where
  "init_nesting = \<lparr>stack_of = [], previous_stack_top = None, pp_stack = [], next_id = 0\<rparr>"

fun top_satisfies :: "(block \<Rightarrow> bool) \<Rightarrow> block list \<Rightarrow> bool" where
  "top_satisfies P [] = False"
| "top_satisfies P (b # bs) = P b"

definition SeenOpenBrace :: "nesting \<Rightarrow> bool" where
  "SeenOpenBrace s \<longleftrightarrow> stack_of s = [] \<or> seen_open_brace (hd (stack_of s))"

definition InNamespaceBody :: "nesting \<Rightarrow> bool" where
  "InNamespaceBody s = top_satisfies (\<lambda>b. is_namespace (kind b)) (stack_of s)"

definition InExternC :: "nesting \<Rightarrow> bool" where
  "InExternC s = top_satisfies (\<lambda>b. kind b = ExternC) (stack_of s)"

definition InClassDeclaration :: "nesting \<Rightarrow> bool" where
  "InClassDeclaration s = top_satisfies (\<lambda>b. is_class (kind b)) (stack_of s)"

definition InAsmBlock :: "nesting \<Rightarrow> bool" where
  "InAsmBlock s = top_satisfies (\<lambda>b. inline_asm b \<noteq> NO_ASM) (stack_of s)"

text \<open>\<open>copy.deepcopy(stack)\<close>: equal blocks with new identities.\<close>

fun deepcopy :: "block list \<Rightarrow> nat \<Rightarrow> block list" where
  "deepcopy [] n = []"
| "deepcopy (b # bs) n = b\<lparr>b_id := n\<rparr> # deepcopy bs (Suc n)"

section \<open>Template arguments\<close>

text \<open>\<open>^[^{};=\[\]\.<>]*(.)\<close>\<close>

definition RE_TEMPLATE_TOKEN :: regex where
  "RE_TEMPLATE_TOKEN = seqs [RBol, RStar (noneof ''{};=[].<>''), RGroup 1 anyc]"

lemma RE_TEMPLATE_TOKEN_match:
  assumes "re_match RE_TEMPLATE_TOKEN s = Some m"
  obtains h c t where "s = h @ c # t" "grp m 0 = h @ [c]" "grp m 1 = [c]"
proof -
  from assms obtain u v cs where path: "(([], s, []), (u, v, cs)) \<in> paths RE_TEMPLATE_TOKEN"
    and m: "m = \<lparr>mo_string = s, mo_start = 0, mo_end = length u, mo_caps = cs\<rparr>"
    by (rule re_match_path)
  from path obtain h c where s: "s = h @ c # v" "u = c # rev h" "cs = [(1, length h, Suc (length h))]"
    by (auto simp: RE_TEMPLATE_TOKEN_def rx_simps)
  then show ?thesis using that[of h c v] by (simp add: m grp_def mgroup_def)
qed

text \<open>A same-line result of \<open>CloseExpression\<close> lies behind the opening bracket.\<close>

lemma CloseExpression_progress:
  assumes "CloseExpression E n p = Inr (l, m, q)" "n < length E" "p < length (E ! n)" "\<not> q < 0"
  shows "n \<le> m \<and> m < length E \<and> q \<le> int (length (E ! m)) \<and> (m = n \<longrightarrow> int p < q)"
  using assms(2,3)
proof (cases rule: CloseExpression_cases)
  case (none l')
  with assms(1,4) show ?thesis by simp
next
  case (found m' q')
  from found(1) assms(1) have "m' = m" "q = int q'" by auto
  with found(2-6,7) show ?thesis by auto
qed

function InTemplateArgumentList :: "cleansed_lines \<Rightarrow> nat \<Rightarrow> nat \<Rightarrow> bool result" where
  "InTemplateArgumentList clean_lines linenum pos =
     (if linenum < NumLines clean_lines then
        (case py_get (cl_elided clean_lines) (int linenum) of
           Inl e \<Rightarrow> Inl e
         | Inr line \<Rightarrow>
             (case re_match RE_TEMPLATE_TOKEN (drop pos line) of
                None \<Rightarrow> InTemplateArgumentList clean_lines (linenum + 1) 0
              | Some match \<Rightarrow>
                  (if grp match 1 \<in> set [''{'', ''}'', '';''] then Inr False
                   else if grp match 1 \<in> set [''>'', ''='', ''['', '']'', ''.''] then Inr True
                   else if grp match 1 \<noteq> ''<'' then
                     (if length line \<le> pos + length (grp match 0) + 1
                      then InTemplateArgumentList clean_lines (linenum + 1) 0
                      else InTemplateArgumentList clean_lines linenum (pos + length (grp match 0) + 1))
                   else
                     (case CloseExpression (cl_elided clean_lines) linenum (pos + length (grp match 0) - 1) of
                        Inl e \<Rightarrow> Inl e
                      | Inr (l, end_line, end_pos) \<Rightarrow>
                          if end_pos < 0 then Inr False
                          else InTemplateArgumentList clean_lines end_line (nat end_pos)))))
      else Inr False)"
  by pat_completeness auto

lemma template_token_bounds:
  assumes "re_match RE_TEMPLATE_TOKEN (drop pos line) = Some m"
  shows "0 < length (grp m 0) \<and> pos + length (grp m 0) \<le> length line"
proof -
  from assms obtain h c t where "drop pos line = h @ c # t" "grp m 0 = h @ [c]"
    by (rule RE_TEMPLATE_TOKEN_match)
  moreover from this(1) have "length line - pos = length (h @ c # t)"
    using length_drop[of pos line] by simp
  ultimately show ?thesis by simp
qed

lemma py_get_nat: "py_get xs (int i) = Inr x \<longleftrightarrow> i < length xs \<and> x = xs ! i"
  by (cases "i < length xs") auto

termination InTemplateArgumentList
proof (relation "(\<lambda>(cl, n, p). NumLines cl - n) <*mlex*> measure (\<lambda>(cl, n, p). length (cl_elided cl ! n) - p)", goal_cases)
  case 1
  show ?case by (intro wf_mlex) simp
next
  case (2 cl n pos line)
  then show ?case by (intro mlex_less) simp
next
  case (3 cl n pos line m)
  then show ?case by (intro mlex_less) simp
next
  case (4 cl n pos line m)
  then show ?case
    using template_token_bounds[of pos line m] by (intro mlex_leq) (auto simp: py_get_nat)
next
  case (5 cl n pos line m x l y end_line end_pos)
  from 5 have n: "n < length (cl_elided cl)" "line = cl_elided cl ! n" by (auto simp: py_get_nat)
  from template_token_bounds[OF 5(3)] have t: "0 < length (grp m 0)" "pos + length (grp m 0) \<le> length line" by auto
  from 5 have close: "CloseExpression (cl_elided cl) n (pos + length (grp m 0) - 1) = Inr (l, end_line, end_pos)"
    and pos: "\<not> end_pos < 0" by auto
  have "pos + length (grp m 0) - 1 < length (cl_elided cl ! n)"
    using t n(2) by (metis Suc_diff_1 Suc_le_eq add_gr_0)
  from CloseExpression_progress[OF close n(1) this pos]
  have p: "n \<le> end_line" "end_line = n \<longrightarrow> int (pos + length (grp m 0) - 1) < end_pos" by blast+
  show ?case
  proof (cases "end_line = n")
    case True
    with p(2) t(1) have "pos < nat end_pos" by linarith
    moreover have "pos < length (cl_elided cl ! n)" using t unfolding n(2) by linarith
    ultimately show ?thesis using True by (intro mlex_leq) auto
  next
    case False
    with p 5(1) show ?thesis by (intro mlex_less) simp
  qed
qed

declare InTemplateArgumentList.simps [simp del]

section \<open>Preprocessor\<close>

text \<open>\<open>^\<backslash>s*#\<backslash>s*(WORD|...)\<backslash>b\<close>\<close>

definition RE_DIRECTIVE :: "string list \<Rightarrow> regex" where
  "RE_DIRECTIVE words = seqs [RBol, RStar ws, chr (CHR ''#''), RStar ws, RGroup 1 (alts (map lit words)), RWordB]"

definition RE_IF :: regex where "RE_IF = RE_DIRECTIVE [''if'', ''ifdef'', ''ifndef'']"
definition RE_ELSE :: regex where "RE_ELSE = RE_DIRECTIVE [''else'', ''elif'']"
definition RE_ENDIF :: regex where "RE_ENDIF = RE_DIRECTIVE [''endif'']"

definition UpdatePreprocessor :: "string \<Rightarrow> nesting \<Rightarrow> nesting" where
  "UpdatePreprocessor line s =
     (let n = next_id s; k = length (stack_of s) in
      if matches RE_IF line then
        s\<lparr>pp_stack := \<lparr>stack_before_if = deepcopy (stack_of s) n, stack_before_else = [], seen_else = False\<rparr> # pp_stack s,
          next_id := n + k\<rparr>
      else if matches RE_ELSE line then
        (case pp_stack s of
           [] \<Rightarrow> s
         | pp # pps \<Rightarrow>
             (let pp' = (if seen_else pp then pp
                         else pp\<lparr>seen_else := True, stack_before_else := deepcopy (stack_of s) n\<rparr>)
              in s\<lparr>pp_stack := pp' # pps, stack_of := deepcopy (stack_before_if pp) (n + k),
                   next_id := n + k + length (stack_before_if pp)\<rparr>))
      else if matches RE_ENDIF line then
        (case pp_stack s of
           [] \<Rightarrow> s
         | pp # pps \<Rightarrow> s\<lparr>stack_of := (if seen_else pp then stack_before_else pp else stack_of s), pp_stack := pps\<rparr>)
      else s)"

text \<open>A directive line has one directive word, read off by dropping white space and the \<open>#\<close>.\<close>

definition directive_text :: "string \<Rightarrow> string" where
  "directive_text line = dropWhile ascii_space (tl (dropWhile ascii_space line))"

lemma directive_matches:
  assumes "matches (RE_DIRECTIVE words) line" "list_all (\<lambda>w. w \<noteq> [] \<and> \<not> ascii_space (hd w)) words"
  shows "\<exists>w\<in>set words. startswith (directive_text line) w"
proof -
  from assms(1) obtain a b w r where l: "line = a @ CHR ''#'' # b @ w @ r"
    and ab: "list_all ascii_space a" "list_all ascii_space b" and w: "w \<in> set words"
    by (auto simp: matches_iff RE_DIRECTIVE_def rx_simps list_ex_iff one_of_def)
  from w assms(2) have "w \<noteq> []" "\<not> ascii_space (hd w)" by (auto simp: list_all_iff)
  moreover have "dropWhile ascii_space line = CHR ''#'' # b @ w @ r"
    unfolding l using ab(1) by (subst dropWhile_append2) (auto simp: list_all_iff ascii_space_def)
  ultimately have "directive_text line = w @ r"
    unfolding directive_text_def using ab(2) by (cases w) (auto simp: list_all_iff dropWhile_append)
  then show ?thesis by (intro bexI[OF _ w]) simp
qed

lemma directives_differ:
  "matches RE_ELSE l \<Longrightarrow> \<not> matches RE_IF l" "matches RE_ENDIF l \<Longrightarrow> \<not> matches RE_IF l"
  "matches RE_ENDIF l \<Longrightarrow> \<not> matches RE_ELSE l"
proof -
  let ?t = "directive_text l"
  have i: "take 1 ?t = ''i''" if "matches RE_IF l"
    using directive_matches[OF that[unfolded RE_IF_def]] by (auto simp: ascii_space_def prefix_def)
  have el: "take 2 ?t = ''el''" if "matches RE_ELSE l"
    using directive_matches[OF that[unfolded RE_ELSE_def]] by (auto simp: ascii_space_def prefix_def)
  have en: "take 2 ?t = ''en''" if "matches RE_ENDIF l"
    using directive_matches[OF that[unfolded RE_ENDIF_def]] by (auto simp: ascii_space_def prefix_def)
  have one: "take 1 ?t = take 1 (take 2 ?t)" by simp
  show "matches RE_ELSE l \<Longrightarrow> \<not> matches RE_IF l" using i el one by force
  show "matches RE_ENDIF l \<Longrightarrow> \<not> matches RE_IF l" using i en one by force
  show "matches RE_ENDIF l \<Longrightarrow> \<not> matches RE_ELSE l" using el en by force
qed

text \<open>Blocks without their identities.\<close>

definition contents :: "block list \<Rightarrow> block list" where
  "contents bs = map (\<lambda>b. b\<lparr>b_id := 0\<rparr>) bs"

lemma contents_deepcopy [simp]: "contents (deepcopy bs n) = contents bs"
  by (induction bs n rule: deepcopy.induct) (simp_all add: contents_def)

text \<open>The branches after the first: each begins with an \<open>#else\<close> or \<open>#elif\<close> line and leaves some stack.\<close>

fun run_branches :: "(string \<times> block list \<times> nat) list \<Rightarrow> nesting \<Rightarrow> nesting" where
  "run_branches [] s = s"
| "run_branches ((l, b, n) # bs) s = run_branches bs ((UpdatePreprocessor l s)\<lparr>stack_of := b, next_id := n\<rparr>)"

lemma else_restores:
  assumes "matches RE_ELSE l" "pp_stack s = pp # pps"
  shows "contents (stack_of (UpdatePreprocessor l s)) = contents (stack_before_if pp)"
    and "pp_stack (UpdatePreprocessor l s) =
      (if seen_else pp then pp else pp\<lparr>seen_else := True, stack_before_else := deepcopy (stack_of s) (next_id s)\<rparr>) # pps"
  using assms directives_differ(1)[OF assms(1)] by (simp_all add: UpdatePreprocessor_def Let_def)

lemma run_branches_kept:
  "list_all (\<lambda>(l, b, n). matches RE_ELSE l) bs \<Longrightarrow> pp_stack s = pp # pps \<Longrightarrow> seen_else pp \<Longrightarrow>
   pp_stack (run_branches bs s) = pp # pps"
proof (induction bs arbitrary: s)
  case Nil
  then show ?case by simp
next
  case (Cons br bs)
  obtain l b n where br: "br = (l, b, n)" by (cases br)
  with Cons.prems else_restores(2)[of l s pp pps] show ?case
    by (simp add: br) (rule Cons.IH, auto)
qed



section \<open>The steps of Update\<close>

text \<open>\<open>^\<backslash>s*(?:asm|_asm|__asm|__asm__)(?:\<backslash>s+(volatile|__volatile__))?\<backslash>s*[{(]\<close>\<close>

definition RE_MATCH_ASM :: regex where
  "RE_MATCH_ASM = seqs [RBol, RStar ws, alts (map lit [''asm'', ''_asm'', ''__asm'', ''__asm__'']),
     ROpt (RSeq (RPlus ws) (RGroup 1 (RAlt (lit ''volatile'') (lit ''__volatile__'')))), RStar ws, oneof ''{('']"

definition count_parentheses :: "string \<Rightarrow> block \<Rightarrow> block" where
  "count_parentheses line b =
     (let depth_change = int (py_count ''('' line) - int (py_count '')'' line);
          b = b\<lparr>open_parentheses := open_parentheses b + depth_change\<rparr>
      in if inline_asm b \<in> {NO_ASM, END_ASM} then
           (if depth_change \<noteq> 0 \<and> open_parentheses b = 1 \<and> matches RE_MATCH_ASM line
            then b\<lparr>inline_asm := INSIDE_ASM\<rparr> else b\<lparr>inline_asm := NO_ASM\<rparr>)
         else if inline_asm b = INSIDE_ASM \<and> open_parentheses b = 0 then b\<lparr>inline_asm := END_ASM\<rparr>
         else b)"

fun map_top :: "(block \<Rightarrow> block) \<Rightarrow> block list \<Rightarrow> block list" where
  "map_top f [] = []"
| "map_top f (b # bs) = f b # bs"

definition push :: "block \<Rightarrow> nesting \<Rightarrow> nesting" where
  "push b s = s\<lparr>stack_of := b # stack_of s, next_id := Suc (next_id s)\<rparr>"

text \<open>\<open>^\<backslash>s*namespace\<backslash>b\<backslash>s*([:\<backslash>w]+)?(.*)$\<close>\<close>

definition RE_NAMESPACE_NAME :: regex where
  "RE_NAMESPACE_NAME = ROpt (RGroup 1 (RPlus (RChar (\<lambda>c. c = CHR '':'' \<or> word_char c))))"

definition RE_NAMESPACE :: regex where
  "RE_NAMESPACE = seqs [RBol, RStar ws, lit ''namespace'', RWordB, RStar ws, RE_NAMESPACE_NAME, RGroup 2 (RStar anyc), REol]"

lemma RE_NAMESPACE_shorter:
  assumes "re_match RE_NAMESPACE line = Some m"
  shows "length (grp m 2) < length line"
proof -
  from assms obtain u v cs where path: "(([], line, []), (u, v, cs)) \<in> paths RE_NAMESPACE"
    and m: "m = \<lparr>mo_string = line, mo_start = 0, mo_end = length u, mo_caps = cs\<rparr>"
    by (rule re_match_path)
  from path obtain w i y x y' ds t where l: "line = w @ ''namespace'' @ i @ y"
    and p: "((rev (w @ ''namespace'' @ i), y, []), (x, y', ds)) \<in> paths RE_NAMESPACE_NAME"
    and t: "y' = t @ v" and cs: "cs = (2, length x, length t + length x) # ds"
    unfolding RE_NAMESPACE_def by (fastforce simp: rx_simps one_of_def)
  from p obtain k where k: "y = k @ y'" "x = rev k @ rev (w @ ''namespace'' @ i)" by (rule paths_split)
  have "line = rev x @ t @ v" "0 < length x" using l k t by simp_all
  then show ?thesis by (simp add: m cs grp_def mgroup_def)
qed

function consume_namespaces :: "nat \<Rightarrow> string \<Rightarrow> nesting \<Rightarrow> string \<times> nesting" where
  "consume_namespaces linenum line s =
     (case re_match RE_NAMESPACE line of
        None \<Rightarrow> (line, s)
      | Some m \<Rightarrow>
          (case find_nat ''{'' (grp m 2) of
             None \<Rightarrow> consume_namespaces linenum (grp m 2) (push (new_NamespaceInfo (next_id s) (mgroup m 1) linenum) s)
           | Some k \<Rightarrow> consume_namespaces linenum (drop (k + 1) (grp m 2))
               (push ((new_NamespaceInfo (next_id s) (mgroup m 1) linenum)\<lparr>seen_open_brace := True\<rparr>) s)))"
  by pat_completeness auto
termination
proof (relation "measure (\<lambda>(n, line, s). length line)", goal_cases)
  case (2 n line s m)
  then show ?case using RE_NAMESPACE_shorter[of line m] by simp
next
  case (3 n line s m k)
  then show ?case using RE_NAMESPACE_shorter[of line m] by simp
qed simp

declare consume_namespaces.simps [simp del]

text \<open>\<open>^(\<backslash>s*(?:template\<backslash>s*<[\<backslash>w\<backslash>s<>,:]*>\<backslash>s*)?(class|struct)\<backslash>s+(?:[A-Z_]+\<backslash>s+)*(\<backslash>w+(?:::\<backslash>w+)*))(.*)$\<close>\<close>

definition RE_CLASS_DECL :: regex where
  "RE_CLASS_DECL = seqs [RBol, RGroup 1 (seqs [RStar ws,
     ROpt (seqs [lit ''template'', RStar ws, lit ''<'', RStar (RChar (\<lambda>c. word_char c \<or> ascii_space c \<or> one_of ''<>,:'' c)),
       lit ''>'', RStar ws]),
     RGroup 2 (RAlt (lit ''class'') (lit ''struct'')), RPlus ws,
     RStar (RSeq (RPlus (RChar (\<lambda>c. upper_char c \<or> c = CHR ''_''))) (RPlus ws)),
     RGroup 3 (RSeq (RPlus wordc) (RStar (RSeq (lit ''::'') (RPlus wordc))))]), RGroup 4 (RStar anyc), REol]"

definition enter_class :: "cleansed_lines \<Rightarrow> nat \<Rightarrow> string \<Rightarrow> nesting \<Rightarrow> (string \<times> nesting) result" where
  "enter_class clean_lines linenum line s =
     (case re_match RE_CLASS_DECL line of
        Some m \<Rightarrow>
          if stack_of s = [] \<or> open_parentheses (hd (stack_of s)) = 0 then
            res_bind (InTemplateArgumentList clean_lines linenum (length (grp m 1))) (\<lambda>in_template.
              if \<not> in_template then
                res_map (\<lambda>b. (grp m 4, push b s)) (new_ClassInfo (next_id s) (grp m 3) (grp m 2) clean_lines linenum)
              else Inr (line, s))
          else Inr (line, s)
      | None \<Rightarrow> Inr (line, s))"

definition begin_block :: "cleansed_lines \<Rightarrow> nat \<Rightarrow> nesting \<Rightarrow> nesting result" where
  "begin_block clean_lines linenum s =
     (if \<not> SeenOpenBrace s
      then res_map (\<lambda>b. s\<lparr>stack_of := b # tl (stack_of s)\<rparr>) (CheckBegin clean_lines linenum (hd (stack_of s)))
      else Inr s)"

text \<open>\<open>^(.*)\<backslash>b(public|private|protected|signals)(\<backslash>s+(?:slots\<backslash>s*)?)?:(?:[^:]|$)\<close>\<close>

definition RE_ACCESS :: regex where
  "RE_ACCESS = seqs [RBol, RGroup 1 (RStar anyc), RWordB,
     RGroup 2 (alts (map lit [''public'', ''private'', ''protected'', ''signals''])),
     ROpt (RGroup 3 (RSeq (RPlus ws) (ROpt (RSeq (lit ''slots'') (RStar ws))))), lit '':'', RAlt (noneof '':'') REol]"

definition update_access :: "string \<Rightarrow> nat \<Rightarrow> string \<Rightarrow> nesting \<Rightarrow> report list \<times> nesting" where
  "update_access filename linenum line s =
     (case stack_of s of
        [] \<Rightarrow> ([], s)
      | b # bs \<Rightarrow>
          (case kind b of
             Class ci \<Rightarrow>
               (case re_match RE_ACCESS line of
                  None \<Rightarrow> ([], s)
                | Some m \<Rightarrow>
                    (if length (grp m 1) \<noteq> ci_class_indent ci + 1 \<and> matches RE_BLANK (grp m 1)
                     then [report filename (int linenum) ''whitespace/indent'' 3
                             (grp m 2 @ grp m 3 @ '': should be indented +1 space inside '' @ class_title ci)]
                     else [],
                     s\<lparr>stack_of := b\<lparr>kind := Class (ci\<lparr>ci_access := grp m 2\<rparr>)\<rparr> # bs\<rparr>))
           | _ \<Rightarrow> ([], s)))"

text \<open>\<open>^[^{;)}]*([{;)}])(.*)$\<close> and \<open>^extern\<backslash>s*"[^"]*"\<backslash>s*\{\<close>\<close>

definition RE_BRACE :: regex where
  "RE_BRACE = seqs [RBol, RStar (noneof ''{;)}''), RGroup 1 (oneof ''{;)}''), RGroup 2 (RStar anyc), REol]"

definition RE_EXTERN :: regex where
  "RE_EXTERN = seqs [RBol, lit ''extern'', RStar ws, chr DQ, RStar (noneof [DQ]), chr DQ, RStar ws, lit ''{'']"

lemma RE_BRACE_match:
  assumes "re_match RE_BRACE s = Some m"
  obtains h c t z where "s = h @ c # t @ z" "c \<in> set ''{;)}''" "list_all (none_of ''{;)}'') h"
    "grp m 1 = [c]" "grp m 2 = t" "z = [] \<or> z = [NL]"
proof -
  from assms obtain u v cs where path: "(([], s, []), (u, v, cs)) \<in> paths RE_BRACE"
    and m: "m = \<lparr>mo_string = s, mo_start = 0, mo_end = length u, mo_caps = cs\<rparr>"
    by (rule re_match_path)
  from path obtain h c t where s: "s = h @ c # t @ v" "list_all (none_of ''{;)}'') h" "one_of ''{;)}'' c" "at_eol v"
    and cs: "cs = [(2, length (h @ [c]), length (h @ c # t)), (1, length h, length (h @ [c]))]"
    by (auto simp: RE_BRACE_def rx_simps)
  have "grp m 1 = [c]" "grp m 2 = t" using s(1) by (simp_all add: m cs grp_def mgroup_def)
  moreover have "v = [] \<or> v = [NL]" using s(4) by (cases v) auto
  ultimately show ?thesis using that s by (auto simp: one_of_def)
qed

text \<open>One token: the reports and the state after it.\<close>

definition brace_token :: "string \<Rightarrow> cleansed_lines \<Rightarrow> nat \<Rightarrow> string \<Rightarrow> string \<Rightarrow> nesting \<Rightarrow> (report list \<times> nesting) result" where
  "brace_token filename clean_lines linenum token line s =
     (if token = ''{'' then
        Inr ([], if \<not> SeenOpenBrace s then s\<lparr>stack_of := map_top (\<lambda>b. b\<lparr>seen_open_brace := True\<rparr>) (stack_of s)\<rparr>
                 else if matches RE_EXTERN line then push (new_ExternCInfo (next_id s)) s
                 else push ((new_BlockInfo (next_id s) True)\<lparr>inline_asm := if matches RE_MATCH_ASM line then BLOCK_ASM else NO_ASM\<rparr>) s)
      else if token = '';'' \<or> token = '')'' then
        Inr ([], if \<not> SeenOpenBrace s then s\<lparr>stack_of := tl (stack_of s)\<rparr> else s)
      else (case stack_of s of
              [] \<Rightarrow> Inr ([], s)
            | b # bs \<Rightarrow> res_map (\<lambda>rs. (rs, s\<lparr>stack_of := bs\<rparr>)) (CheckEnd filename clean_lines linenum b)))"

function consume_braces :: "string \<Rightarrow> cleansed_lines \<Rightarrow> nat \<Rightarrow> string \<Rightarrow> nesting \<Rightarrow> (report list \<times> nesting) result" where
  "consume_braces filename clean_lines linenum line s =
     (case re_match RE_BRACE line of
        None \<Rightarrow> Inr ([], s)
      | Some matched \<Rightarrow>
          (case brace_token filename clean_lines linenum (grp matched 1) line s of
             Inl e \<Rightarrow> Inl e
           | Inr (rs, s') \<Rightarrow>
               res_map (\<lambda>(rs', s''). (rs @ rs', s'')) (consume_braces filename clean_lines linenum (grp matched 2) s')))"
  by pat_completeness auto
termination
proof (relation "measure (\<lambda>(f, cl, n, line, s). length line)", goal_cases)
  case (2 f cl n line s m x rs s')
  from 2(1) obtain h c t z where "line = h @ c # t @ z" "grp m 2 = t" by (rule RE_BRACE_match)
  then show ?case by simp
qed simp

declare consume_braces.simps [simp del]

definition Update :: "string \<Rightarrow> cleansed_lines \<Rightarrow> nat \<Rightarrow> nesting \<Rightarrow> (report list \<times> nesting) result" where
  "Update filename clean_lines linenum s =
     res_bind (py_get (cl_elided clean_lines) (int linenum)) (\<lambda>line.
       let s = s\<lparr>previous_stack_top := (case stack_of s of [] \<Rightarrow> None | b # bs \<Rightarrow> Some b)\<rparr>;
           s = UpdatePreprocessor line s;
           s = s\<lparr>stack_of := map_top (count_parentheses line) (stack_of s)\<rparr>
       in case consume_namespaces linenum line s of (line, s) \<Rightarrow>
          res_bind (enter_class clean_lines linenum line s) (\<lambda>(line, s).
          res_bind (begin_block clean_lines linenum s) (\<lambda>s.
          case update_access filename linenum line s of (access, s) \<Rightarrow>
          res_map (\<lambda>(rs, s). (access @ rs, s)) (consume_braces filename clean_lines linenum line s))))"

fun innermost_class :: "block list \<Rightarrow> class_info option" where
  "innermost_class [] = None"
| "innermost_class (b # bs) = (case kind b of Class ci \<Rightarrow> Some ci | _ \<Rightarrow> innermost_class bs)"

definition InnermostClass :: "nesting \<Rightarrow> class_info option" where
  "InnermostClass s = innermost_class (stack_of s)"

text \<open>The source goes through the stack from the bottom.\<close>

definition CheckCompletedBlocks :: "string \<Rightarrow> nesting \<Rightarrow> report list" where
  "CheckCompletedBlocks filename s =
     concat (map (\<lambda>b. case kind b of
         Class ci \<Rightarrow> [report filename (int (ci_starting_linenum ci)) ''build/class'' 5
                        (''Failed to find complete declaration of class '' @ ci_name ci)]
       | Namespace name start \<Rightarrow> [report filename (int start) ''build/namespaces'' 5
                        (''Failed to find complete declaration of namespace '' @ name)]
       | _ \<Rightarrow> []) (rev (stack_of s)))"

section \<open>Indentation inside namespaces\<close>

text \<open>\<open>^#define\<close>, \<open>\<backslash>\<backslash>$\<close>, \<open>^\<backslash>s*(\<backslash>btemplate\<backslash>b)*.*class\<backslash>s+\<backslash>w+;\<backslash>s*$\<close>, \<open>^\<backslash>s+\<close>\<close>

definition RE_DEFINE :: regex where
  "RE_DEFINE = RSeq RBol (lit ''#define'')"

definition RE_CONTINUATION :: regex where
  "RE_CONTINUATION = RSeq (chr BS) REol"

definition RE_FORWARD_CLASS :: regex where
  "RE_FORWARD_CLASS = seqs [RBol, RStar ws, RStar (RGroup 1 (seqs [RWordB, lit ''template'', RWordB])), RStar anyc,
     lit ''class'', RPlus ws, RPlus wordc, lit '';'', RStar ws, REol]"

definition RE_INDENTED :: regex where
  "RE_INDENTED = RSeq RBol (RPlus ws)"

definition IsMacroDefinition :: "string list \<Rightarrow> nat \<Rightarrow> bool result" where
  "IsMacroDefinition E linenum =
     res_bind (py_get E (int linenum)) (\<lambda>line.
       if searches RE_DEFINE line then Inr True
       else if 0 < linenum then res_map (searches RE_CONTINUATION) (py_get E (int linenum - 1))
       else Inr False)"

definition IsForwardClassDeclaration :: "string list \<Rightarrow> nat \<Rightarrow> bool result" where
  "IsForwardClassDeclaration E linenum = res_map (matches RE_FORWARD_CLASS) (py_get E (int linenum))"

fun IsBlockInNameSpace_stack :: "block list \<Rightarrow> bool \<Rightarrow> bool" where
  "IsBlockInNameSpace_stack [] is_forward = False"
| "IsBlockInNameSpace_stack [b] is_forward = (is_forward \<and> is_namespace (kind b))"
| "IsBlockInNameSpace_stack (b # c # bs) is_forward =
     (if is_forward then is_namespace (kind b) else check_namespace_indentation b \<and> is_namespace (kind c))"

definition IsBlockInNameSpace :: "nesting \<Rightarrow> bool \<Rightarrow> bool" where
  "IsBlockInNameSpace s is_forward_declaration = IsBlockInNameSpace_stack (stack_of s) is_forward_declaration"

definition ShouldCheckNamespaceIndentation :: "nesting \<Rightarrow> bool \<Rightarrow> string list \<Rightarrow> nat \<Rightarrow> bool result" where
  "ShouldCheckNamespaceIndentation s is_namespace_indent_item E linenum =
     res_bind (IsForwardClassDeclaration E linenum) (\<lambda>is_forward_declaration.
       if \<not> (is_namespace_indent_item \<or> is_forward_declaration) then Inr False
       else res_map (\<lambda>macro. if macro then False else IsBlockInNameSpace s is_forward_declaration)
              (IsMacroDefinition E linenum))"

definition CheckItemIndentationInNamespace :: "string \<Rightarrow> string list \<Rightarrow> nat \<Rightarrow> report list result" where
  "CheckItemIndentationInNamespace filename E linenum =
     res_map (\<lambda>line. if matches RE_INDENTED line
         then [report filename (int linenum) ''runtime/indentation_namespace'' 4 ''Do not indent within a namespace'']
         else [])
       (py_get E (int linenum))"

definition is_namespace_indent_item :: "nesting \<Rightarrow> bool" where
  "is_namespace_indent_item s \<longleftrightarrow>
     (case stack_of s of
        b # c # bs \<Rightarrow> check_namespace_indentation b \<and>
          (case previous_stack_top s of
             None \<Rightarrow> False
           | Some p \<Rightarrow> is_namespace (kind p) \<and> b_id p = b_id c)
      | _ \<Rightarrow> False)"

definition CheckForNamespaceIndentation :: "string \<Rightarrow> nesting \<Rightarrow> cleansed_lines \<Rightarrow> nat \<Rightarrow> report list result" where
  "CheckForNamespaceIndentation filename s clean_lines line =
     res_bind (ShouldCheckNamespaceIndentation s (is_namespace_indent_item s) (cl_elided clean_lines) line) (\<lambda>check.
       if check then CheckItemIndentationInNamespace filename (cl_elided clean_lines) line else Inr [])"

section \<open>Update always returns\<close>

text \<open>The copies of the file that the checks work on, as \<open>CleansedLines\<close> builds them.\<close>

definition well_formed :: "cleansed_lines \<Rightarrow> bool" where
  "well_formed cl \<longleftrightarrow> length (cl_elided cl) = NumLines cl \<and> length (cl_lines cl) = NumLines cl \<and>
     length (cl_raw_lines cl) = NumLines cl \<and> length (cl_lines_without_raw_strings cl) = NumLines cl"

lemma InTemplateArgumentList_returns:
  "well_formed cl \<Longrightarrow> \<exists>b. InTemplateArgumentList cl n p = Inr b"
proof (induction cl n p rule: InTemplateArgumentList.induct)
  case (1 cl n p)
  note IH = "1.IH" and wf = "1.prems"
  show ?case
  proof (cases "n < NumLines cl")
    case False
    then show ?thesis by (subst InTemplateArgumentList.simps) auto
  next
    case n: True
    let ?line = "cl_elided cl ! n"
    from n wf have len: "n < length (cl_elided cl)" by (simp add: well_formed_def)
    then have line: "py_get (cl_elided cl) (int n) = Inr ?line" by simp
    show ?thesis
    proof (cases "re_match RE_TEMPLATE_TOKEN (drop p ?line)")
      case None
      from IH(1)[OF n line None wf] show ?thesis
        by (subst InTemplateArgumentList.simps) (simp add: n line None)
    next
      case m: (Some m)
      from template_token_bounds[OF m] have b: "0 < length (grp m 0)" "p + length (grp m 0) \<le> length ?line" by auto
      consider "grp m 1 \<in> set [''{'', ''}'', '';'']"
        | "grp m 1 \<notin> set [''{'', ''}'', '';'']" "grp m 1 \<in> set [''>'', ''='', ''['', '']'', ''.'']"
        | "grp m 1 \<notin> set [''{'', ''}'', '';'']" "grp m 1 \<notin> set [''>'', ''='', ''['', '']'', ''.'']" "grp m 1 \<noteq> ''<''"
        | "grp m 1 = ''<''" by fastforce
      then show ?thesis
      proof cases
        case 1
        then show ?thesis by (subst InTemplateArgumentList.simps) (simp only: n line m if_True sum.case option.case, auto)
      next
        case 2
        then show ?thesis by (subst InTemplateArgumentList.simps) (simp only: n line m if_True if_False sum.case option.case, auto)
      next
        case 3
        show ?thesis
        proof (cases "length ?line \<le> p + length (grp m 0) + 1")
          case True
          from IH(2)[OF n line m 3(1,2,3) True wf] 3 True show ?thesis
            by (subst InTemplateArgumentList.simps) (simp only: n line m if_True if_False sum.case option.case not_False_eq_True)
        next
          case False
          from IH(3)[OF n line m 3(1,2,3) False wf] 3 False show ?thesis
            by (subst InTemplateArgumentList.simps) (simp only: n line m if_True if_False sum.case option.case not_False_eq_True)
        qed
      next
        case 4
        then have t: "grp m 1 \<notin> set [''{'', ''}'', '';'']" "grp m 1 \<notin> set [''>'', ''='', ''['', '']'', ''.'']" "\<not> grp m 1 \<noteq> ''<''"
          by simp_all
        have pos: "p + length (grp m 0) - 1 < length ?line" using b by linarith
        have "\<exists>l k q. CloseExpression (cl_elided cl) n (p + length (grp m 0) - 1) = Inr (l, k, q)"
          by (rule CloseExpression_cases[OF len pos]) blast+
        then obtain l k q where c: "CloseExpression (cl_elided cl) n (p + length (grp m 0) - 1) = Inr (l, k, q)" by blast
        show ?thesis
        proof (cases "q < 0")
          case True
          with t show ?thesis
            by (subst InTemplateArgumentList.simps) (simp only: n line m c if_True if_False sum.case option.case prod.case, auto)
        next
          case False
          from IH(4)[OF n line m t c refl refl False wf] t False show ?thesis
            by (subst InTemplateArgumentList.simps) (simp only: n line m c if_True if_False sum.case option.case prod.case)
        qed
      qed
    qed
  qed
qed

lemma class_last_line_returns: "list_all (\<lambda>i. i < length E) is \<Longrightarrow> \<exists>n. class_last_line E is d = Inr n"
  by (induction E "is" d rule: class_last_line.induct) (auto simp: Let_def)

lemma check_disallow_returns: "list_all (\<lambda>i. i < length E) is \<Longrightarrow> \<exists>rs. check_disallow fn nm E is b = Inr rs"
  by (induction fn nm E "is" b rule: check_disallow.induct) (auto split: option.split)

lemma CheckEnd_returns:
  assumes "well_formed cl" "n < NumLines cl"
  shows "\<exists>rs. CheckEnd fn cl n b = Inr rs"
proof (cases "kind b")
  case (Class ci)
  have "list_all (\<lambda>i. i < length (cl_elided cl)) (rev [Suc (ci_starting_linenum ci)..<n])"
    using assms by (auto simp: list_all_iff well_formed_def)
  from check_disallow_returns[OF this, of fn "ci_name ci" False] assms Class show ?thesis
    by (auto simp: CheckEnd_def CheckEnd_class_def well_formed_def)
next
  case (Namespace nm st)
  with assms show ?thesis by (simp add: CheckEnd_def CheckEnd_namespace_def well_formed_def)
qed (simp_all add: CheckEnd_def)

lemma brace_token_returns:
  assumes "well_formed cl" "n < NumLines cl"
  shows "\<exists>rs s'. brace_token fn cl n tok line s = Inr (rs, s')"
proof (cases "stack_of s")
  case Nil
  then show ?thesis by (simp add: brace_token_def)
next
  case (Cons b bs)
  with CheckEnd_returns[OF assms, of fn b] show ?thesis by (auto simp: brace_token_def)
qed

lemma consume_braces_returns:
  "well_formed cl \<Longrightarrow> n < NumLines cl \<Longrightarrow> \<exists>rs s'. consume_braces fn cl n line s = Inr (rs, s')"
proof (induction fn cl n line s rule: consume_braces.induct)
  case (1 fn cl n line s)
  show ?case
  proof (cases "re_match RE_BRACE line")
    case None
    then show ?thesis by (subst consume_braces.simps) simp
  next
    case (Some m)
    obtain rs s' where t: "brace_token fn cl n (grp m 1) line s = Inr (rs, s')"
      using brace_token_returns[OF 1(2,3)] by blast
    from 1(1)[OF Some t refl 1(2,3)] obtain rs' s'' where "consume_braces fn cl n (grp m 2) s' = Inr (rs', s'')" by blast
    then show ?thesis by (subst consume_braces.simps) (simp add: Some t[unfolded One_nat_def])
  qed
qed

lemma enter_class_returns:
  assumes "well_formed cl" "n < NumLines cl"
  shows "\<exists>line' s'. enter_class cl n line s = Inr (line', s')"
proof -
  have cls: "\<exists>b. new_ClassInfo i nm cs cl n = Inr b" for i nm cs
    using class_last_line_returns[of "cl_elided cl" "[n..<NumLines cl]" 0] assms
    by (auto simp: new_ClassInfo_def well_formed_def list_all_iff)
  show ?thesis
  proof (cases "re_match RE_CLASS_DECL line")
    case None
    then show ?thesis by (simp add: enter_class_def)
  next
    case (Some m)
    obtain b where "InTemplateArgumentList cl n (length (grp m 1)) = Inr b"
      using InTemplateArgumentList_returns[OF assms(1)] by blast
    moreover obtain c where "new_ClassInfo (next_id s) (grp m 3) (grp m 2) cl n = Inr c" using cls by blast
    ultimately show ?thesis using Some by (cases b) (auto simp: enter_class_def)
  qed
qed

lemma begin_block_returns:
  assumes "well_formed cl" "n < NumLines cl"
  shows "\<exists>s'. begin_block cl n s = Inr s'"
proof -
  have "\<exists>b'. CheckBegin cl n b = Inr b'" for b
    using assms by (cases "kind b") (auto simp: CheckBegin_def well_formed_def)
  then show ?thesis by (fastforce simp: begin_block_def)
qed

lemma Update_total:
  assumes wf: "well_formed cl" and n: "linenum < NumLines cl"
  shows "\<exists>rs s'. Update fn cl linenum s = Inr (rs, s')"
proof -
  have line: "py_get (cl_elided cl) (int linenum) = Inr (cl_elided cl ! linenum)"
    using assms by (simp add: well_formed_def)
  let ?line = "cl_elided cl ! linenum"
  let ?s1 = "UpdatePreprocessor ?line (s\<lparr>previous_stack_top := (case stack_of s of [] \<Rightarrow> None | b # bs \<Rightarrow> Some b)\<rparr>)"
  let ?s2 = "?s1\<lparr>stack_of := map_top (count_parentheses ?line) (stack_of ?s1)\<rparr>"
  obtain l3 s3 where s3: "consume_namespaces linenum ?line ?s2 = (l3, s3)" by fastforce
  obtain l4 s4 where s4: "enter_class cl linenum l3 s3 = Inr (l4, s4)" using enter_class_returns[OF wf n] by blast
  obtain s5 where s5: "begin_block cl linenum s4 = Inr s5"
    using begin_block_returns[OF wf n] by blast
  obtain rs6 s6 where s6: "update_access fn linenum l4 s5 = (rs6, s6)" by fastforce
  obtain rs7 s7 where s7: "consume_braces fn cl linenum l4 s6 = Inr (rs7, s7)"
    using consume_braces_returns[OF wf n] by blast
  show ?thesis by (simp add: Update_def line s3 s4 s5 s6 s7 Let_def)
qed

text \<open>C10. On the lines of a file, in whatever state, \<open>Update\<close> returns: it neither raises (every line, class
  and brace it looks up exists) nor runs for ever (its loops and the search for template arguments end).\<close>

theorem Update_returns:
  assumes "CleansedLines ls = Inr cl" "linenum < length ls"
  shows "\<exists>rs s'. Update fn cl linenum s = Inr (rs, s')"
  using CleansedLines_lengths[OF assms(1)] assms(2) by (intro Update_total) (simp_all add: well_formed_def)

theorem Update_returns_witness:
  "\<exists>cl rs s'. CleansedLines [''class A {'', ''};''] = Inr cl \<and> Update ''a.h'' cl 1 init_nesting = Inr (rs, s')"
proof -
  obtain cl where "CleansedLines [''class A {'', ''};''] = Inr cl" using CleansedLines_returns by blast
  with Update_returns[OF this, of 1 "''a.h''" init_nesting] show ?thesis by auto
qed

section \<open>Braces and the depth of the stack\<close>

definition brace_step :: "nat \<Rightarrow> char \<Rightarrow> nat" where
  "brace_step n c = (if c = CHR ''{'' then Suc n else if c = CHR ''}'' then n - 1 else n)"

lemma RE_BRACE_some:
  assumes "NL \<notin> set s" "c \<in> set ''{;)}''" "c \<in> set s"
  shows "re_match RE_BRACE s \<noteq> None"
proof -
  let ?h = "takeWhile (none_of ''{;)}'') s" and ?t = "dropWhile (none_of ''{;)}'') s"
  have t: "?t \<noteq> []" using assms(2,3) by (auto simp: dropWhile_eq_Nil_conv none_of_def)
  then have hd: "\<not> none_of ''{;)}'' (hd ?t)" by (rule hd_dropWhile)
  have "list_all (none_of ''{;)}'') ?h" by (auto simp: list_all_iff dest: set_takeWhileD)
  moreover have split: "s = ?h @ hd ?t # tl ?t" using t by simp
  moreover have "list_all (none_of [NL]) (tl ?t)"
    using assms(1) arg_cong[OF split, of set] by (auto simp: list_all_iff none_of_def)
  moreover have "one_of ''{;)}'' (hd ?t)" using hd by (auto simp: none_of_def one_of_def)
  ultimately have "\<exists>u v cs. (([], s, []), (u, v, cs)) \<in> paths RE_BRACE"
    unfolding RE_BRACE_def by (simp add: rx_simps) (metis append_Nil2 at_eol.simps(1))
  then show ?thesis using matches_iff[of RE_BRACE s] by (auto simp: matches_def)
qed

lemma brace_steps_none: "list_all (none_of ''{;)}'') h \<Longrightarrow> foldl brace_step n h = n"
  by (induction h arbitrary: n) (auto simp: none_of_def brace_step_def)

lemma brace_token_step:
  assumes "brace_token fn cl k [c] line s = Inr (rs, s')" "list_all seen_open_brace (stack_of s)" "c \<in> set ''{;)}''"
  shows "list_all seen_open_brace (stack_of s') \<and> length (stack_of s') = brace_step (length (stack_of s)) c"
proof -
  have seen: "SeenOpenBrace s" using assms(2) by (cases "stack_of s") (auto simp: SeenOpenBrace_def)
  show ?thesis
  proof (cases "c = CHR ''}''")
    case True
    with assms(1,2) show ?thesis
      by (cases "stack_of s") (auto simp: brace_token_def brace_step_def)
  next
    case False
    with assms seen show ?thesis
      by (auto simp: brace_token_def brace_step_def push_def new_BlockInfo_def new_ExternCInfo_def split: if_splits)
  qed
qed

text \<open>C17. Once the heads of all open blocks are complete, the braces of the rest of a line drive the stack
  like a counter: an opening brace pushes, a closing brace pops unless the stack is empty, and all blocks
  stay complete.\<close>

theorem consume_braces_depth:
  assumes "consume_braces fn cl n line s = Inr (rs, s')" "list_all seen_open_brace (stack_of s)" "NL \<notin> set line"
  shows "length (stack_of s') = foldl brace_step (length (stack_of s)) line \<and> list_all seen_open_brace (stack_of s')"
  using assms
proof (induction fn cl n line s arbitrary: rs s' rule: consume_braces.induct)
  case (1 fn cl n line s)
  show ?case
  proof (cases "re_match RE_BRACE line")
    case None
    with RE_BRACE_some[OF 1(4)] have "list_all (none_of ''{;)}'') line"
      by (auto simp: list_all_iff none_of_def)
    with None 1(2,3) brace_steps_none show ?thesis by (subst (asm) consume_braces.simps) simp
  next
    case (Some m)
    then obtain h c t z where l: "line = h @ c # t @ z" "c \<in> set ''{;)}''" "list_all (none_of ''{;)}'') h"
      "grp m 1 = [c]" "grp m 2 = t" "z = [] \<or> z = [NL]" by (rule RE_BRACE_match)
    with 1(4) have z: "z = []" "NL \<notin> set t" by auto
    from 1(2) obtain rs1 s1 rs2 where tok: "brace_token fn cl n (grp m 1) line s = Inr (rs1, s1)"
      and rest: "consume_braces fn cl n (grp m 2) s1 = Inr (rs2, s')"
      by (subst (asm) consume_braces.simps) (auto simp: Some split: sum.splits)
    from brace_token_step[OF tok[unfolded l(4)] 1(3) l(2)]
    have s1: "list_all seen_open_brace (stack_of s1)" "length (stack_of s1) = brace_step (length (stack_of s)) c" by auto
    from 1(1)[OF Some tok refl rest s1(1)] z(2) l(5)
    have "length (stack_of s') = foldl brace_step (length (stack_of s1)) t" "list_all seen_open_brace (stack_of s')" by auto
    then show ?thesis using s1(2) brace_steps_none[OF l(3)] by (simp add: l(1) z(1))
  qed
qed

definition one_line :: "string \<Rightarrow> cleansed_lines" where
  "one_line l = \<lparr>cl_elided = [l], cl_lines = [l], cl_raw_lines = [l], cl_num_lines = 1, cl_lines_without_raw_strings = [l]\<rparr>"

theorem consume_braces_depth_witness:
  "\<exists>rs s'. consume_braces ''a.cc'' (one_line ''if (x) { y; } else {'') 0 ''if (x) { y; } else {'' init_nesting = Inr (rs, s') \<and> length (stack_of s') = 1"
proof -
  have seen: "list_all seen_open_brace (stack_of init_nesting)" by (simp add: init_nesting_def)
  have "\<exists>rs s'. consume_braces ''a.cc'' (one_line ''if (x) { y; } else {'') 0 ''if (x) { y; } else {'' init_nesting = Inr (rs, s')"
    by (simp add: consume_braces.simps re_match_def re_at_def RE_BRACE_def RE_EXTERN_def RE_MATCH_ASM_def matches_def
        char_class_defs grp_def mgroup_def brace_token_def SeenOpenBrace_def init_nesting_def push_def new_BlockInfo_def
        CheckEnd_def)
  then obtain rs s' where run: "consume_braces ''a.cc'' (one_line ''if (x) { y; } else {'') 0 ''if (x) { y; } else {'' init_nesting = Inr (rs, s')" by blast
  from consume_braces_depth[OF run seen] have "length (stack_of s') = 1" by (simp add: init_nesting_def brace_step_def)
  with run show ?thesis by blast
qed

section \<open>Comments at the end of a namespace\<close>

text \<open>The comment \<open>}  // namespace NAME\<close>, with any decoration of white space, stars, slashes, dots and
  backslashes behind it, is accepted at the end of the namespace with that name.\<close>

theorem namespace_comment_accepted:
  assumes "py_get (cl_raw_lines cl) (int linenum) = Inr (''}'' @ sp @ ''// namespace '' @ name @ deco)"
    and "list_all ascii_space sp" "list_all (\<lambda>c. one_of [CHR ''*'', CHR ''/'', CHR ''.'', BS] c \<or> ascii_space c) deco" "name \<noteq> []"
  shows "CheckEnd_namespace fn cl linenum name start = Inr []"
proof -
  let ?l = "''}'' @ sp @ ''// namespace '' @ name @ deco"
  let ?c = "[(1, length (''}'' @ sp), length (''}'' @ sp @ ''//''))]"
  have "(([], ?l, []), (''}'', sp @ ''// namespace '' @ name @ deco, [])) \<in> paths (lit ''}'')"
    "((''}'', sp @ ''// namespace '' @ name @ deco, []), (''}'', sp @ ''// namespace '' @ name @ deco, [])) \<in> paths (RStar (lit '';''))"
    "((''}'', sp @ ''// namespace '' @ name @ deco, []), (rev sp @ ''}'', ''// namespace '' @ name @ deco, [])) \<in> paths (RStar ws)"
    "((rev sp @ ''}'', ''// namespace '' @ name @ deco, []), (''//'' @ rev sp @ ''}'', '' namespace '' @ name @ deco, ?c))
       \<in> paths (RGroup 1 (RAlt (lit ''//'') (lit ''/*'')))"
    "((''//'' @ rev sp @ ''}'', '' namespace '' @ name @ deco, ?c), ('' //'' @ rev sp @ ''}'', ''namespace '' @ name @ deco, ?c)) \<in> paths (RStar anyc)"
    "(('' //'' @ rev sp @ ''}'', ''namespace '' @ name @ deco, ?c), ('' //'' @ rev sp @ ''}'', ''namespace '' @ name @ deco, ?c)) \<in> paths RWordB"
    "(('' //'' @ rev sp @ ''}'', ''namespace '' @ name @ deco, ?c), (''ecapseman //'' @ rev sp @ ''}'', '' '' @ name @ deco, ?c)) \<in> paths (lit ''namespace'')"
    "((''ecapseman //'' @ rev sp @ ''}'', '' '' @ name @ deco, ?c), ('' ecapseman //'' @ rev sp @ ''}'', name @ deco, ?c)) \<in> paths (RPlus ws)"
    "(('' ecapseman //'' @ rev sp @ ''}'', name @ deco, ?c), (rev name @ '' ecapseman //'' @ rev sp @ ''}'', deco, ?c)) \<in> paths (lit name)"
    "((rev name @ '' ecapseman //'' @ rev sp @ ''}'', deco, ?c), (rev deco @ rev name @ '' ecapseman //'' @ rev sp @ ''}'', [], ?c)) \<in> paths end_decoration"
    "((rev deco @ rev name @ '' ecapseman //'' @ rev sp @ ''}'', [], ?c), (rev deco @ rev name @ '' ecapseman //'' @ rev sp @ ''}'', [], ?c)) \<in> paths REol"
    using assms(2,3)
    by (simp_all add: rx_simps end_decoration_def at_word_boundary_def char_class_defs)
  note steps = this
  have pattern: "RE_NAMED_END name = seqs [lit ''}'', RStar (lit '';''), RStar ws, RGroup 1 (RAlt (lit ''//'') (lit ''/*'')),
      RStar anyc, RWordB, lit ''namespace'', RPlus ws, lit name, end_decoration, REol]"
    by (simp add: RE_NAMED_END_def namespace_end_def)
  have "(([], ?l, []), (rev deco @ rev name @ '' ecapseman //'' @ rev sp @ ''}'', [], ?c)) \<in> paths (RE_NAMED_END name)"
    unfolding pattern seqs.simps
    by (rule paths_SeqI[OF steps(1) paths_SeqI[OF steps(2) paths_SeqI[OF steps(3) paths_SeqI[OF steps(4)
          paths_SeqI[OF steps(5) paths_SeqI[OF steps(6) paths_SeqI[OF steps(7) paths_SeqI[OF steps(8)
          paths_SeqI[OF steps(9) paths_SeqI[OF steps(10) steps(11)]]]]]]]]]])
  then have "matches (RE_NAMED_END name) ?l" by (auto simp: matches_iff)
  then show ?thesis using assms(1,4) by (simp add: CheckEnd_namespace_def Let_def)
qed

theorem namespace_comment_accepted_witness:
  "CheckEnd_namespace ''a.cc'' (one_line ''}  // namespace rd::kafka.'') 0 ''rd::kafka'' 0 = Inr []"
  by (rule namespace_comment_accepted[where sp = "''  ''" and deco = "''.''"])
    (simp_all add: one_line_def py_get_def ascii_space_def one_of_def)

section \<open>Identities\<close>

definition ids_below :: "nat \<Rightarrow> block list \<Rightarrow> bool" where
  "ids_below n bs \<longleftrightarrow> distinct (map b_id bs) \<and> (\<forall>i\<in>set (map b_id bs). i < n)"

definition ids_ok :: "nesting \<Rightarrow> bool" where
  "ids_ok s \<longleftrightarrow> ids_below (next_id s) (stack_of s) \<and>
     list_all (\<lambda>pp. ids_below (next_id s) (stack_before_if pp) \<and> ids_below (next_id s) (stack_before_else pp)) (pp_stack s)"

lemma ids_below_mono: "ids_below n bs \<Longrightarrow> n \<le> m \<Longrightarrow> ids_below m bs"
  by (auto simp: ids_below_def)

lemma ids_below_Nil [simp]: "ids_below n []"
  by (simp add: ids_below_def)

lemma ids_deepcopy: "map b_id (deepcopy bs n) = [n..<n + length bs]"
  by (induction bs n rule: deepcopy.induct) (simp_all add: upt_conv_Cons del: upt_Suc)

lemma ids_below_deepcopy: "n + length bs \<le> m \<Longrightarrow> ids_below m (deepcopy bs n)"
  unfolding ids_below_def ids_deepcopy by simp

text \<open>A step that keeps the saved stacks: the identities of the new stack decide.\<close>

lemma ids_ok_stack:
  assumes "ids_ok s" "pp_stack s' = pp_stack s" "next_id s \<le> next_id s'" "ids_below (next_id s') (stack_of s')"
  shows "ids_ok s'"
  using assms ids_below_mono unfolding ids_ok_def list_all_iff by metis

lemma ids_ok_same: "ids_ok s \<Longrightarrow> pp_stack s' = pp_stack s \<Longrightarrow> next_id s' = next_id s \<Longrightarrow>
    map b_id (stack_of s') = map b_id (stack_of s) \<Longrightarrow> ids_ok s'"
  by (rule ids_ok_stack, assumption, assumption, erule eq_imp_le[OF sym], simp add: ids_ok_def ids_below_def del: set_map)

lemma ids_ok_push:
  assumes "ids_ok s" "b_id b = next_id s"
  shows "ids_ok (push b s)"
proof (rule ids_ok_stack[OF assms(1)])
  show "ids_below (next_id (push b s)) (stack_of (push b s))"
    using assms by (auto simp: push_def ids_ok_def ids_below_def less_Suc_eq)
qed (simp_all add: push_def)

lemma ids_ok_drop:
  assumes "ids_ok s" "stack_of s = b # bs"
  shows "ids_ok (s\<lparr>stack_of := bs\<rparr>)"
  by (rule ids_ok_stack[OF assms(1)]) (use assms in \<open>auto simp: ids_ok_def ids_below_def\<close>)

lemma UpdatePreprocessor_ids: "ids_ok s \<Longrightarrow> ids_ok (UpdatePreprocessor l s)"
proof -
  assume ok: "ids_ok s"
  have all: "ids_below m (stack_before_if pp)" "ids_below m (stack_before_else pp)" if "pp \<in> set (pp_stack s)" "next_id s \<le> m" for pp m
    using ok that ids_below_mono unfolding ids_ok_def list_all_iff by blast+
  have cur: "ids_below m (stack_of s)" if "next_id s \<le> m" for m
    using ok that ids_below_mono unfolding ids_ok_def by blast
  show ?thesis
  proof (cases "pp_stack s")
    case Nil
    with ok cur show ?thesis
      by (simp add: UpdatePreprocessor_def Let_def) (simp add: ids_ok_def ids_below_deepcopy)
  next
    case (Cons pp pps)
    have "ids_ok (s\<lparr>pp_stack := \<lparr>stack_before_if = deepcopy (stack_of s) (next_id s), stack_before_else = [], seen_else = False\<rparr> # pp_stack s,
        next_id := next_id s + length (stack_of s)\<rparr>)"
      using all cur by (simp add: ids_ok_def ids_below_deepcopy list_all_iff)
    moreover have "ids_ok (s\<lparr>pp_stack := pp' # pps, stack_of := deepcopy (stack_before_if pp) (next_id s + length (stack_of s)),
        next_id := next_id s + length (stack_of s) + length (stack_before_if pp)\<rparr>)"
      if "pp' \<in> {pp, pp\<lparr>seen_else := True, stack_before_else := deepcopy (stack_of s) (next_id s)\<rparr>}" for pp'
      using all that Cons by (auto simp: ids_ok_def ids_below_deepcopy list_all_iff)
    moreover have "ids_ok (s\<lparr>stack_of := st, pp_stack := pps\<rparr>)" if "st \<in> {stack_before_else pp, stack_of s}" for st
      using all cur that Cons by (auto simp: ids_ok_def list_all_iff)
    ultimately show ?thesis using ok Cons by (simp add: UpdatePreprocessor_def Let_def)
  qed
qed

lemma consume_namespaces_ids:
  "ids_ok s \<Longrightarrow> consume_namespaces n l s = (l', s') \<Longrightarrow> ids_ok s'"
proof (induction n l s rule: consume_namespaces.induct)
  case (1 n l s)
  have new: "ids_ok (push ((new_NamespaceInfo (next_id s) nm n)\<lparr>seen_open_brace := b\<rparr>) s)" for nm b
    by (rule ids_ok_push[OF 1(3)]) (simp add: new_NamespaceInfo_def new_BlockInfo_def)
  have new': "ids_ok (push (new_NamespaceInfo (next_id s) nm n) s)" for nm
    by (rule ids_ok_push[OF 1(3)]) (simp add: new_NamespaceInfo_def new_BlockInfo_def)
  show ?case
  proof (cases "re_match RE_NAMESPACE l")
    case None
    with 1(3,4) show ?thesis by (subst (asm) consume_namespaces.simps) simp
  next
    case (Some m)
    show ?thesis
    proof (cases "find_nat ''{'' (grp m 2)")
      case None
      from 1(4) have "consume_namespaces n (grp m 2) (push (new_NamespaceInfo (next_id s) (mgroup m 1) n) s) = (l', s')"
        by (subst (asm) consume_namespaces.simps) (simp add: Some None)
      from 1(1)[OF Some None new' this] show ?thesis .
    next
      case k: (Some k)
      from 1(4) have "consume_namespaces n (drop (k + 1) (grp m 2))
          (push ((new_NamespaceInfo (next_id s) (mgroup m 1) n)\<lparr>seen_open_brace := True\<rparr>) s) = (l', s')"
        by (subst (asm) consume_namespaces.simps) (simp add: Some k)
      from 1(2)[OF Some k new this] show ?thesis .
    qed
  qed
qed

lemma enter_class_ids: "ids_ok s \<Longrightarrow> enter_class cl n l s = Inr (l', s') \<Longrightarrow> ids_ok s'"
  by (auto simp: enter_class_def new_ClassInfo_def new_BlockInfo_def split: option.splits if_splits
      intro!: ids_ok_push)

lemma begin_block_ids: "ids_ok s \<Longrightarrow> begin_block cl n s = Inr s' \<Longrightarrow> ids_ok s'"
proof -
  assume a: "ids_ok s" "begin_block cl n s = Inr s'"
  have "CheckBegin cl n b = Inr b' \<Longrightarrow> b_id b' = b_id b" for b b'
    by (auto simp: CheckBegin_def split: block_kind.splits if_splits)
  moreover have "stack_of s \<noteq> []" if "\<not> SeenOpenBrace s" using that by (auto simp: SeenOpenBrace_def)
  ultimately show ?thesis using a
    by (cases "stack_of s") (auto simp: begin_block_def split: if_splits intro: ids_ok_same)
qed

lemma update_access_ids: "ids_ok s \<Longrightarrow> update_access fn n l s = (rs, s') \<Longrightarrow> ids_ok s'"
  by (cases "stack_of s") (auto simp: update_access_def split: block_kind.splits option.splits intro: ids_ok_same)

lemma brace_token_ids:
  assumes "ids_ok s" "brace_token fn cl n tok l s = Inr (rs, s')"
  shows "ids_ok s'"
proof -
  have top: "ids_ok (s\<lparr>stack_of := map_top (\<lambda>b. b\<lparr>seen_open_brace := True\<rparr>) (stack_of s)\<rparr>)"
    by (rule ids_ok_same[OF assms(1)]) (cases "stack_of s"; simp)+
  have new: "ids_ok (push (new_ExternCInfo (next_id s)) s)"
    "ids_ok (push ((new_BlockInfo (next_id s) True)\<lparr>inline_asm := a\<rparr>) s)" for a
    by (rule ids_ok_push[OF assms(1)]; simp add: new_ExternCInfo_def new_BlockInfo_def)+
  have pop: "ids_ok (s\<lparr>stack_of := tl (stack_of s)\<rparr>)"
  proof (cases "stack_of s")
    case Nil
    then show ?thesis by (intro ids_ok_same[OF assms(1)]) simp_all
  next
    case (Cons b bs)
    with ids_ok_drop[OF assms(1) Cons] show ?thesis by simp
  qed
  consider "tok = ''{''" | "tok \<noteq> ''{''" "tok = '';'' \<or> tok = '')''" | "tok \<noteq> ''{''" "\<not> (tok = '';'' \<or> tok = '')'')" by blast
  then show ?thesis
  proof cases
    case 1
    with assms(2) top new show ?thesis unfolding brace_token_def by (auto split: if_splits)
  next
    case 2
    with assms pop show ?thesis unfolding brace_token_def by (simp split: if_splits)
  next
    case 3
    with assms ids_ok_drop show ?thesis unfolding brace_token_def by (auto split: list.splits)
  qed
qed

lemma consume_braces_ids: "ids_ok s \<Longrightarrow> consume_braces fn cl n l s = Inr (rs, s') \<Longrightarrow> ids_ok s'"
proof (induction fn cl n l s arbitrary: rs rule: consume_braces.induct)
  case (1 fn cl n l s)
  show ?case
  proof (cases "re_match RE_BRACE l")
    case None
    with 1(2,3) show ?thesis by (subst (asm) consume_braces.simps) simp
  next
    case (Some m)
    from 1(3) obtain rs1 s1 rs2 where tok: "brace_token fn cl n (grp m 1) l s = Inr (rs1, s1)"
      and rest: "consume_braces fn cl n (grp m 2) s1 = Inr (rs2, s')"
      by (subst (asm) consume_braces.simps) (auto simp: Some split: sum.splits)
    from 1(1)[OF Some tok refl brace_token_ids[OF 1(2) tok] rest] show ?thesis .
  qed
qed



end
