(* ===== verification/CheckBase.thy ===== *)
theory CheckBase
  imports Nesting
begin

text \<open>
  What the checks share.  A check of \<open>cpplint.py\<close> takes the name of the file, the cleansed lines and
  a line number, and calls \<open>error\<close>; in the model it returns the list of its reports in the order of
  the calls, as a \<open>result\<close> where it can raise.  \<open>elided_at\<close>, \<open>line_at\<close> and \<open>raw_at\<close> are
  \<open>clean_lines.elided[n]\<close>, \<open>clean_lines.lines[n]\<close> and \<open>clean_lines.raw_lines[n]\<close>.

  \<open>listed\<close> says that every report is about the file, has a category of \<open>_ERROR_CATEGORIES\<close> and a
  confidence between 0 and 5; each check is shown to keep it, by the introduction rules
  \<open>listed_intros\<close>.
\<close>

section \<open>Lines of the file\<close>

type_synonym check = "report list result"

definition elided_at :: "cleansed_lines \<Rightarrow> int \<Rightarrow> string result" where
  "elided_at cl n = py_get (cl_elided cl) n"

definition line_at :: "cleansed_lines \<Rightarrow> int \<Rightarrow> string result" where
  "line_at cl n = py_get (cl_lines cl) n"

definition raw_at :: "cleansed_lines \<Rightarrow> int \<Rightarrow> string result" where
  "raw_at cl n = py_get (cl_raw_lines cl) n"

text \<open>The parallel lists of a \<open>CleansedLines\<close> object have one length.\<close>

definition aligned :: "cleansed_lines \<Rightarrow> bool" where
  "aligned cl \<longleftrightarrow> length (cl_elided cl) = cl_num_lines cl \<and> length (cl_lines cl) = cl_num_lines cl \<and>
     length (cl_raw_lines cl) = cl_num_lines cl \<and> length (cl_lines_without_raw_strings cl) = cl_num_lines cl"

lemma CleansedLines_aligned: "CleansedLines ls = Inr cl \<Longrightarrow> aligned cl \<and> cl_num_lines cl = length ls"
  using CleansedLines_lengths[of ls cl] by (simp add: aligned_def NumLines_def)

lemma elided_at_in [simp]: "aligned cl \<Longrightarrow> n < cl_num_lines cl \<Longrightarrow> elided_at cl (int n) = Inr (cl_elided cl ! n)"
  by (simp add: elided_at_def aligned_def)

lemma line_at_in [simp]: "aligned cl \<Longrightarrow> n < cl_num_lines cl \<Longrightarrow> line_at cl (int n) = Inr (cl_lines cl ! n)"
  by (simp add: line_at_def aligned_def)

lemma raw_at_in [simp]: "aligned cl \<Longrightarrow> n < cl_num_lines cl \<Longrightarrow> raw_at cl (int n) = Inr (cl_raw_lines cl ! n)"
  by (simp add: raw_at_def aligned_def)

section \<open>Reports of known categories\<close>

definition listed :: "string \<Rightarrow> report list \<Rightarrow> bool" where
  "listed f rs \<longleftrightarrow> (\<forall>r\<in>set rs. r_file r = f \<and> r_cat r \<in> set ERROR_CATEGORIES \<and> 0 \<le> r_conf r \<and> r_conf r \<le> 5)"

fun listedR :: "string \<Rightarrow> check \<Rightarrow> bool" where
  "listedR f (Inl e) = True"
| "listedR f (Inr rs) = listed f rs"

named_theorems listed_intros "introduction rules for listed reports"

lemma listed_Nil [simp]: "listed f []"
  by (simp add: listed_def)

lemma listed_append [simp]: "listed f (rs @ qs) \<longleftrightarrow> listed f rs \<and> listed f qs"
  by (auto simp: listed_def)

lemma listed_Cons [simp]:
  "listed f (report g l c k m # rs) \<longleftrightarrow> g = f \<and> c \<in> set ERROR_CATEGORIES \<and> 0 \<le> k \<and> k \<le> 5 \<and> listed f rs"
  by (auto simp: listed_def)

lemma listed_concat [simp]: "listed f (concat rss) \<longleftrightarrow> (\<forall>rs\<in>set rss. listed f rs)"
  by (auto simp: listed_def)

lemma listed_opt [simp]: "listed f (case x of None \<Rightarrow> rs | Some y \<Rightarrow> g y) \<longleftrightarrow>
    (x = None \<longrightarrow> listed f rs) \<and> (\<forall>y. x = Some y \<longrightarrow> listed f (g y))"
  by (auto split: option.split)

lemma listed_if [simp]: "listed f (if b then rs else qs) \<longleftrightarrow> (b \<longrightarrow> listed f rs) \<and> (\<not> b \<longrightarrow> listed f qs)"
  by auto

lemma listedR_map [listed_intros]: "(\<And>x. r = Inr x \<Longrightarrow> listed f (g x)) \<Longrightarrow> listedR f (res_map g r)"
  by (cases r) auto

lemma listedR_bind [listed_intros]: "(\<And>x. r = Inr x \<Longrightarrow> listedR f (g x)) \<Longrightarrow> listedR f (res_bind r g)"
  by (cases r) auto

text \<open>The same for results that are reports themselves: what is known about them is kept.\<close>

named_theorems listed_acc "introduction rules that accumulate listed reports"

lemma listedR_map_acc [listed_acc]:
  "listedR f r \<Longrightarrow> (\<And>rs. listed f rs \<Longrightarrow> listed f (g rs)) \<Longrightarrow> listedR f (res_map g r)"
  by (cases r) auto

lemma listedR_bind_acc [listed_acc]:
  "listedR f r \<Longrightarrow> (\<And>rs. listed f rs \<Longrightarrow> listedR f (g rs)) \<Longrightarrow> listedR f (res_bind r g)"
  by (cases r) auto

lemma listed_prod [simp]: "listed f (case p of (x, y) \<Rightarrow> h x y) \<longleftrightarrow> listed f (h (fst p) (snd p))"
  by (cases p) auto

lemma listedR_Inr_iff: "listedR f r \<longleftrightarrow> (\<forall>rs. r = Inr rs \<longrightarrow> listed f rs)"
  by (cases r) auto

lemma listedR_if [listed_intros]:
  "(b \<Longrightarrow> listedR f r) \<Longrightarrow> (\<not> b \<Longrightarrow> listedR f q) \<Longrightarrow> listedR f (if b then r else q)"
  by simp

lemma listedR_opt [simp]: "listedR f (case x of None \<Rightarrow> r | Some y \<Rightarrow> g y) \<longleftrightarrow>
    (x = None \<longrightarrow> listedR f r) \<and> (\<forall>y. x = Some y \<longrightarrow> listedR f (g y))"
  by (auto split: option.split)

lemma listedR_if_iff [simp]: "listedR f (if b then r else q) \<longleftrightarrow> (b \<longrightarrow> listedR f r) \<and> (\<not> b \<longrightarrow> listedR f q)"
  by auto

lemma listedR_prod [simp]: "listedR f (case p of (x, y) \<Rightarrow> g x y) \<longleftrightarrow> listedR f (g (fst p) (snd p))"
  by (cases p) auto

lemma known_categories [simp]:
  "''build/class'' \<in> set ERROR_CATEGORIES"
  "''build/c++11'' \<in> set ERROR_CATEGORIES"
  "''build/deprecated'' \<in> set ERROR_CATEGORIES"
  "''build/endif_comment'' \<in> set ERROR_CATEGORIES"
  "''build/explicit_make_pair'' \<in> set ERROR_CATEGORIES"
  "''build/forward_decl'' \<in> set ERROR_CATEGORIES"
  "''build/header_guard'' \<in> set ERROR_CATEGORIES"
  "''build/include'' \<in> set ERROR_CATEGORIES"
  "''build/include_alpha'' \<in> set ERROR_CATEGORIES"
  "''build/include_order'' \<in> set ERROR_CATEGORIES"
  "''build/include_what_you_use'' \<in> set ERROR_CATEGORIES"
  "''build/namespaces'' \<in> set ERROR_CATEGORIES"
  "''build/printf_format'' \<in> set ERROR_CATEGORIES"
  "''build/storage_class'' \<in> set ERROR_CATEGORIES"
  "''legal/copyright'' \<in> set ERROR_CATEGORIES"
  "''readability/alt_tokens'' \<in> set ERROR_CATEGORIES"
  "''readability/braces'' \<in> set ERROR_CATEGORIES"
  "''readability/casting'' \<in> set ERROR_CATEGORIES"
  "''readability/check'' \<in> set ERROR_CATEGORIES"
  "''readability/constructors'' \<in> set ERROR_CATEGORIES"
  "''readability/fn_size'' \<in> set ERROR_CATEGORIES"
  "''readability/function'' \<in> set ERROR_CATEGORIES"
  "''readability/inheritance'' \<in> set ERROR_CATEGORIES"
  "''readability/multiline_comment'' \<in> set ERROR_CATEGORIES"
  "''readability/multiline_string'' \<in> set ERROR_CATEGORIES"
  "''readability/namespace'' \<in> set ERROR_CATEGORIES"
  "''readability/nolint'' \<in> set ERROR_CATEGORIES"
  "''readability/nul'' \<in> set ERROR_CATEGORIES"
  "''readability/strings'' \<in> set ERROR_CATEGORIES"
  "''readability/todo'' \<in> set ERROR_CATEGORIES"
  "''readability/utf8'' \<in> set ERROR_CATEGORIES"
  "''runtime/arrays'' \<in> set ERROR_CATEGORIES"
  "''runtime/casting'' \<in> set ERROR_CATEGORIES"
  "''runtime/explicit'' \<in> set ERROR_CATEGORIES"
  "''runtime/int'' \<in> set ERROR_CATEGORIES"
  "''runtime/init'' \<in> set ERROR_CATEGORIES"
  "''runtime/invalid_increment'' \<in> set ERROR_CATEGORIES"
  "''runtime/member_string_references'' \<in> set ERROR_CATEGORIES"
  "''runtime/memset'' \<in> set ERROR_CATEGORIES"
  "''runtime/indentation_namespace'' \<in> set ERROR_CATEGORIES"
  "''runtime/operator'' \<in> set ERROR_CATEGORIES"
  "''runtime/printf'' \<in> set ERROR_CATEGORIES"
  "''runtime/printf_format'' \<in> set ERROR_CATEGORIES"
  "''runtime/references'' \<in> set ERROR_CATEGORIES"
  "''runtime/string'' \<in> set ERROR_CATEGORIES"
  "''runtime/threadsafe_fn'' \<in> set ERROR_CATEGORIES"
  "''runtime/vlog'' \<in> set ERROR_CATEGORIES"
  "''whitespace/blank_line'' \<in> set ERROR_CATEGORIES"
  "''whitespace/braces'' \<in> set ERROR_CATEGORIES"
  "''whitespace/comma'' \<in> set ERROR_CATEGORIES"
  "''whitespace/comments'' \<in> set ERROR_CATEGORIES"
  "''whitespace/empty_conditional_body'' \<in> set ERROR_CATEGORIES"
  "''whitespace/empty_loop_body'' \<in> set ERROR_CATEGORIES"
  "''whitespace/end_of_line'' \<in> set ERROR_CATEGORIES"
  "''whitespace/ending_newline'' \<in> set ERROR_CATEGORIES"
  "''whitespace/forcolon'' \<in> set ERROR_CATEGORIES"
  "''whitespace/indent'' \<in> set ERROR_CATEGORIES"
  "''whitespace/line_length'' \<in> set ERROR_CATEGORIES"
  "''whitespace/newline'' \<in> set ERROR_CATEGORIES"
  "''whitespace/operators'' \<in> set ERROR_CATEGORIES"
  "''whitespace/parens'' \<in> set ERROR_CATEGORIES"
  "''whitespace/semicolon'' \<in> set ERROR_CATEGORIES"
  "''whitespace/tab'' \<in> set ERROR_CATEGORIES"
  "''whitespace/todo'' \<in> set ERROR_CATEGORIES"
  by (simp_all add: ERROR_CATEGORIES_def)

section \<open>Positions the patterns find\<close>

text \<open>For a pattern \<open>^(r1)r2\<close> the first group ends before the character that \<open>r2\<close> needs.\<close>

lemma match_head_group:
  assumes "re_match (RSeq RBol (RSeq (RGroup 1 r1) r2)) s = Some m"
    and r2: "\<And>u v cs u' v' cs'. ((u, v, cs), (u', v', cs')) \<in> paths r2 \<Longrightarrow> cs' = cs \<and> v \<noteq> []"
  shows "length (grp m 1) < length s"
proof -
  from assms(1) obtain u v cs where path: "(([], s, []), (u, v, cs)) \<in> paths (RSeq RBol (RSeq (RGroup 1 r1) r2))"
    and m: "m = \<lparr>mo_string = s, mo_start = 0, mo_end = length u, mo_caps = cs\<rparr>" by (rule re_match_path)
  from path obtain a b ds where r1: "(([], s, []), (a, b, ds)) \<in> paths r1"
    and "((a, b, (1, 0, length a) # ds), (u, v, cs)) \<in> paths r2"
    by (auto simp: rx_simps)
  with r2 have "cs = (1, 0, length a) # ds" "b \<noteq> []" by blast+
  moreover from r1 obtain t where "s = t @ b" "a = rev t @ []" by (rule paths_split)
  ultimately show ?thesis by (simp add: m grp_def mgroup_def)
qed

lemma paths_seqs_append:
  "rs \<noteq> [] \<Longrightarrow> qs \<noteq> [] \<Longrightarrow> paths (seqs (rs @ qs)) = paths (seqs rs) O paths (seqs qs)"
proof (induction rs rule: seqs.induct)
  case 1
  then show ?case by simp
next
  case (2 r)
  then show ?case by (cases qs) (simp_all add: paths.simps)
next
  case (3 r q rs)
  then show ?case by (simp add: paths.simps O_assoc)
qed

text \<open>For a pattern that ends with \<open>(r)(.*)$\<close>, where \<open>r\<close> consumes text, the last group is shorter than
  the line.\<close>

lemma match_last_group:
  assumes "re_match (seqs (front @ [RGroup i r, RGroup k (RStar anyc), REol])) s = Some m" "front \<noteq> []" "k \<noteq> 0"
    and r: "\<And>u v cs u' v' cs'. ((u, v, cs), (u', v', cs')) \<in> paths r \<Longrightarrow> length v' < length v"
  shows "length (grp m k) < length s"
proof -
  from assms(1) obtain u v cs where
    path: "(([], s, []), (u, v, cs)) \<in> paths (seqs (front @ [RGroup i r, RGroup k (RStar anyc), REol]))"
    and m: "m = \<lparr>mo_string = s, mo_start = 0, mo_end = length u, mo_caps = cs\<rparr>" by (rule re_match_path)
  from path assms(2) obtain a b ds where f: "(([], s, []), (a, b, ds)) \<in> paths (seqs front)"
    and rest: "((a, b, ds), (u, v, cs)) \<in> paths (seqs [RGroup i r, RGroup k (RStar anyc), REol])"
    by (auto simp: paths_seqs_append)
  from rest obtain a' b' ds' where g1: "((a, b, ds), (a', b', ds')) \<in> paths (RGroup i r)"
    and g2: "((a', b', ds'), (u, v, cs)) \<in> paths (RGroup k (RStar anyc))"
    unfolding seqs.simps paths_Seq paths_Eol by blast
  from f obtain w where w: "s = w @ b" "a = rev w @ []" by (rule paths_split)
  from g1 obtain x where x: "b = x @ b'" "a' = rev x @ a" by (rule paths_split)
  from g1 r have "length b' < length b" unfolding paths_Group by blast
  moreover from g2 obtain t where t: "b' = t @ v" "u = rev t @ a'" "cs = (k, length a', length u) # ds'"
    unfolding paths_Group paths_Star_char by auto
  moreover have "grp m k = t" using w x t assms(3) by (simp add: m grp_def mgroup_def)
  ultimately show ?thesis using w by simp
qed

text \<open>For a pattern \<open>^(r1)(r2)rest\<close> the two groups stand side by side at the start of the line.\<close>

lemma match_two_groups:
  assumes "re_match (RSeq RBol (RSeq (RGroup 1 r1) (RSeq (RGroup 2 r2) rest))) s = Some m"
    and rest: "\<And>u v cs u' v' cs'. ((u, v, cs), (u', v', cs')) \<in> paths rest \<Longrightarrow> cs' = cs"
    and r2: "\<And>u v cs u' v' cs'. ((u, v, cs), (u', v', cs')) \<in> paths r2 \<Longrightarrow> cs' = cs \<and> length v' < length v"
  obtains t where "s = grp m 1 @ grp m 2 @ t" "grp m 2 \<noteq> []"
proof -
  from assms(1) obtain u v cs where
    path: "(([], s, []), (u, v, cs)) \<in> paths (RSeq RBol (RSeq (RGroup 1 r1) (RSeq (RGroup 2 r2) rest)))"
    and m: "m = \<lparr>mo_string = s, mo_start = 0, mo_end = length u, mo_caps = cs\<rparr>" by (rule re_match_path)
  from path obtain a b ds a' b' ds' where g1: "(([], s, []), (a, b, ds)) \<in> paths (RGroup 1 r1)"
    and g2: "((a, b, ds), (a', b', ds')) \<in> paths (RGroup 2 r2)"
    and last: "((a', b', ds'), (u, v, cs)) \<in> paths rest"
    unfolding paths_Seq paths_Bol by blast
  from g1 obtain w where w: "s = w @ b" "a = rev w @ []" by (rule paths_split)
  from g2 obtain x where x: "b = x @ b'" "a' = rev x @ a" by (rule paths_split)
  from g2 r2 have "length b' < length b" and ds': "ds' = (2, length a, length a') # ds" unfolding paths_Group by blast+
  then have "x \<noteq> []" using x by auto
  moreover from g1 obtain es where "ds = (1, 0, length a) # es" unfolding paths_Group by auto
  moreover from rest[OF last] have "cs = ds'" .
  ultimately show ?thesis using w x ds' by (intro that[of b']) (simp_all add: m grp_def mgroup_def)
qed

text \<open>\<open>CloseExpression\<close> and \<open>ReverseCloseExpression\<close> return at a position inside the file, and what they
  find lies inside it.\<close>

lemma CloseExpression_returns:
  assumes "n < length E" "p < length (E ! n)"
  shows "\<exists>l m q. CloseExpression E n p = Inr (l, m, q) \<and>
    (q < 0 \<or> (l = E ! m \<and> n \<le> m \<and> m < length E \<and> q \<le> int (length l) \<and> (m = n \<longrightarrow> int p < q)))"
  using assms by (cases rule: CloseExpression_cases) auto

lemma ReverseCloseExpression_returns:
  assumes "n < length E" "p < length (E ! n)"
  shows "\<exists>l m q. ReverseCloseExpression E n p = Inr (l, m, q) \<and>
    (q < 0 \<or> (l = E ! m \<and> m \<le> n \<and> q < int (length l) \<and> (m = n \<longrightarrow> q \<le> int p)))"
  using assms by (cases rule: ReverseCloseExpression_cases) auto

lemma elided_at_nat: "aligned cl \<Longrightarrow> i < cl_num_lines cl \<Longrightarrow> cl_elided cl ! i = l \<Longrightarrow> elided_at cl (int i) = Inr l"
  by simp

lemma elided_at_minus:
  "aligned cl \<Longrightarrow> n < cl_num_lines cl \<Longrightarrow> k \<le> n \<Longrightarrow> elided_at cl (int n - int k) = Inr (cl_elided cl ! (n - k))"
  using elided_at_in[of cl "n - k"] by (simp add: of_nat_diff)

text \<open>A check of one line of the file that returns.\<close>

definition total_check :: "(cleansed_lines \<Rightarrow> nat \<Rightarrow> check) \<Rightarrow> bool" where
  "total_check c \<longleftrightarrow> (\<forall>cl n. aligned cl \<longrightarrow> n < cl_num_lines cl \<longrightarrow> (\<exists>rs. c cl n = Inr rs))"

named_theorems total_checks "checks that return on every line of the file"

lemma total_checkI: "(\<And>cl n. aligned cl \<Longrightarrow> n < cl_num_lines cl \<Longrightarrow> \<exists>rs. c cl n = Inr rs) \<Longrightarrow> total_check c"
  by (simp add: total_check_def)

lemma total_check_returns:
  "total_check c \<longleftrightarrow> (\<forall>cl n. aligned cl \<longrightarrow> n < cl_num_lines cl \<longrightarrow> returns (c cl n))"
  by (simp add: total_check_def returns_iff)

lemma returns_splits [simp]:
  "returns (if b then r else q) \<longleftrightarrow> (b \<longrightarrow> returns r) \<and> (\<not> b \<longrightarrow> returns q)"
  "returns (case x of None \<Rightarrow> r | Some y \<Rightarrow> g y) \<longleftrightarrow> (x = None \<longrightarrow> returns r) \<and> (\<forall>y. x = Some y \<longrightarrow> returns (g y))"
  "returns (case p of (a, b) \<Rightarrow> h a b) \<longleftrightarrow> returns (h (fst p) (snd p))"
  by (auto split: option.split prod.split)

lemma raw_string_line [simp]:
  "aligned cl \<Longrightarrow> n < cl_num_lines cl \<Longrightarrow>
     py_get (cl_lines_without_raw_strings cl) (int n) = Inr (cl_lines_without_raw_strings cl ! n)"
  by (simp add: aligned_def)

text \<open>The line above exists as well: above the first line, index -1 is the last one.\<close>

lemma elided_before: "aligned cl \<Longrightarrow> n < cl_num_lines cl \<Longrightarrow> \<exists>l. elided_at cl (int n - 1) = Inr l"
  using py_get_returns[of "cl_elided cl" "int n - 1"]
  by (auto simp: elided_at_def aligned_def returns_iff)

lemma line_before: "aligned cl \<Longrightarrow> n < cl_num_lines cl \<Longrightarrow> \<exists>l. line_at cl (int n - 1) = Inr l"
  using py_get_returns[of "cl_lines cl" "int n - 1"]
  by (auto simp: line_at_def aligned_def returns_iff)

lemma raw_string_after:
  "aligned cl \<Longrightarrow> n + 1 < cl_num_lines cl \<Longrightarrow>
     py_get (cl_lines_without_raw_strings cl) (int n + 1) = Inr (cl_lines_without_raw_strings cl ! (n + 1))"
  using raw_string_line[of cl "n + 1"] by (simp add: add.commute)

lemma total_checkD: "total_check c \<Longrightarrow> aligned cl \<Longrightarrow> n < cl_num_lines cl \<Longrightarrow> \<exists>rs. c cl n = Inr rs"
  by (simp add: total_check_def)

text \<open>The two searches at a position inside the file, in the form the checks need.\<close>

lemma close_returns [simp]:
  assumes "aligned cl" "n < cl_num_lines cl" "p < length (cl_elided cl ! n)"
  shows "returns (CloseExpression (cl_elided cl) n p)"
  using CloseExpression_returns[of n "cl_elided cl" p] assms by (auto simp: aligned_def returns_iff)

lemma reverse_close_returns [simp]:
  assumes "aligned cl" "n < cl_num_lines cl" "p < length (cl_elided cl ! n)"
  shows "returns (ReverseCloseExpression (cl_elided cl) n p)"
  using ReverseCloseExpression_returns[of n "cl_elided cl" p] assms by (auto simp: aligned_def returns_iff)

lemma reverse_close_line:
  assumes "aligned cl" "n < cl_num_lines cl" "p < length (cl_elided cl ! n)"
    "ReverseCloseExpression (cl_elided cl) n p = Inr (l, k, q)"
  shows "k \<le> n"
proof -
  have "n < length (cl_elided cl)" using assms(1,2) by (simp add: aligned_def)
  from this assms(3) show ?thesis by (cases rule: ReverseCloseExpression_cases) (use assms(4) in auto)
qed

text \<open>What holds of a result whenever there is one.\<close>

fun res_all :: "('a \<Rightarrow> bool) \<Rightarrow> 'a result \<Rightarrow> bool" where
  "res_all P (Inl e) = True"
| "res_all P (Inr x) = P x"

named_theorems res_all_intros "introduction rules for what holds of a result"

lemma res_allD: "res_all P r \<Longrightarrow> r = Inr x \<Longrightarrow> P x"
  by simp

lemma res_all_mono: "res_all P r \<Longrightarrow> (\<And>x. P x \<Longrightarrow> Q x) \<Longrightarrow> res_all Q r"
  by (cases r) auto

lemma listedR_res_all: "listedR f r \<longleftrightarrow> res_all (listed f) r"
  by (cases r) auto

lemma res_all_bind [res_all_intros]: "(\<And>x. r = Inr x \<Longrightarrow> res_all P (g x)) \<Longrightarrow> res_all P (res_bind r g)"
  by (cases r) auto

lemma res_all_map [res_all_intros]: "(\<And>x. r = Inr x \<Longrightarrow> P (g x)) \<Longrightarrow> res_all P (res_map g r)"
  by (cases r) auto

lemma res_all_splits [simp]:
  "res_all P (if b then r else q) \<longleftrightarrow> (b \<longrightarrow> res_all P r) \<and> (\<not> b \<longrightarrow> res_all P q)"
  "res_all P (case x of None \<Rightarrow> r | Some y \<Rightarrow> h y) \<longleftrightarrow> (x = None \<longrightarrow> res_all P r) \<and> (\<forall>y. x = Some y \<longrightarrow> res_all P (h y))"
  "res_all P (case p of (a, b) \<Rightarrow> k a b) \<longleftrightarrow> res_all P (k (fst p) (snd p))"
  by (auto split: option.split prod.split)

text \<open>The same for what may not return at all.\<close>

fun opt_all :: "('a \<Rightarrow> bool) \<Rightarrow> 'a option \<Rightarrow> bool" where
  "opt_all P None = True"
| "opt_all P (Some x) = P x"

lemma opt_allD: "opt_all P r \<Longrightarrow> r = Some x \<Longrightarrow> P x"
  by simp

lemma opt_all_bind [res_all_intros]: "(\<And>x. r = Some x \<Longrightarrow> opt_all P (g x)) \<Longrightarrow> opt_all P (Option.bind r g)"
  by (cases r) auto

lemma opt_all_map [res_all_intros]: "(\<And>x. r = Some x \<Longrightarrow> P (g x)) \<Longrightarrow> opt_all P (map_option g r)"
  by (cases r) auto

lemma opt_all_mono: "opt_all P r \<Longrightarrow> (\<And>x. P x \<Longrightarrow> Q x) \<Longrightarrow> opt_all Q r"
  by (cases r) auto

lemma opt_all_splits [simp]:
  "opt_all P (if b then r else q) \<longleftrightarrow> (b \<longrightarrow> opt_all P r) \<and> (\<not> b \<longrightarrow> opt_all P q)"
  "opt_all P (case x of None \<Rightarrow> r | Some y \<Rightarrow> h y) \<longleftrightarrow> (x = None \<longrightarrow> opt_all P r) \<and> (\<forall>y. x = Some y \<longrightarrow> opt_all P (h y))"
  "opt_all P (case p of (a, b) \<Rightarrow> k a b) \<longleftrightarrow> opt_all P (k (fst p) (snd p))"
  "opt_all P (case z of Inl e \<Rightarrow> l e | Inr v \<Rightarrow> m v) \<longleftrightarrow> (\<forall>e. z = Inl e \<longrightarrow> opt_all P (l e)) \<and> (\<forall>v. z = Inr v \<longrightarrow> opt_all P (m v))"
  by (auto split: option.split prod.split sum.split)

text \<open>Lines without comments and strings, for examples.\<close>

definition plain_lines :: "string list \<Rightarrow> cleansed_lines" where
  "plain_lines ls = \<lparr>cl_elided = ls, cl_lines = ls, cl_raw_lines = ls, cl_num_lines = length ls,
     cl_lines_without_raw_strings = ls\<rparr>"

lemma plain_lines_simps [simp]:
  "cl_elided (plain_lines ls) = ls" "cl_num_lines (plain_lines ls) = length ls" "aligned (plain_lines ls)"
  by (simp_all add: plain_lines_def aligned_def)

section \<open>The contract of a check\<close>

text \<open>
  What \<open>ProcessLine\<close> relies on in a check of one line: it only reports the file it was given, under
  documented categories, and it returns on the lines of the file that are \<open>safe\<close> for it.
\<close>

locale partial_check =
  fixes chk :: "string \<Rightarrow> cleansed_lines \<Rightarrow> nat \<Rightarrow> check" and safe :: "cleansed_lines \<Rightarrow> nat \<Rightarrow> bool"
  assumes only_listed: "listedR f (chk f cl n)"
    and returns_if_safe: "aligned cl \<Longrightarrow> n < cl_num_lines cl \<Longrightarrow> safe cl n \<Longrightarrow> returns (chk f cl n)"
begin

lemma runs:
  assumes "aligned cl" "n < cl_num_lines cl" "safe cl n"
  obtains rs where "chk f cl n = Inr rs" "listed f rs"
  using returns_if_safe[OF assms, of f] only_listed[of f cl n] by (auto simp: returns_iff listedR_Inr_iff)

lemma raises_unsafe: "chk f cl n = Inl e \<Longrightarrow> aligned cl \<Longrightarrow> n < cl_num_lines cl \<Longrightarrow> \<not> safe cl n"
  using returns_if_safe[of cl n f] by (auto simp: returns_iff)

lemma reports_listed: "chk f cl n = Inr rs \<Longrightarrow> listed f rs"
  using only_listed[of f cl n] by (simp add: listedR_Inr_iff)

lemma runs_on_lines:
  assumes "aligned cl" "\<And>n. n < cl_num_lines cl \<Longrightarrow> safe cl n"
  shows "\<exists>rss. res_mapM (chk f cl) [0..<cl_num_lines cl] = Inr rss \<and> length rss = cl_num_lines cl"
proof -
  have "res_mapM (chk f cl) [0..<cl_num_lines cl] = Inr (map (\<lambda>n. projr (chk f cl n)) [0..<cl_num_lines cl])"
    using returns_if_safe[OF assms(1) _ assms(2), of _ f] by (intro res_mapM_total) (force simp: returns_iff)
  then show ?thesis by simp
qed

end

text \<open>A check that returns on every line of the file.\<close>

locale line_check = partial_check chk "\<lambda>cl n. True" for chk
begin

lemma total: "aligned cl \<Longrightarrow> n < cl_num_lines cl \<Longrightarrow> \<exists>rs. chk f cl n = Inr rs"
  using returns_if_safe[of cl n f] by (simp add: returns_iff)

end

lemma line_checkI: "(\<And>f cl n. listedR f (chk f cl n)) \<Longrightarrow> (\<And>f. total_check (chk f)) \<Longrightarrow> line_check chk"
  by unfold_locales (auto simp: total_check_returns)

end
