(* ===== verification/FunctionState.thy ===== *)
theory FunctionState
  imports CheckBase
begin

text \<open>
  Length of functions (\<open>cpplint.py\<close>: class \<open>_FunctionState\<close> and \<open>CheckForFunctionLengths\<close>).

  The state is a record, its methods return the updated record.  \<open>Check\<close> reads the verbosity level;
  the division of Python 2 rounds down, and the logarithm of 0 raises \<open>ValueError\<close>.  \<open>log2_floor\<close>
  is \<open>int(math.log(n, 2))\<close>; on the arguments below 64 the floating-point result is exact, and above
  it the source replaces every value by 5.
\<close>

section \<open>The state\<close>

record function_state =
  in_a_function :: bool
  lines_in_function :: nat
  current_function :: string

definition init_function_state :: function_state where
  "init_function_state = \<lparr>in_a_function = False, lines_in_function = 0, current_function = []\<rparr>"

definition FS_Begin :: "string \<Rightarrow> function_state \<Rightarrow> function_state" where
  "FS_Begin function_name s =
     s\<lparr>in_a_function := True, lines_in_function := 0, current_function := function_name\<rparr>"

definition FS_Count :: "function_state \<Rightarrow> function_state" where
  "FS_Count s = (if in_a_function s then s\<lparr>lines_in_function := lines_in_function s + 1\<rparr> else s)"

definition FS_End :: "function_state \<Rightarrow> function_state" where
  "FS_End s = s\<lparr>in_a_function := False\<rparr>"

section \<open>The limit\<close>

definition NORMAL_TRIGGER :: nat where "NORMAL_TRIGGER = 250"

definition TEST_TRIGGER :: nat where "TEST_TRIGGER = 400"

text \<open>\<open>T(EST|est)\<close>\<close>

definition RE_TEST_FUNCTION :: regex where
"RE_TEST_FUNCTION = seqs [lit ''T'', RGroup 1 (alts [lit ''EST'', lit ''est''])]"

definition base_trigger :: "string \<Rightarrow> nat" where
  "base_trigger function_name = (if matches RE_TEST_FUNCTION function_name then TEST_TRIGGER else NORMAL_TRIGGER)"

text \<open>\<open>lines > base * 2**v\<close> and \<open>'%d' % (base * 2**v)\<close>: for a negative \<open>v\<close> the power is a fraction.\<close>

definition exceeds_trigger :: "nat \<Rightarrow> nat \<Rightarrow> int \<Rightarrow> bool" where
  "exceeds_trigger lines base v \<longleftrightarrow>
     (if 0 \<le> v then base * 2 ^ nat v < lines else base < lines * 2 ^ nat (- v))"

definition shown_trigger :: "nat \<Rightarrow> int \<Rightarrow> nat" where
  "shown_trigger base v = (if 0 \<le> v then base * 2 ^ nat v else base div 2 ^ nat (- v))"

fun log2_floor :: "nat \<Rightarrow> nat" where
  "log2_floor n = (if n < 2 then 0 else Suc (log2_floor (n div 2)))"

declare log2_floor.simps [simp del]

definition FS_error_level :: "nat \<Rightarrow> nat \<Rightarrow> int result" where
  "FS_error_level lines base =
     (if lines div base = 0 then Inl ValueError
      else (let error_level = log2_floor (lines div base)
            in Inr (int (if 5 < error_level then 5 else error_level))))"

definition FS_Check :: "int \<Rightarrow> string \<Rightarrow> nat \<Rightarrow> function_state \<Rightarrow> check" where
  "FS_Check verbose filename linenum s =
     (let base = base_trigger (current_function s); n = lines_in_function s
      in if exceeds_trigger n base verbose
         then res_map (\<lambda>error_level.
                [report filename (int linenum) ''readability/fn_size'' error_level
                  (''Small and focused functions are preferred: '' @ current_function s @ '' has '' @
                   show_nat n @ '' non-comment lines (error triggered by exceeding '' @
                   show_nat (shown_trigger base verbose) @ '' lines).'')])
              (FS_error_level n base)
         else Inr [])"

section \<open>Following the functions of a file\<close>

text
\<open>\<open>(\<backslash>w(\<backslash>w|::|\<backslash>*|\<backslash>&|\<backslash>s)*)\<backslash>(\<close>\<close>

definition RE_FUNCTION_HEAD :: regex where
"RE_FUNCTION_HEAD = seqs [RGroup 1 (seqs [wordc, RStar (RGroup 2 (alts [wordc, lit ''::'', lit
     ''*'', lit ''&'', ws]))]), lit ''('']"

text \<open>\<open>[A-Z_]+$\<close>\<close>

definition RE_MACRO_NAME :: regex where
"RE_MACRO_NAME = seqs [RPlus (RChar (\<lambda>c. one_of ''_'' c \<or> upper_char c)), REol]"

text \<open>\<open>(;|})\<close>\<close>

definition RE_SEMI_OR_CLOSE :: regex where
"RE_SEMI_OR_CLOSE = RGroup 1 (alts [lit '';'', lit ''}''])"

text \<open>\<open>{\<close>\<close>

definition RE_OPEN_BRACE :: regex where
"RE_OPEN_BRACE = lit ''{''"

text \<open>\<open>((\<backslash>w|:)*)\<backslash>(\<close>\<close>

definition RE_FUNCTION_NAME :: regex where
"RE_FUNCTION_NAME = seqs [RGroup 1 (RStar (RGroup 2 (alts [wordc, lit '':'']))), lit ''('']"

text \<open>\<open>TEST\<close>\<close>

definition RE_TEST_MACRO :: regex where
"RE_TEST_MACRO = lit ''TEST''"

text \<open>\<open>(\<backslash>(.*\<backslash>))\<close>\<close>

definition RE_PARAMETERS :: regex where
"RE_PARAMETERS = RGroup 1 (seqs [lit ''('', RStar anyc, lit '')''])"

text \<open>\<open>^\<backslash>}\<backslash>s*$\<close>\<close>

definition RE_FUNCTION_END :: regex where
"RE_FUNCTION_END = seqs [RBol, lit ''}'', RStar ws, REol]"

text \<open>Whether the line starts a function: \<open>Inl\<close> for \<open>match.group(1).split()[-1]\<close> on an empty list.\<close>

definition starts_function :: "string \<Rightarrow> bool result" where
  "starts_function line =
     (case re_match RE_FUNCTION_HEAD line of
        None \<Rightarrow> Inr False
      | Some match_result \<Rightarrow>
          res_map (\<lambda>function_name.
              function_name = ''TEST'' \<or> function_name = ''TEST_F'' \<or> \<not> matches RE_MACRO_NAME function_name)
            (py_get (split_space uni_space (grp match_result 1)) (- 1)))"

text \<open>The name under which a function is reported; a test macro gets its parameters.\<close>

definition function_title :: "string \<Rightarrow> string \<Rightarrow> string result" where
  "function_title line joined_line =
     (case re_search RE_FUNCTION_NAME line of
        None \<Rightarrow> Inl AttributeError
      | Some m \<Rightarrow>
          (let function = grp m 1
           in Inr (if matches RE_TEST_MACRO function
                   then (case re_search RE_PARAMETERS joined_line of
                           Some parameter_regexp \<Rightarrow> function @ grp parameter_regexp 1
                         | None \<Rightarrow> function)
                   else function @ ''()'')))"

text \<open>The search for the start of the body, from the given lines on.\<close>

fun find_body :: "string \<Rightarrow> nat \<Rightarrow> string \<Rightarrow> string list \<Rightarrow> string \<Rightarrow> function_state \<Rightarrow>
    (report list \<times> function_state) result" where
  "find_body filename linenum line [] joined_line s =
     Inr ([report filename (int linenum) ''readability/fn_size'' 5
             ''Lint failed to find start of function body.''], s)"
| "find_body filename linenum line (start_line # rest) joined_line s =
     (let joined = joined_line @ '' '' @ lstrip uni_space start_line
      in if searches RE_SEMI_OR_CLOSE start_line then Inr ([], s)
         else if searches RE_OPEN_BRACE start_line
         then res_map (\<lambda>function. ([], FS_Begin function s)) (function_title line joined)
         else find_body filename linenum line rest joined s)"

definition CheckForFunctionLengths ::
  "int \<Rightarrow> string \<Rightarrow> cleansed_lines \<Rightarrow> nat \<Rightarrow> function_state \<Rightarrow> (report list \<times> function_state) result" where
  "CheckForFunctionLengths verbose filename clean_lines linenum s =
     res_bind (line_at clean_lines (int linenum)) (\<lambda>line.
     res_bind (starts_function line) (\<lambda>starting_func.
       if starting_func then
         find_body filename linenum line (drop linenum (take (NumLines clean_lines) (cl_lines clean_lines))) [] s
       else if matches RE_FUNCTION_END line then
         res_map (\<lambda>rs. (rs, FS_End s)) (FS_Check verbose filename linenum s)
       else if \<not> matches RE_BLANK line then Inr ([], FS_Count s)
       else Inr ([], s)))"

section \<open>Totality\<close>

lemma split_space_aux_Nil: "split_space_aux sp acc s = [] \<longleftrightarrow> acc = [] \<and> list_all sp s"
  by (induction s arbitrary: acc) auto

lemma split_space_Nil: "split_space sp s = [] \<longleftrightarrow> list_all sp s"
  by (simp add: split_space_def split_space_aux_Nil)

lemma word_char_not_space: "word_char c \<Longrightarrow> \<not> uni_space c"
  by (auto simp: char_class_defs)

lemma RE_FUNCTION_HEAD_match:
  assumes "re_match RE_FUNCTION_HEAD s = Some m"
  obtains c t v where "s = c # t @ CHR ''('' # v" "grp m 1 = c # t" "word_char c"
proof -
  from assms obtain u v cs where path: "(([], s, []), (u, v, cs)) \<in> paths RE_FUNCTION_HEAD"
    and m: "m = \<lparr>mo_string = s, mo_start = 0, mo_end = length u, mo_caps = cs\<rparr>"
    by (rule re_match_path)
  obtain r where r: "RE_FUNCTION_HEAD = seqs [RGroup 1 (seqs [wordc, RStar r]), lit ''('']"
    by (simp add: RE_FUNCTION_HEAD_def)
  from path obtain c s' a ds where
    s: "s = c # s'" "word_char c" and star: "(([c], s', []), (a, ''('' @ v, ds)) \<in> paths (RStar r)"
    and cs: "cs = (1, 0, length a) # ds"
    by (auto simp: r rx_simps one_of_def)
  from star obtain t where t: "s' = t @ ''('' @ v" "a = rev t @ [c]" by (rule paths_split)
  show ?thesis
    by (rule that[of c t v]) (use s t cs in \<open>simp_all add: m grp_def mgroup_def\<close>)
qed

lemma starts_function_returns: "\<exists>b. starts_function line = Inr b"
proof (cases "re_match RE_FUNCTION_HEAD line")
  case None
  then show ?thesis by (auto simp: starts_function_def)
next
  case (Some m)
  then obtain c t v where "grp m 1 = c # t" "word_char c" by (rule RE_FUNCTION_HEAD_match)
  then have "split_space uni_space (grp m 1) \<noteq> []"
    by (simp add: split_space_Nil word_char_not_space)
  then show ?thesis using Some by (simp add: starts_function_def)
qed

lemma starts_function_paren: "starts_function line = Inr True \<Longrightarrow> CHR ''('' \<in> set line"
  by (auto simp: starts_function_def split: option.splits elim: RE_FUNCTION_HEAD_match)

lemma function_title_returns:
  assumes "CHR ''('' \<in> set line"
  shows "\<exists>t. function_title line joined = Inr t"
proof -
  from assms obtain a b where line: "line = a @ CHR ''('' # b" by (auto dest: split_list)
  obtain r where r: "RE_FUNCTION_NAME = seqs [RGroup 1 (RStar r), lit ''('']"
    by (simp add: RE_FUNCTION_NAME_def)
  have "((rev a, CHR ''('' # b, []), (rev a, CHR ''('' # b, [(1, length a, length a)])) \<in> paths (RGroup 1 (RStar r))"
    by (simp add: rx_simps paths.simps(5))
  then have "((rev a, CHR ''('' # b, []), (CHR ''('' # rev a, b, [(1, length a, length a)])) \<in> paths RE_FUNCTION_NAME"
    by (auto simp: r rx_simps one_of_def)
  then have "searches RE_FUNCTION_NAME line" unfolding searches_iff line
    by (intro exI[of _ a] exI[of _ "CHR ''('' # b"] exI) (rule conjI[OF refl])
  then show ?thesis by (auto simp: function_title_def searches_def Let_def)
qed

lemma FS_error_level_range: "FS_error_level n base = Inr k \<Longrightarrow> 0 \<le> k \<and> k \<le> 5"
  by (auto simp: FS_error_level_def Let_def split: if_splits)

lemma listed_FS_Check [listed_intros]: "listedR f (FS_Check v f l s)"
  by (cases "FS_error_level (lines_in_function s) (base_trigger (current_function s))")
    (auto simp: FS_Check_def Let_def dest: FS_error_level_range)

lemma base_trigger_pos: "0 < base_trigger name"
  by (simp add: base_trigger_def TEST_TRIGGER_def NORMAL_TRIGGER_def)

lemma FS_error_level_returns:
  assumes "0 \<le> v" "exceeds_trigger n base v" "0 < base"
  shows "n div base \<noteq> 0"
proof -
  from assms have "base * 2 ^ nat v < n" by (simp add: exceeds_trigger_def)
  moreover have "base * 1 \<le> base * 2 ^ nat v" by (rule mult_le_mono2) simp
  ultimately have "base \<le> n" by linarith
  with assms(3) show ?thesis by (simp add: div_eq_0_iff)
qed

lemma FS_Check_returns: "0 \<le> v \<Longrightarrow> \<exists>rs. FS_Check v f l s = Inr rs"
  using FS_error_level_returns[OF _ _ base_trigger_pos, of v "lines_in_function s" "current_function s"]
  by (auto simp: FS_Check_def FS_error_level_def Let_def)

lemma find_body_spec:
  assumes "CHR ''('' \<in> set line"
  shows "\<exists>rs s'. find_body f l line ls joined s = Inr (rs, s') \<and> listed f rs"
proof (induction ls arbitrary: joined)
  case Nil
  show ?case by simp
next
  case (Cons x ls)
  obtain t where "function_title line (joined @ '' '' @ lstrip uni_space x) = Inr t"
    using function_title_returns[OF assms] by blast
  with Cons.IH show ?case by (auto simp: Let_def)
qed

lemma CheckForFunctionLengths_listed:
  assumes "CheckForFunctionLengths v f cl n s = Inr (rs, s')"
  shows "listed f rs"
proof -
  from assms obtain line b where line: "line_at cl (int n) = Inr line" and b: "starts_function line = Inr b"
    by (auto simp: CheckForFunctionLengths_def)
  show ?thesis
  proof (cases b)
    case True
    with b have "CHR ''('' \<in> set line" by (auto intro: starts_function_paren)
    from find_body_spec[OF this, of f n "drop n (take (NumLines cl) (cl_lines cl))" "[]" s] assms line b True
    show ?thesis by (auto simp: CheckForFunctionLengths_def)
  next
    case False
    with assms line b listed_FS_Check[of f v n s] show ?thesis
      by (auto simp: CheckForFunctionLengths_def split: if_splits)
  qed
qed

lemma CheckForFunctionLengths_returns:
  assumes "0 \<le> v" "aligned cl" "n < cl_num_lines cl"
  shows "\<exists>rs s'. CheckForFunctionLengths v f cl n s = Inr (rs, s')"
proof -
  obtain b where b: "starts_function (cl_lines cl ! n) = Inr b" using starts_function_returns by blast
  obtain rs where rs: "FS_Check v f n s = Inr rs" using FS_Check_returns[OF assms(1)] by blast
  show ?thesis
  proof (cases b)
    case True
    with b have "CHR ''('' \<in> set (cl_lines cl ! n)" by (auto intro: starts_function_paren)
    from find_body_spec[OF this, of f n "drop n (take (NumLines cl) (cl_lines cl))" "[]" s] assms b True
    show ?thesis by (auto simp: CheckForFunctionLengths_def)
  next
    case False
    with assms b rs show ?thesis by (auto simp: CheckForFunctionLengths_def)
  qed
qed

section \<open>What is reported\<close>

lemma log2_floor_bounds: "n \<noteq> 0 \<Longrightarrow> 2 ^ log2_floor n \<le> n \<and> n < 2 ^ Suc (log2_floor n)"
proof (induction n rule: log2_floor.induct)
  case (1 n)
  show ?case
  proof (cases "n < 2")
    case True
    with 1(2) show ?thesis by (subst (1 2) log2_floor.simps) auto
  next
    case False
    then have "2 ^ log2_floor (n div 2) \<le> n div 2" "n div 2 < 2 ^ Suc (log2_floor (n div 2))"
      using "1.IH" by auto
    then show ?thesis using False by (subst (1 2) log2_floor.simps) auto
  qed
qed

lemma le_div_mult: "(a::nat) \<le> n div b \<Longrightarrow> b * a \<le> n"
  by (metis div_times_less_eq_dividend mult.commute mult_le_mono1 order_trans)

lemma div_less_mult: "0 < b \<Longrightarrow> n div b < a \<Longrightarrow> (n::nat) < b * a"
  by (simp add: div_less_iff_less_mult mult.commute)

lemma FS_error_level_bounds:
  assumes "FS_error_level n base = Inr k" "0 < base"
  shows "base * 2 ^ nat k \<le> n \<and> (k < 5 \<longrightarrow> n < base * 2 ^ Suc (nat k)) \<and> 0 \<le> k \<and> k \<le> 5"
proof -
  let ?q = "n div base" and ?l = "log2_floor (n div base)"
  from assms have q: "?q \<noteq> 0" and k: "k = int (if 5 < ?l then 5 else ?l)"
    by (auto simp: FS_error_level_def Let_def split: if_splits)
  from log2_floor_bounds[OF q] have l: "2 ^ ?l \<le> ?q" "?q < 2 ^ Suc ?l" by auto
  have "(2::nat) ^ nat k \<le> 2 ^ ?l" using k by (intro power_increasing) auto
  then have "base * 2 ^ nat k \<le> n" using l(1) by (intro le_div_mult) linarith
  moreover have "n < base * 2 ^ Suc (nat k)" if "k < 5"
    using that k l(2) assms(2) by (intro div_less_mult) (auto split: if_splits)
  ultimately show ?thesis using k by simp
qed

text \<open>C25. With a verbosity between 0 and 5, \<open>_FunctionState.Check\<close> never raises; it reports exactly when
  the lines counted exceed the limit \<open>base * 2**verbosity\<close>, and then with the confidence \<open>k\<close> for
  which the count lies between \<open>base * 2**k\<close> and \<open>base * 2**(k+1)\<close> (5 for everything longer), so
  that the handler's verbosity test passes.\<close>

theorem FS_Check_level:
  assumes "0 \<le> v" "v \<le> 5"
  shows "(FS_Check v f l s = Inr [] \<and> lines_in_function s \<le> base_trigger (current_function s) * 2 ^ nat v) \<or>
    (\<exists>r. FS_Check v f l s = Inr [r] \<and> base_trigger (current_function s) * 2 ^ nat v < lines_in_function s \<and>
       v \<le> r_conf r \<and> r_conf r \<le> 5 \<and>
       base_trigger (current_function s) * 2 ^ nat (r_conf r) \<le> lines_in_function s \<and>
       (r_conf r < 5 \<longrightarrow> lines_in_function s < base_trigger (current_function s) * 2 ^ Suc (nat (r_conf r))))"
proof (cases "exceeds_trigger (lines_in_function s) (base_trigger (current_function s)) v")
  case False
  with assms show ?thesis by (auto simp: FS_Check_def Let_def exceeds_trigger_def)
next
  case True
  let ?n = "lines_in_function s" and ?b = "base_trigger (current_function s)"
  from FS_error_level_returns[OF assms(1) True base_trigger_pos] obtain k where k: "FS_error_level ?n ?b = Inr k"
    by (auto simp: FS_error_level_def Let_def)
  note bounds = FS_error_level_bounds[OF k base_trigger_pos]
  have more: "?b * 2 ^ nat v < ?n" using True assms(1) by (simp add: exceeds_trigger_def)
  have "v \<le> k"
  proof (rule ccontr)
    assume "\<not> v \<le> k"
    then have "Suc (nat k) \<le> nat v" "k < 5" using assms(2) bounds by linarith+
    moreover from this(1) have "(2::nat) ^ Suc (nat k) \<le> 2 ^ nat v" by (rule power_increasing) simp
    then have "?b * 2 ^ Suc (nat k) \<le> ?b * 2 ^ nat v" by (rule mult_le_mono2)
    ultimately show False using bounds more by linarith
  qed
  with True k bounds more show ?thesis by (simp add: FS_Check_def)
qed

theorem FS_Check_level_witness:
  "\<exists>r. FS_Check 0 ''a.cc'' 9 \<lparr>in_a_function = True, lines_in_function = 600, current_function = ''f()''\<rparr> = Inr [r] \<and>
     r_conf r = 1"
proof -
  have b: "base_trigger ''f()'' = 250"
    by (simp add: base_trigger_def NORMAL_TRIGGER_def matches_def re_match_def re_at_def
        RE_TEST_FUNCTION_def char_class_defs)
  from FS_Check_level[of 0 "''a.cc''" 9 "\<lparr>in_a_function = True, lines_in_function = 600, current_function = ''f()''\<rparr>"]
  obtain r where r: "FS_Check 0 ''a.cc'' 9 \<lparr>in_a_function = True, lines_in_function = 600, current_function = ''f()''\<rparr> = Inr [r]"
    "0 \<le> r_conf r" "250 * 2 ^ nat (r_conf r) \<le> (600::nat)"
    "r_conf r < 5 \<longrightarrow> (600::nat) < 250 * 2 ^ Suc (nat (r_conf r))" "r_conf r \<le> 5"
    by (auto simp: b)
  then have "r_conf r \<in> {0, 1, 2, 3, 4, 5}" by auto
  with r show ?thesis by auto
qed

text \<open>A negative verbosity, which \<open>--verbose\<close> accepts, makes the limit smaller than the base; for a
  function between the two the quotient is 0 and its logarithm raises.\<close>

lemma FS_Check_negative_verbosity:
  assumes "v < 0" "lines_in_function s < base_trigger (current_function s)"
    "base_trigger (current_function s) < lines_in_function s * 2 ^ nat (- v)"
  shows "FS_Check v f l s = Inl ValueError"
  using assms by (simp add: FS_Check_def FS_error_level_def exceeds_trigger_def)

lemma FS_Check_negative_verbosity_example:
  "FS_Check (- 1) ''a.cc'' 9 \<lparr>in_a_function = True, lines_in_function = 200, current_function = ''f()''\<rparr> = Inl ValueError"
  by (rule FS_Check_negative_verbosity)
    (simp_all add: base_trigger_def NORMAL_TRIGGER_def matches_def re_match_def re_at_def
        RE_TEST_FUNCTION_def char_class_defs)

section \<open>A whole function\<close>

text \<open>The check of consecutive lines, as \<open>ProcessFileData\<close> makes it.\<close>

fun lengths_run :: "int \<Rightarrow> string \<Rightarrow> cleansed_lines \<Rightarrow> nat list \<Rightarrow> function_state \<Rightarrow>
    (report list \<times> function_state) result" where
  "lengths_run v f cl [] s = Inr ([], s)"
| "lengths_run v f cl (n # ns) s =
     res_bind (CheckForFunctionLengths v f cl n s) (\<lambda>(rs, s').
     res_map (\<lambda>(qs, s''). (rs @ qs, s'')) (lengths_run v f cl ns s'))"

lemma lengths_run_append:
  "lengths_run v f cl (ns @ ms) s =
     res_bind (lengths_run v f cl ns s) (\<lambda>(rs, s').
     res_map (\<lambda>(qs, s''). (rs @ qs, s'')) (lengths_run v f cl ms s'))"
proof (induction ns arbitrary: s)
  case Nil
  show ?case by (cases "lengths_run v f cl ms s") auto
next
  case (Cons n ns)
  show ?case
  proof (cases "CheckForFunctionLengths v f cl n s")
    case (Inr p)
    obtain rs s1 where p: "p = (rs, s1)" by (cases p)
    show ?thesis
    proof (cases "lengths_run v f cl ns s1")
      case (Inr q)
      obtain qs s2 where "q = (qs, s2)" by (cases q)
      then show ?thesis using Cons.IH[of s1] Inr p \<open>CheckForFunctionLengths v f cl n s = Inr p\<close>
        by (cases "lengths_run v f cl ms s2") (auto split: prod.splits)
    qed (use Cons.IH[of s1] Inr p in auto)
  qed simp
qed

abbreviation counted :: "cleansed_lines \<Rightarrow> nat list \<Rightarrow> nat" where
  "counted cl ns \<equiv> length (filter (\<lambda>i. \<not> matches RE_BLANK (cl_lines cl ! i)) ns)"

lemma body_lines_counted:
  assumes "aligned cl" "\<forall>i\<in>set ns. i < cl_num_lines cl \<and> starts_function (cl_lines cl ! i) = Inr False \<and>
      \<not> matches RE_FUNCTION_END (cl_lines cl ! i)" "in_a_function s"
  shows "lengths_run v f cl ns s = Inr ([], s\<lparr>lines_in_function := lines_in_function s + counted cl ns\<rparr>)"
  using assms(2,3)
proof (induction ns arbitrary: s)
  case Nil
  show ?case by simp
next
  case (Cons n ns)
  then have "CheckForFunctionLengths v f cl n s =
      Inr ([], if matches RE_BLANK (cl_lines cl ! n) then s else FS_Count s)"
    using assms(1) by (simp add: CheckForFunctionLengths_def)
  with Cons show ?case by (auto simp: FS_Count_def)
qed

lemma RE_FUNCTION_END_hd: "matches RE_FUNCTION_END line \<Longrightarrow> \<exists>t. line = CHR ''}'' # t"
  by (auto simp: matches_iff RE_FUNCTION_END_def rx_simps one_of_def)

lemma function_end_not_start:
  assumes "matches RE_FUNCTION_END line"
  shows "starts_function line = Inr False"
proof (cases "re_match RE_FUNCTION_HEAD line")
  case None
  then show ?thesis by (simp add: starts_function_def)
next
  case (Some m)
  then obtain c t v where "line = c # t @ CHR ''('' # v" "word_char c" by (rule RE_FUNCTION_HEAD_match)
  with RE_FUNCTION_END_hd[OF assms] have "word_char (CHR ''}'')" by auto
  then show ?thesis by (simp add: char_class_defs)
qed

lemma FS_Begin_fresh:
  "FS_Begin title (s :: function_state) = \<lparr>in_a_function = True, lines_in_function = 0, current_function = title\<rparr>"
  by (cases s) (simp add: FS_Begin_def)



end
