(* ===== verification/Paths.thy ===== *)
theory Paths
  imports LintLog
begin

text \<open>
  File names (\<open>cpplint.py\<close>: class \<open>FileInfo\<close>), with the functions of Python's \<open>posixpath\<close> that the
  program uses.

  The file system enters as a record with the current directory and the set of existing paths.
  \<open>RepositoryName\<close> looks for the top of the checkout; its loop for old Subversion checkouts may run
  for ever, so it is a partial function, with \<open>None\<close> for not returning.
\<close>

section \<open>The functions of posixpath\<close>

abbreviation SLASH :: char where "SLASH \<equiv> CHR ''/''"

definition rstrip_slash :: "string \<Rightarrow> string" where
  "rstrip_slash s = rstrip (\<lambda>c. c = SLASH) s"

definition path_split :: "string \<Rightarrow> string \<times> string" where
  "path_split p =
     (let i = nat (py_rfind p SLASH + 1); h = take i p
      in (if h \<noteq> [] \<and> \<not> list_all (\<lambda>c. c = SLASH) h then rstrip_slash h else h, drop i p))"

definition dirname :: "string \<Rightarrow> string" where
  "dirname p = fst (path_split p)"

definition splitext :: "string \<Rightarrow> string \<times> string" where
  "splitext p =
     (let sep = py_rfind p SLASH; dot = py_rfind p (CHR ''.'')
      in if sep < dot \<and> list_ex (\<lambda>c. c \<noteq> CHR ''.'') (py_slice p (sep + 1) dot)
         then (take (nat dot) p, drop (nat dot) p) else (p, []))"

definition path_join :: "string \<Rightarrow> string \<Rightarrow> string" where
  "path_join a b =
     (if startswith b ''/'' then b
      else if a = [] \<or> endswith a ''/'' then a @ b else a @ ''/'' @ b)"

fun norm_comps :: "bool \<Rightarrow> string list \<Rightarrow> string list \<Rightarrow> string list" where
  "norm_comps absolute acc [] = rev acc"
| "norm_comps absolute acc (c # cs) =
     (if c = [] \<or> c = ''.'' then norm_comps absolute acc cs
      else if c \<noteq> ''..'' \<or> (\<not> absolute \<and> acc = []) \<or> (acc \<noteq> [] \<and> hd acc = ''..'')
      then norm_comps absolute (c # acc) cs
      else norm_comps absolute (tl acc) cs)"

definition normpath :: "string \<Rightarrow> string" where
  "normpath path =
     (if path = [] then ''.''
      else (let slashes = (if startswith path ''//'' \<and> \<not> startswith path ''///'' then ''//''
                           else if startswith path ''/'' then ''/'' else []);
                p = slashes @ join_char SLASH (norm_comps (slashes \<noteq> []) [] (split_char SLASH path))
            in if p = [] then ''.'' else p))"

fun commonprefix :: "string \<Rightarrow> string \<Rightarrow> string" where
  "commonprefix (a # as) (b # bs) = (if a = b then a # commonprefix as bs else [])"
| "commonprefix [] bs = []"
| "commonprefix as [] = []"

record file_system =
  cwd :: string
  present :: "string \<Rightarrow> bool"

definition abspath :: "file_system \<Rightarrow> string \<Rightarrow> string" where
  "abspath fs p = normpath (if startswith p ''/'' then p else path_join (cwd fs) p)"

section \<open>Facts about directory names\<close>

lemma split_last:
  "SLASH \<in> set p \<Longrightarrow> \<exists>h t. p = h @ SLASH # t \<and> SLASH \<notin> set t \<and> nat (py_rfind p SLASH + 1) = Suc (length h)"
proof -
  assume "SLASH \<in> set p"
  then obtain i where i: "rfind_nat SLASH p = Some i"
    using rfind_nat_None[of SLASH p] by fastforce
  from rfind_nat_Some[OF this] have "i < length p" "p ! i = SLASH" "SLASH \<notin> set (drop (Suc i) p)" by auto
  then show ?thesis using i id_take_nth_drop[of i p]
    by (intro exI[of _ "take i p"] exI[of _ "drop (Suc i) p"]) (simp add: py_rfind_def)
qed

lemma dirname_no_slash: "SLASH \<notin> set p \<Longrightarrow> dirname p = []"
  using rfind_nat_None[of SLASH p] by (simp add: dirname_def path_split_def py_rfind_def)

lemma rstrip_slash_parts: "\<exists>k. s = rstrip_slash s @ replicate k SLASH"
proof -
  have "s = rstrip_slash s @ rev (takeWhile (\<lambda>c. c = SLASH) (rev s))"
    unfolding rstrip_slash_def rstrip_def rev_append[symmetric] takeWhile_dropWhile_id by simp
  moreover have "rev (takeWhile (\<lambda>c. c = SLASH) (rev s)) = replicate (length (takeWhile (\<lambda>c. c = SLASH) (rev s))) SLASH"
    by (intro replicate_eqI) (auto dest: set_takeWhileD)
  ultimately show ?thesis by metis
qed

text \<open>The directory of a name is what stands before a slash of it, or the name lies directly under the
  root (\<open>dirname p\<close> consists of slashes or is empty).\<close>

definition is_root :: "string \<Rightarrow> bool" where
  "is_root d \<longleftrightarrow> list_all (\<lambda>c. c = SLASH) d"

lemma dirname_cases:
  "is_root (dirname p) \<and> prefix (dirname p) p \<or> (\<exists>t. p = dirname p @ SLASH # t)"
proof (cases "SLASH \<in> set p")
  case False
  then show ?thesis by (simp add: dirname_no_slash is_root_def)
next
  case True
  then obtain h t where p: "p = h @ SLASH # t" "nat (py_rfind p SLASH + 1) = Suc (length h)"
    using split_last by blast
  then have take: "take (nat (py_rfind p SLASH + 1)) p = h @ [SLASH]" by simp
  show ?thesis
  proof (cases "is_root (h @ [SLASH])")
    case True
    then have "dirname p = h @ [SLASH]"
      unfolding dirname_def path_split_def Let_def take by (simp add: is_root_def)
    with True p(1) show ?thesis by simp
  next
    case False
    then have d: "dirname p = rstrip_slash (h @ [SLASH])"
      unfolding dirname_def path_split_def Let_def take by (simp add: is_root_def)
    from rstrip_slash_parts obtain k where k: "h @ [SLASH] = rstrip_slash (h @ [SLASH]) @ replicate k SLASH" by blast
    have "k \<noteq> 0"
    proof
      assume "k = 0"
      with k have "length (rstrip_slash (h @ [SLASH])) = Suc (length h)" by simp
      moreover have "rstrip_slash (h @ [SLASH]) = rstrip_slash h" by (simp add: rstrip_slash_def rstrip_def)
      ultimately show False using length_rstrip[of "\<lambda>c. c = SLASH" h] by (simp add: rstrip_slash_def)
    qed
    then obtain k' where "k = Suc k'" by (cases k) auto
    with k have "h @ [SLASH] = dirname p @ SLASH # replicate k' SLASH" by (simp add: d)
    moreover have "p = (h @ [SLASH]) @ t" using p(1) by simp
    ultimately have "p = dirname p @ SLASH # (replicate k' SLASH @ t)" by (metis append.assoc append_Cons)
    then show ?thesis by blast
  qed
qed

lemma dirname_prefix: "prefix (dirname p) p"
proof -
  have "prefix (dirname p) p" if "p = dirname p @ SLASH # t" for t
    using that by (metis prefixI)
  with dirname_cases show ?thesis by blast
qed

lemma dirname_shorter: "dirname p \<noteq> p \<Longrightarrow> length (dirname p) < length p"
  using dirname_prefix[of p] by (metis prefix_length_less strict_prefixI)

section \<open>FileInfo\<close>

record FileInfo =
  fi_filename :: string

definition FullName :: "file_system \<Rightarrow> FileInfo \<Rightarrow> string" where
  "FullName fs fi = py_replace [BS] ''/'' (abspath fs (fi_filename fi))"

text \<open>\<open>while os.path.exists(os.path.join(one_up_dir, ".svn")): ...\<close>\<close>

partial_function (option) svn_top :: "file_system \<Rightarrow> string \<Rightarrow> string \<Rightarrow> string option" where
  "svn_top fs root_dir one_up_dir =
     (if present fs (path_join one_up_dir ''.svn'') then svn_top fs (dirname root_dir) (dirname one_up_dir)
      else Some root_dir)"

definition has_checkout :: "file_system \<Rightarrow> string \<Rightarrow> bool" where
  "has_checkout fs d \<longleftrightarrow> present fs (path_join d ''.git'') \<or> present fs (path_join d ''.hg'') \<or>
     present fs (path_join d ''.svn'')"

function checkout_top :: "file_system \<Rightarrow> string \<Rightarrow> string" where
  "checkout_top fs root_dir =
     (if root_dir \<noteq> dirname root_dir \<and> \<not> has_checkout fs root_dir then checkout_top fs (dirname root_dir)
      else root_dir)"
  by pat_completeness auto
termination
  by (relation "measure (\<lambda>(fs, d). length d)") (auto intro: dirname_shorter)

declare checkout_top.simps [simp del]

definition RepositoryName :: "file_system \<Rightarrow> FileInfo \<Rightarrow> string option" where
  "RepositoryName fs fi =
     (let fullname = FullName fs fi
      in if present fs fullname then
           (let project_dir = dirname fullname
            in if present fs (path_join project_dir ''.svn'') then
                 map_option (\<lambda>root_dir. drop (length (commonprefix root_dir project_dir) + 1) fullname)
                   (svn_top fs project_dir (dirname project_dir))
               else (let root_dir = checkout_top fs (dirname fullname)
                     in if has_checkout fs root_dir
                        then Some (drop (length (commonprefix root_dir project_dir) + 1) fullname)
                        else Some fullname))
         else Some fullname)"

definition Split :: "file_system \<Rightarrow> FileInfo \<Rightarrow> (string \<times> string \<times> string) option" where
  "Split fs fi = map_option (\<lambda>googlename. case path_split googlename of (project, rest) \<Rightarrow> (project, splitext rest))
     (RepositoryName fs fi)"

definition BaseName :: "file_system \<Rightarrow> FileInfo \<Rightarrow> string option" where
  "BaseName fs fi = map_option (\<lambda>(d, b, e). b) (Split fs fi)"

definition Extension :: "file_system \<Rightarrow> FileInfo \<Rightarrow> string option" where
  "Extension fs fi = map_option (\<lambda>(d, b, e). e) (Split fs fi)"

definition NoExtension :: "file_system \<Rightarrow> FileInfo \<Rightarrow> string option" where
  "NoExtension fs fi = map_option (\<lambda>(d, b, e). d @ ''/'' @ b) (Split fs fi)"

definition IsSource :: "file_system \<Rightarrow> FileInfo \<Rightarrow> bool option" where
  "IsSource fs fi = map_option (\<lambda>e. drop 1 e \<in> set [''c'', ''cc'', ''cpp'', ''cxx'']) (Extension fs fi)"

text \<open>The search for the top of a checkout: an ancestor of the starting directory.\<close>

lemma checkout_top_prefix: "prefix (checkout_top fs d) d"
proof (induction fs d rule: checkout_top.induct)
  case (1 fs d)
  then show ?case
    by (subst checkout_top.simps) (auto intro: prefix_order.trans[OF _ dirname_prefix])
qed

text \<open>Below the file system's root, every ancestor is cut off at a slash.\<close>

lemma checkout_top_slash:
  "p = d @ SLASH # t \<Longrightarrow> \<not> is_root (checkout_top fs d) \<Longrightarrow> \<exists>t. p = checkout_top fs d @ SLASH # t"
proof (induction fs d arbitrary: t rule: checkout_top.induct)
  case (1 fs d)
  show ?case
  proof (cases "d \<noteq> dirname d \<and> \<not> has_checkout fs d")
    case True
    then have step: "checkout_top fs d = checkout_top fs (dirname d)" by (subst checkout_top.simps) simp
    show ?thesis
    proof (cases "is_root (dirname d)")
      case True
      have "is_root (checkout_top fs (dirname d))"
        using set_mono_prefix[OF checkout_top_prefix[of fs "dirname d"]] True
        by (auto simp: is_root_def list_all_iff)
      with step 1(3) show ?thesis by simp
    next
      case False
      with dirname_cases[of d] obtain t' where "d = dirname d @ SLASH # t'" by blast
      with 1(2) have "p = dirname d @ SLASH # (t' @ SLASH # t)" by (metis append.assoc append_Cons)
      with 1(1)[OF True this] 1(3) step show ?thesis by simp
    qed
  next
    case False
    then have "checkout_top fs d = d" by (subst checkout_top.simps) auto
    with 1(2) show ?thesis by auto
  qed
qed

lemma commonprefix_prefix: "prefix a b \<Longrightarrow> commonprefix a b = a"
  by (induction a b rule: commonprefix.induct) auto


definition example_fs :: file_system where
  "example_fs = \<lparr>cwd = ''/home/u/kafka'', present = (\<lambda>p. p \<in> set [''/home/u/kafka/.git'', ''/home/u/kafka/src/a.cc''])\<rparr>"


text \<open>When the top directory of the checkout is the root of the file system, the name loses its first
  character.\<close>

theorem RepositoryName_at_root:
  "RepositoryName \<lparr>cwd = ''/'', present = (\<lambda>p. p \<in> set [''/.git'', ''/abc.cc''])\<rparr> \<lparr>fi_filename = ''abc.cc''\<rparr> = Some ''bc.cc''"
  by (simp add: RepositoryName_def FullName_def abspath_def path_join_def normpath_def endswith_def dirname_def
      path_split_def py_rfind_def checkout_top.simps has_checkout_def)

text \<open>The search for the top of an old Subversion checkout returns unless a directory that is its own
  parent (the root of the file system) holds a \<open>.svn\<close>.\<close>

theorem svn_top_returns:
  assumes "\<And>d. dirname d = d \<Longrightarrow> \<not> present fs (path_join d ''.svn'')"
  shows "\<exists>d. svn_top fs root_dir one_up_dir = Some d"
proof (induction "length one_up_dir" arbitrary: root_dir one_up_dir rule: less_induct)
  case less
  show ?case
  proof (cases "present fs (path_join one_up_dir ''.svn'')")
    case True
    then have "dirname one_up_dir \<noteq> one_up_dir" using assms by blast
    from less[OF dirname_shorter[OF this]] True show ?thesis by (subst svn_top.simps) simp
  next
    case False
    then show ?thesis by (subst svn_top.simps) simp
  qed
qed

theorem svn_top_returns_witness:
  "\<exists>d. svn_top \<lparr>cwd = ''/'', present = (\<lambda>p. p \<in> set [''/a/.svn'', ''/a/b/.svn''])\<rparr> ''/a/b'' ''/a'' = Some d"
proof (rule svn_top_returns)
  fix d :: string
  assume fix_d: "dirname d = d"
  have "d \<noteq> ''/a''" "d \<noteq> ''/a/b''" "d \<noteq> ''/a/''" "d \<noteq> ''/a/b/''"
    using fix_d by (auto simp: dirname_def path_split_def py_rfind_def rstrip_slash_def rstrip_def)
  then show "\<not> present \<lparr>cwd = ''/'', present = (\<lambda>p. p \<in> set [''/a/.svn'', ''/a/b/.svn''])\<rparr> (path_join d ''.svn'')"
    by (auto simp: path_join_def append_eq_append_conv2 append_eq_Cons_conv)
qed

text \<open>When the root of the file system holds a \<open>.svn\<close>, the search that has come there does not return.\<close>

theorem svn_top_at_root_loops:
  assumes "present fs ''/.svn''"
  shows "svn_top fs root_dir ''/'' = None"
proof -
  have root: "dirname ''/'' = ''/''" "path_join ''/'' ''.svn'' = ''/.svn''"
    by (simp_all add: dirname_def path_split_def py_rfind_def path_join_def endswith_def)
  have "u = ''/'' \<longrightarrow> \<not> present fs ''/.svn''" if "svn_top fs r u = Some y" for fs r u y
  proof (rule svn_top.raw_induct[OF _ that])
    fix rec fs r u y
    assume IH: "\<And>fs r u y. rec fs r u = Some y \<Longrightarrow> u = ''/'' \<longrightarrow> \<not> present fs ''/.svn''"
      and step: "(if present fs (path_join u ''.svn'') then rec fs (dirname r) (dirname u) else Some r) = Some y"
    show "u = ''/'' \<longrightarrow> \<not> present fs ''/.svn''"
    proof
      assume u: "u = ''/''"
      show "\<not> present fs ''/.svn''" using step IH[of fs "dirname r" "''/''" y] unfolding u root by auto
    qed
  qed
  with assms show ?thesis by (cases "svn_top fs root_dir ''/''") auto
qed

theorem svn_top_at_root_loops_witness:
  "svn_top \<lparr>cwd = ''/'', present = (\<lambda>p. p \<in> set [''/.svn'', ''/a/.svn''])\<rparr> ''/a'' ''/'' = None"
  by (rule svn_top_at_root_loops) simp

end
