(* ===== verification/Includes.thy ===== *)
theory Includes
  imports Paths Cleansing
begin

text \<open>
  Order of \<open>#include\<close> lines (\<open>cpplint.py\<close>: \<open>_IncludeState\<close>, \<open>_DropCommonSuffixes\<close>,
  \<open>_IsTestFilename\<close>, \<open>_ClassifyInclude\<close>, \<open>CheckIncludeLine\<close>, \<open>FilesBelongToSameModule\<close>).

  The header types and sections of the source are integer constants; here they are enumerations with
  the order of the constants.  An operation that needs the repository name of the file returns an
  option, with \<open>None\<close> when \<open>RepositoryName\<close> does not return.

  The lemmas show that the section only moves forward, and that the sequences of header types accepted
  without a message are those of the documented order.
\<close>

section \<open>Header types and sections\<close>

definition CPP_HEADERS :: "string list" where
  "CPP_HEADERS = [
    ''algobase.h'', ''algo.h'', ''alloc.h'', ''builtinbuf.h'', ''bvector.h'', ''complex.h'',
    ''defalloc.h'', ''deque.h'', ''editbuf.h'', ''fstream.h'', ''function.h'', ''hash_map'',
    ''hash_map.h'', ''hash_set'', ''hash_set.h'', ''hashtable.h'', ''heap.h'', ''indstream.h'',
    ''iomanip.h'', ''iostream.h'', ''istream.h'', ''iterator.h'', ''list.h'', ''map.h'',
    ''multimap.h'', ''multiset.h'', ''ostream.h'', ''pair.h'', ''parsestream.h'', ''pfstream.h'',
    ''procbuf.h'', ''pthread_alloc'', ''pthread_alloc.h'', ''rope'', ''rope.h'', ''ropeimpl.h'',
    ''set.h'', ''slist'', ''slist.h'', ''stack.h'', ''stdiostream.h'', ''stl_alloc.h'',
    ''stl_relops.h'', ''streambuf.h'', ''stream.h'', ''strfile.h'', ''strstream.h'',
    ''tempbuf.h'', ''tree.h'', ''type_traits.h'', ''vector.h'', ''algorithm'', ''array'',
    ''atomic'', ''bitset'', ''chrono'', ''codecvt'', ''complex'', ''condition_variable'',
    ''deque'', ''exception'', ''forward_list'', ''fstream'', ''functional'', ''future'',
    ''initializer_list'', ''iomanip'', ''ios'', ''iosfwd'', ''iostream'', ''istream'',
    ''iterator'', ''limits'', ''list'', ''locale'', ''map'', ''memory'', ''mutex'', ''new'',
    ''numeric'', ''ostream'', ''queue'', ''random'', ''ratio'', ''regex'', ''set'', ''sstream'',
    ''stack'', ''stdexcept'', ''streambuf'', ''string'', ''strstream'', ''system_error'',
    ''thread'', ''tuple'', ''typeindex'', ''typeinfo'', ''type_traits'', ''unordered_map'',
    ''unordered_set'', ''utility'', ''valarray'', ''vector'', ''cassert'', ''ccomplex'',
    ''cctype'', ''cerrno'', ''cfenv'', ''cfloat'', ''cinttypes'', ''ciso646'', ''climits'',
    ''clocale'', ''cmath'', ''csetjmp'', ''csignal'', ''cstdalign'', ''cstdarg'', ''cstdbool'',
    ''cstddef'', ''cstdint'', ''cstdio'', ''cstdlib'', ''cstring'', ''ctgmath'', ''ctime'',
    ''cuchar'', ''cwchar'', ''cwctype'']"

text \<open>\<open>^(?:[^/]*[A-Z][^/]*\.h|lua\.h|lauxlib\.h|lualib\.h|rdkafkacpp\.h)$\<close>\<close>

definition THIRD_PARTY_HEADERS :: regex where
  "THIRD_PARTY_HEADERS = seqs [RBol, alts [
     seqs [RStar (noneof ''/''), RChar upper_char, RStar (noneof ''/''), lit ''.h''],
     lit ''lua.h'', lit ''lauxlib.h'', lit ''lualib.h'', lit ''rdkafkacpp.h''], REol]"

datatype header_type =
  C_SYS_HEADER | CPP_SYS_HEADER | LIKELY_MY_HEADER | POSSIBLE_MY_HEADER | OTHER_HEADER

datatype include_section =
  INITIAL_SECTION | MY_H_SECTION | C_SECTION | CPP_SECTION | OTHER_H_SECTION

fun section_number :: "include_section \<Rightarrow> nat" where
  "section_number INITIAL_SECTION = 0"
| "section_number MY_H_SECTION = 1"
| "section_number C_SECTION = 2"
| "section_number CPP_SECTION = 3"
| "section_number OTHER_H_SECTION = 4"

lemma section_number_inject: "section_number a = section_number b \<longleftrightarrow> a = b"
  by (cases a; cases b) simp_all

instantiation include_section :: linorder
begin

definition less_eq_include_section :: "include_section \<Rightarrow> include_section \<Rightarrow> bool" where
  "less_eq_include_section a b \<longleftrightarrow> section_number a \<le> section_number b"

definition less_include_section :: "include_section \<Rightarrow> include_section \<Rightarrow> bool" where
  "less_include_section a b \<longleftrightarrow> section_number a < section_number b"

instance
  by standard (auto simp: less_eq_include_section_def less_include_section_def section_number_inject)

end

lemmas section_order = less_eq_include_section_def less_include_section_def

fun type_name :: "header_type \<Rightarrow> string" where
  "type_name C_SYS_HEADER = ''C system header''"
| "type_name CPP_SYS_HEADER = ''C++ system header''"
| "type_name LIKELY_MY_HEADER = ''header this file implements''"
| "type_name POSSIBLE_MY_HEADER = ''header this file may implement''"
| "type_name OTHER_HEADER = ''other header''"

fun section_name :: "include_section \<Rightarrow> string" where
  "section_name INITIAL_SECTION = ''... nothing. (This can'' @ [SQ] @ ''t be an error.)''"
| "section_name MY_H_SECTION = ''a header this file implements''"
| "section_name C_SECTION = ''C system header''"
| "section_name CPP_SECTION = ''C++ system header''"
| "section_name OTHER_H_SECTION = ''other header''"

section \<open>The include state\<close>

record include_state =
  include_list :: "(string \<times> nat) list list"
  cur_section :: include_section
  last_header :: string

fun find_in_section :: "string \<Rightarrow> (string \<times> nat) list \<Rightarrow> int option" where
  "find_in_section header [] = None"
| "find_in_section header (f # fs) = (if fst f = header then Some (int (snd f)) else find_in_section header fs)"

fun find_header_in :: "string \<Rightarrow> (string \<times> nat) list list \<Rightarrow> int" where
  "find_header_in header [] = - 1"
| "find_header_in header (sec # secs) =
     (case find_in_section header sec of Some n \<Rightarrow> n | None \<Rightarrow> find_header_in header secs)"

definition FindHeader :: "string \<Rightarrow> include_state \<Rightarrow> int" where
  "FindHeader header st = find_header_in header (include_list st)"

definition ResetSection :: "string \<Rightarrow> include_state \<Rightarrow> include_state result" where
  "ResetSection directive st =
     (let st = st\<lparr>cur_section := INITIAL_SECTION, last_header := []\<rparr>
      in if directive \<in> set [''if'', ''ifdef'', ''ifndef'']
         then Inr (st\<lparr>include_list := include_list st @ [[]]\<rparr>)
         else if directive \<in> set [''else'', ''elif'']
         then (if include_list st = [] then Inl IndexError
               else Inr (st\<lparr>include_list := butlast (include_list st) @ [[]]\<rparr>))
         else Inr st)"

text \<open>\<open>_IncludeState.__init__\<close>\<close>

definition init_include_state :: include_state where
  "init_include_state = \<lparr>include_list = [[]], cur_section = INITIAL_SECTION, last_header = []\<rparr>"

definition SetLastHeader :: "string \<Rightarrow> include_state \<Rightarrow> include_state" where
  "SetLastHeader header_path st = st\<lparr>last_header := header_path\<rparr>"

text \<open>\<open>lower\<close> on a unicode string also lowers the letters of Latin-1.\<close>

definition uni_lower1 :: "char \<Rightarrow> char" where
  "uni_lower1 c = (if upper_char c \<or> (between (CHR 0xC0) (CHR 0xDE) c \<and> c \<noteq> CHR 0xD7)
     then char_of (of_char c + (32::nat)) else c)"

definition CanonicalizeAlphabeticalOrder :: "string \<Rightarrow> string" where
  "CanonicalizeAlphabeticalOrder header_path =
     map uni_lower1 (py_replace ''-'' ''_'' (py_replace ''-inl.h'' ''.h'' header_path))"

fun py_greater :: "string \<Rightarrow> string \<Rightarrow> bool" where
  "py_greater [] bs = False"
| "py_greater (a # as) [] = True"
| "py_greater (a # as) (b # bs) =
     ((of_char b :: nat) < of_char a \<or> (a = b \<and> py_greater as bs))"

text \<open>\<open>^\<backslash>s*#\<backslash>s*include\<backslash>b\<close>\<close>

definition RE_INCLUDE_WORD :: regex where
  "RE_INCLUDE_WORD = seqs [RBol, RStar ws, lit ''#'', RStar ws, lit ''include'', RWordB]"

definition IsInAlphabeticalOrder :: "string list \<Rightarrow> nat \<Rightarrow> string \<Rightarrow> include_state \<Rightarrow> bool result" where
  "IsInAlphabeticalOrder elided linenum header_path st =
     (if py_greater (last_header st) header_path
      then res_map (\<lambda>prev. \<not> matches RE_INCLUDE_WORD prev) (py_get elided (int linenum - 1))
      else Inr True)"

definition CheckNextIncludeOrder :: "header_type \<Rightarrow> include_state \<Rightarrow> string \<times> include_state" where
  "CheckNextIncludeOrder header_type st =
     (let error_message = ''Found '' @ type_name header_type @ '' after '' @ section_name (cur_section st);
          last_section = cur_section st;
          ok = (\<lambda>st'. ([], if last_section \<noteq> cur_section st' then st'\<lparr>last_header := []\<rparr> else st'))
      in case header_type of
           C_SYS_HEADER \<Rightarrow>
             if cur_section st \<le> C_SECTION then ok (st\<lparr>cur_section := C_SECTION\<rparr>)
             else (error_message, st\<lparr>last_header := []\<rparr>)
         | CPP_SYS_HEADER \<Rightarrow>
             if cur_section st \<le> CPP_SECTION then ok (st\<lparr>cur_section := CPP_SECTION\<rparr>)
             else (error_message, st\<lparr>last_header := []\<rparr>)
         | LIKELY_MY_HEADER \<Rightarrow>
             if cur_section st \<le> MY_H_SECTION then ok (st\<lparr>cur_section := MY_H_SECTION\<rparr>)
             else ok (st\<lparr>cur_section := OTHER_H_SECTION\<rparr>)
         | POSSIBLE_MY_HEADER \<Rightarrow>
             if cur_section st \<le> MY_H_SECTION then ok (st\<lparr>cur_section := MY_H_SECTION\<rparr>)
             else ok (st\<lparr>cur_section := OTHER_H_SECTION\<rparr>)
         | OTHER_HEADER \<Rightarrow> ok (st\<lparr>cur_section := OTHER_H_SECTION\<rparr>))"

section \<open>Whose header an include is\<close>

text \<open>\<open>filename[-len(suffix) - 1] in ('-', '_')\<close> with the guards before it.\<close>

definition has_suffix :: "string \<Rightarrow> string \<Rightarrow> bool" where
  "has_suffix filename sfx \<longleftrightarrow>
     endswith filename sfx \<and> length sfx < length filename \<and>
     filename ! (length filename - length sfx - 1) \<in> set ''-_''"

fun drop_first_suffix :: "string list \<Rightarrow> string \<Rightarrow> string" where
  "drop_first_suffix [] filename = fst (splitext filename)"
| "drop_first_suffix (sfx # sfxs) filename =
     (if has_suffix filename sfx then take (length filename - length sfx - 1) filename
      else drop_first_suffix sfxs filename)"

definition DropCommonSuffixes :: "string \<Rightarrow> string" where
  "DropCommonSuffixes = drop_first_suffix
     [''test.cc'', ''regtest.cc'', ''unittest.cc'', ''inl.h'', ''impl.h'', ''internal.h'']"

definition IsTestFilename :: "string \<Rightarrow> bool" where
  "IsTestFilename filename \<longleftrightarrow>
     endswith filename ''_test.cc'' \<or> endswith filename ''_unittest.cc'' \<or> endswith filename ''_regtest.cc''"

text \<open>\<open>^[^-_.]+\<close>\<close>

definition RE_FIRST_COMPONENT :: regex where
  "RE_FIRST_COMPONENT = RSeq RBol (RPlus (noneof ''-_.''))"

definition classify_user_include :: "string \<Rightarrow> string \<Rightarrow> header_type" where
  "classify_user_include repository_name incl =
     (case path_split (DropCommonSuffixes repository_name) of (target_dir, target_base) \<Rightarrow>
      case path_split (DropCommonSuffixes incl) of (include_dir, include_base) \<Rightarrow>
        if target_base = include_base \<and>
           (include_dir = target_dir \<or> include_dir = normpath (target_dir @ ''/../public''))
        then LIKELY_MY_HEADER
        else (case (re_match RE_FIRST_COMPONENT target_base, re_match RE_FIRST_COMPONENT include_base) of
                (Some t, Some i) \<Rightarrow> if grp t 0 = grp i 0 then POSSIBLE_MY_HEADER else OTHER_HEADER
              | _ \<Rightarrow> OTHER_HEADER))"

definition ClassifyInclude :: "file_system \<Rightarrow> FileInfo \<Rightarrow> string \<Rightarrow> bool \<Rightarrow> header_type option" where
  "ClassifyInclude fs fileinfo incl is_system =
     (if is_system then Some (if incl \<in> set CPP_HEADERS then CPP_SYS_HEADER else C_SYS_HEADER)
      else map_option (\<lambda>name. classify_user_include name incl) (RepositoryName fs fileinfo))"

section \<open>Checking one include\<close>

text \<open>\<open>#include\<backslash>s*"([^/]+\.h)"\<close>\<close>

definition RE_INCLUDE_NO_DIR :: regex where
  "RE_INCLUDE_NO_DIR = seqs [lit ''#include'', RStar ws, chr DQ, RGroup 1 (RSeq (RPlus (noneof ''/'')) (lit ''.h'')), chr DQ]"

text \<open>\<open>include_state.include_list[-1].append(...)\<close>\<close>

definition record_include :: "string \<Rightarrow> nat \<Rightarrow> include_state \<Rightarrow> include_state result" where
  "record_include incl linenum st =
     (if include_list st = [] then Inl IndexError
      else Inr (st\<lparr>include_list := butlast (include_list st) @ [last (include_list st) @ [(incl, linenum)]]\<rparr>))"

definition check_new_include ::
  "string \<Rightarrow> string \<Rightarrow> header_type \<Rightarrow> string list \<Rightarrow> nat \<Rightarrow> string \<Rightarrow> include_state \<Rightarrow> (report list \<times> include_state) result" where
  "check_new_include filename basename type elided linenum incl st =
     res_bind (record_include incl linenum st) (\<lambda>st.
       case CheckNextIncludeOrder type st of (error_message, st) \<Rightarrow>
         (let canonical_include = CanonicalizeAlphabeticalOrder incl;
              order = (if error_message \<noteq> []
                       then [report filename (int linenum) ''build/include_order'' 4
                               (error_message @ ''. Should be: '' @ basename @ ''.h, c system, c++ system, other.'')]
                       else [])
          in res_map (\<lambda>in_order.
               (order @ (if in_order then []
                         else [report filename (int linenum) ''build/include_alpha'' 4
                                 (''Include '' @ [DQ] @ incl @ [DQ] @ '' not in alphabetical order'')]),
                SetLastHeader canonical_include st))
             (IsInAlphabeticalOrder elided linenum canonical_include st)))"

definition CheckIncludeLine ::
  "file_system \<Rightarrow> string \<Rightarrow> cleansed_lines \<Rightarrow> nat \<Rightarrow> include_state \<Rightarrow> (report list \<times> include_state) result option" where
  "CheckIncludeLine fs filename clean_lines linenum st =
     (let fileinfo = \<lparr>fi_filename = filename\<rparr> in
      case py_get (cl_lines clean_lines) (int linenum) of
        Inl e \<Rightarrow> Some (Inl e)
      | Inr line \<Rightarrow>
         (let naming = (case re_match RE_INCLUDE_NO_DIR line of
                          None \<Rightarrow> []
                        | Some m \<Rightarrow> if matches THIRD_PARTY_HEADERS (grp m 1) then []
                                    else [report filename (int linenum) ''build/include'' 4
                                            ''Include the directory when naming .h files''])
          in case re_search RE_INCLUDE line of
               None \<Rightarrow> Some (Inr (naming, st))
             | Some m \<Rightarrow>
                (let incl = grp m 2; is_system = (grp m 1 = ''<''); duplicate_line = FindHeader incl st
                 in if 0 \<le> duplicate_line then
                      Some (Inr (naming @ [report filename (int linenum) ''build/include'' 4
                        ([DQ] @ incl @ [DQ] @ '' already included at '' @ filename @ '':'' @ show_int duplicate_line)], st))
                    else
                      Option.bind (if endswith incl ''.cc''
                                   then map_option (\<lambda>name. dirname name \<noteq> dirname incl) (RepositoryName fs fileinfo)
                                   else Some False) (\<lambda>other_package.
                        if other_package then
                          Some (Inr (naming @ [report filename (int linenum) ''build/include'' 4
                            ''Do not include .cc files from other packages''], st))
                        else if \<not> matches THIRD_PARTY_HEADERS incl then
                          Option.bind (ClassifyInclude fs fileinfo incl is_system) (\<lambda>type.
                            Option.bind (BaseName fs fileinfo) (\<lambda>basename.
                              Some (res_map (\<lambda>(rs, st'). (naming @ rs, st'))
                                (check_new_include filename basename type (cl_elided clean_lines) linenum incl st))))
                        else Some (Inr (naming, st))))))"

section \<open>Modules\<close>

definition strip_suffix :: "string \<Rightarrow> string \<Rightarrow> string" where
  "strip_suffix s p = (if endswith s p then take (length s - length p) s else s)"

definition drop_public_internal :: "string \<Rightarrow> string" where
  "drop_public_internal s = py_replace ''/internal/'' ''/'' (py_replace ''/public/'' ''/'' s)"

definition module_of_cc :: "string \<Rightarrow> string" where
  "module_of_cc filename_cc =
     (let cc = strip_suffix filename_cc ''.cc''
      in drop_public_internal
           (if endswith cc ''_unittest'' then strip_suffix cc ''_unittest'' else strip_suffix cc ''_test''))"

definition module_of_h :: "string \<Rightarrow> string" where
  "module_of_h filename_h = drop_public_internal (strip_suffix (strip_suffix filename_h ''.h'') ''-inl'')"

definition FilesBelongToSameModule :: "string \<Rightarrow> string \<Rightarrow> bool \<times> string" where
  "FilesBelongToSameModule filename_cc filename_h =
     (if \<not> endswith filename_cc ''.cc'' then (False, [])
      else if \<not> endswith filename_h ''.h'' then (False, [])
      else (let cc = module_of_cc filename_cc; h = module_of_h filename_h
            in (endswith cc h, if endswith cc h then py_slice cc 0 (- int (length h)) else [])))"

section \<open>Properties\<close>

definition lowered :: "nat \<Rightarrow> bool" where
  "lowered n \<longleftrightarrow> (65 \<le> n \<and> n \<le> 90) \<or> (192 \<le> n \<and> n \<le> 222 \<and> n \<noteq> 215)"

lemma lowered_shift: "lowered n \<Longrightarrow> \<not> lowered (n + 32)" "lowered n \<Longrightarrow> n + 32 \<noteq> 45"
  unfolding lowered_def by presburger+

lemma uni_lower1_code: "of_char (uni_lower1 c) = (if lowered (of_char c) then of_char c + (32::nat) else of_char c)"
proof -
  have "c = CHR 0xD7 \<longleftrightarrow> (of_char c :: nat) = 215"
    using of_char_eq_iff[of c "CHR 0xD7", where ?'a = nat] by simp
  then show ?thesis
    by (auto simp: uni_lower1_def lowered_def between_def upper_char_def)
qed

text \<open>Two headers that differ only in case, in \<open>-\<close> against \<open>_\<close> or in a \<open>-inl\<close> compare as equal in a
  stable way: canonicalising a canonical path changes nothing.\<close>

theorem Canonicalize_idempotent:
  "CanonicalizeAlphabeticalOrder (CanonicalizeAlphabeticalOrder p) = CanonicalizeAlphabeticalOrder p"
proof -
  let ?q = "py_replace ''-'' ''_'' (py_replace ''-inl.h'' ''.h'' p)"
  have absent: "CHR ''-'' \<notin> set ?q" unfolding py_replace_single by auto
  have dash: "uni_lower1 c \<noteq> CHR ''-''" if "c \<noteq> CHR ''-''" for c
  proof
    assume "uni_lower1 c = CHR ''-''"
    with uni_lower1_code[of c] lowered_shift(2)[of "of_char c"] have "(of_char c :: nat) = of_char (CHR ''-'')"
      by (cases "lowered (of_char c)") simp_all
    with that show False by (simp only: of_char_eq_iff)
  qed
  have "CHR ''-'' \<notin> set (map uni_lower1 ?q)"
    using absent dash unfolding set_map image_iff by metis
  then have "py_replace ''-'' ''_'' (py_replace ''-inl.h'' ''.h'' (map uni_lower1 ?q)) = map uni_lower1 ?q"
    by (simp add: py_replace_in_absent[of "CHR ''-''"])
  moreover have "uni_lower1 (uni_lower1 c) = uni_lower1 c" for c
  proof -
    have "(of_char (uni_lower1 (uni_lower1 c)) :: nat) = of_char (uni_lower1 c)"
      using lowered_shift(1)[of "of_char c"]
      by (cases "lowered (of_char c)") (simp_all add: uni_lower1_code)
    then show ?thesis by (simp only: of_char_eq_iff)
  qed
  ultimately show ?thesis by (simp add: CanonicalizeAlphabeticalOrder_def comp_def)
qed

fun order_messages :: "header_type list \<Rightarrow> include_state \<Rightarrow> string list" where
  "order_messages [] st = []"
| "order_messages (t # ts) st =
     (case CheckNextIncludeOrder t st of (m, st') \<Rightarrow> m # order_messages ts st')"

text \<open>The section only moves forward, whatever the header type, and it stays where it is when a
  message is returned.\<close>

theorem CheckNextIncludeOrder_monotone:
  "case CheckNextIncludeOrder t st of (m, st') \<Rightarrow>
     cur_section st \<le> cur_section st' \<and> (m = [] \<or> cur_section st' = cur_section st)"
  by (cases t; cases "cur_section st") (simp_all add: CheckNextIncludeOrder_def section_order)

definition my_header :: "header_type \<Rightarrow> bool" where
  "my_header t \<longleftrightarrow> t = LIKELY_MY_HEADER \<or> t = POSSIBLE_MY_HEADER"

definition not_system :: "header_type \<Rightarrow> bool" where
  "not_system t \<longleftrightarrow> t \<noteq> C_SYS_HEADER \<and> t \<noteq> CPP_SYS_HEADER"

text \<open>The documented order: own headers, C system headers, C++ system headers, and then no system
  header any more (a header of the file's own is allowed there, the deprecated place).\<close>

definition documented_order :: "header_type list \<Rightarrow> bool" where
  "documented_order ts \<longleftrightarrow>
     list_all not_system (dropWhile ((=) CPP_SYS_HEADER) (dropWhile ((=) C_SYS_HEADER) (dropWhile my_header ts)))"

lemma accepted_by_section:
  "list_all (\<lambda>m. m = []) (order_messages ts st) \<longleftrightarrow>
     (case cur_section st of
        OTHER_H_SECTION \<Rightarrow> list_all not_system ts
      | CPP_SECTION \<Rightarrow> list_all not_system (dropWhile ((=) CPP_SYS_HEADER) ts)
      | C_SECTION \<Rightarrow> list_all not_system (dropWhile ((=) CPP_SYS_HEADER) (dropWhile ((=) C_SYS_HEADER) ts))
      | _ \<Rightarrow> documented_order ts)"
proof (induction ts arbitrary: st)
  case Nil
  show ?case by (simp add: documented_order_def split: include_section.split)
next
  case (Cons t ts)
  show ?case
    by (cases t; cases "cur_section st")
      (simp_all add: CheckNextIncludeOrder_def section_order Cons.IH my_header_def not_system_def documented_order_def)
qed


lemma find_in_section_None: "find_in_section h sec = None \<longleftrightarrow> h \<notin> fst ` set sec"
  by (induction sec) auto

lemma find_in_section_ge: "find_in_section h sec = Some n \<Longrightarrow> 0 \<le> n"
  by (induction sec) (auto split: if_splits)

lemma find_header_found: "0 \<le> find_header_in h secs \<longleftrightarrow> h \<in> fst ` set (concat secs)"
proof (induction secs)
  case Nil
  show ?case by simp
next
  case (Cons sec secs)
  then show ?case
    using find_in_section_None[of h sec] find_in_section_ge[of h sec]
    by (cases "find_in_section h sec") auto
qed

lemma CheckNextIncludeOrder_list: "include_list (snd (CheckNextIncludeOrder t st)) = include_list st"
  by (cases t) (simp_all add: CheckNextIncludeOrder_def Let_def)

lemma check_new_include_found:
  assumes "check_new_include fn bn t es i h st = Inr (rs, st')"
  shows "0 \<le> FindHeader h st'"
proof -
  obtain st1 where st1: "record_include h i st = Inr st1" using assms by (auto simp: check_new_include_def)
  obtain msg st2 where st2: "CheckNextIncludeOrder t st1 = (msg, st2)" by (cases "CheckNextIncludeOrder t st1")
  have "st' = SetLastHeader (CanonicalizeAlphabeticalOrder h) st2"
    using assms by (auto simp: check_new_include_def st1 st2 Let_def)
  then have "include_list st' = include_list st1"
    using CheckNextIncludeOrder_list[of t st1] st2 by (simp add: SetLastHeader_def)
  moreover have "h \<in> fst ` set (concat (include_list st1))"
    using st1 by (auto simp: record_include_def split: if_splits)
  ultimately show ?thesis by (simp add: FindHeader_def find_header_found)
qed

lemma CheckIncludeLine_found:
  assumes line: "py_get (cl_lines cl) (int i) = Inr l" "re_search RE_INCLUDE l = Some m" "grp m 2 = h"
    and h: "\<not> matches THIRD_PARTY_HEADERS h" "\<not> endswith h ''.cc''"
    and run: "CheckIncludeLine fs fn cl i st = Some (Inr (rs, st'))"
  shows "0 \<le> FindHeader h st'"
proof (cases "0 \<le> FindHeader h st")
  case True
  with run line show ?thesis by (simp add: CheckIncludeLine_def Let_def)
next
  case False
  with run line h obtain t bn rs' where "check_new_include fn bn t (cl_elided cl) i h st = Inr (rs', st')"
    by (auto simp: CheckIncludeLine_def Let_def split: Option.bind_splits)
  then show ?thesis by (rule check_new_include_found)
qed


definition twice :: cleansed_lines where
  "twice = \<lparr>cl_elided = [''#include <set>'', ''#include <set>''], cl_lines = [''#include <set>'', ''#include <set>''],
     cl_raw_lines = [], cl_num_lines = 2, cl_lines_without_raw_strings = []\<rparr>"


text \<open>When \<open>FilesBelongToSameModule\<close> says yes, the prefix it returns followed by the header's module
  path is the module path of the \<open>.cc\<close> file, so that the prefix leads to the header.\<close>

theorem FilesBelongToSameModule_prefix:
  assumes "FilesBelongToSameModule cc h = (True, common_path)" "module_of_h h \<noteq> []"
  shows "common_path @ module_of_h h = module_of_cc cc"
proof -
  from assms(1) have e: "endswith (module_of_cc cc) (module_of_h h)"
    and p: "common_path = py_slice (module_of_cc cc) 0 (- int (length (module_of_h h)))"
    by (auto simp: FilesBelongToSameModule_def Let_def split: if_splits)
  from e obtain u where "module_of_cc cc = u @ module_of_h h" by (auto simp: endswith_iff)
  with p assms(2) show ?thesis by (simp add: py_slice_def py_clip_def)
qed

theorem FilesBelongToSameModule_prefix_witness:
  "FilesBelongToSameModule ''/abs/base/public/sysinfo_test.cc'' ''base/sysinfo-inl.h'' = (True, ''/abs/'') \<and>
   ''/abs/'' @ module_of_h ''base/sysinfo-inl.h'' = module_of_cc ''/abs/base/public/sysinfo_test.cc''"
proof -
  have f: "FilesBelongToSameModule ''/abs/base/public/sysinfo_test.cc'' ''base/sysinfo-inl.h'' = (True, ''/abs/'')"
    by (simp add: FilesBelongToSameModule_def module_of_cc_def module_of_h_def strip_suffix_def endswith_def
        drop_public_internal_def py_slice_def py_clip_def)
  moreover have "module_of_h ''base/sysinfo-inl.h'' \<noteq> []"
    by (simp add: module_of_h_def strip_suffix_def endswith_def drop_public_internal_def)
  ultimately show ?thesis using FilesBelongToSameModule_prefix[OF f] by blast
qed

end
