(* ===== verification/FileChecks.thy ===== *)
theory FileChecks
  imports CheckBase Includes
begin

text \<open>
  Checks of a whole file (\<open>cpplint.py\<close>: \<open>CheckForCopyright\<close>, \<open>GetHeaderGuardCPPVariable\<close>,
  \<open>CheckForHeaderGuard\<close>, \<open>CheckHeaderFileIncluded\<close>, \<open>CheckForBadCharacters\<close>,
  \<open>CheckForNewlineAtEOF\<close>).

  \<open>CheckForHeaderGuard\<close> parses NOLINT comments between its reports, so it returns a list of
  \<open>event\<close>s.  The regular expression \<open>'^' + _root + os.sep\<close>, compiled, is a parameter.  What asks for the name of
  the file in its repository returns an option, with \<open>None\<close> for not returning.  Lines with bad
  characters are lists of code points, since a character of the model has 8 bits.
\<close>

section \<open>Events\<close>

datatype event = Report report | Nolint string nat

definition listedE :: "string \<Rightarrow> event list \<Rightarrow> bool" where
  "listedE f es \<longleftrightarrow> (\<forall>r. Report r \<in> set es \<longrightarrow> listed f [r])"

lemma listedE_simps [simp]:
  "listedE f []"
  "listedE f (Report r # es) \<longleftrightarrow> listed f [r] \<and> listedE f es"
  "listedE f (Nolint l n # es) \<longleftrightarrow> listedE f es"
  "listedE f (es @ fs) \<longleftrightarrow> listedE f es \<and> listedE f fs"
  by (auto simp: listedE_def)

lemma listedE_map [simp]: "listedE f (map Report rs) \<longleftrightarrow> listed f rs"
  by (induction rs) (auto simp: listed_def)

section \<open>Substitution with a computed replacement\<close>

text \<open>\<open>pattern.sub(template, s)\<close> for a template with group references: \<open>rep\<close> gives the replacement of a match.\<close>

function sub_with_from :: "regex \<Rightarrow> (mobj \<Rightarrow> string) \<Rightarrow> bool \<Rightarrow> string \<Rightarrow> string \<Rightarrow> string" where
  "sub_with_from r rep adj u v =
     (case re_at r u v of
        None \<Rightarrow> (case v of [] \<Rightarrow> [] | c # v' \<Rightarrow> c # sub_with_from r rep False (c # u) v')
      | Some (u', w, cs) \<Rightarrow>
          (let t = rep \<lparr>mo_string = rev u @ v, mo_start = length u, mo_end = length u', mo_caps = cs\<rparr>
           in if shorter w v then t @ sub_with_from r rep True u' w
              else (if adj then [] else t) @
                   (case v of [] \<Rightarrow> [] | c # v' \<Rightarrow> c # sub_with_from r rep False (c # u) v')))"
  by pat_completeness auto
termination
  by (relation "measure (\<lambda>(r, rep, adj, u, v). length v)") (auto simp: shorter_iff)

declare sub_with_from.simps [simp del]

definition re_sub_with :: "regex \<Rightarrow> (mobj \<Rightarrow> string) \<Rightarrow> string \<Rightarrow> string" where
  "re_sub_with r rep s = sub_with_from r rep False [] s"

lemma sub_with_const: "sub_with_from r (\<lambda>_. t) adj u v = sub_from r t adj u v"
proof (induction r "\<lambda>_::mobj. t" adj u v rule: sub_with_from.induct)
  case (1 r adj u v)
  then show ?case
    by (subst sub_with_from.simps, subst sub_from.simps)
      (auto split: option.split list.split prod.split simp: Let_def)
qed

lemma re_sub_with_const: "re_sub_with r (\<lambda>_. t) s = re_sub r t s"
  by (simp add: re_sub_with_def re_sub_def sub_with_const)

lemma sub_with_absent:
  "(\<And>t1 t2. v = t1 @ t2 \<Longrightarrow> re_at r (rev t1 @ u) t2 = None) \<Longrightarrow> sub_with_from r rep adj u v = v"
proof (induction v arbitrary: u adj)
  case Nil
  from Nil[of "[]" "[]"] show ?case by (subst sub_with_from.simps) simp
next
  case (Cons c v)
  have "re_at r u (c # v) = None" using Cons.prems[of "[]" "c # v"] by simp
  moreover have "sub_with_from r rep False (c # u) v = v"
    by (rule Cons.IH) (use Cons.prems[of "c # _"] in simp)
  ultimately show ?case by (subst sub_with_from.simps) simp
qed

lemma re_sub_with_absent: "\<not> searches r s \<Longrightarrow> re_sub_with r rep s = s"
  unfolding re_sub_with_def
  by (rule sub_with_absent) (auto simp: searches_iff re_at_None)

section \<open>Copyright\<close>

text \<open>\<open>Copyright\<close>, ignoring case\<close>

definition RE_COPYRIGHT :: regex where
"RE_COPYRIGHT = seqs [oneof ''Cc'', oneof ''Oo'', oneof ''Pp'', oneof ''Yy'', oneof ''Rr'',
     oneof ''Ii'', oneof ''Gg'', oneof ''Hh'', oneof ''Tt'']"

definition CheckForCopyright :: "string \<Rightarrow> string list \<Rightarrow> report list" where
  "CheckForCopyright filename lines =
     (if list_ex (\<lambda>n. searches RE_COPYRIGHT (lines ! n)) [1..<min (length lines) 11] then []
      else [report filename 0 ''legal/copyright'' 5
        (''No copyright message found.  You should have a line: '' @ [DQ] @
      ''Copyright [year] <Copyright Owner>'' @ [DQ])])"

section \<open>Header guards\<close>

text \<open>\<open>_flymake\<backslash>.h$\<close>\<close>

definition RE_FLYMAKE_H :: regex where
"RE_FLYMAKE_H = seqs [lit ''_flymake.h'', REol]"

text \<open>\<open>/\<backslash>.flymake/([^/]*)$\<close>\<close>

definition RE_FLYMAKE_DIR :: regex where
"RE_FLYMAKE_DIR = seqs [lit ''/.flymake/'', RGroup 1 (RStar (noneof ''/'')), REol]"

text \<open>\<open>[^a-zA-Z0-9]\<close>\<close>

definition RE_NOT_ALNUM :: regex where
"RE_NOT_ALNUM = RChar (\<lambda>c. \<not> (lower_char c \<or> upper_char c \<or> digit_char c))"

definition GetHeaderGuardCPPVariable :: "file_system \<Rightarrow> regex option \<Rightarrow> string \<Rightarrow> string option" where
  "GetHeaderGuardCPPVariable fs root filename =
     (let filename = re_sub RE_FLYMAKE_H ''.h'' filename;
          filename = re_sub_with RE_FLYMAKE_DIR (\<lambda>m. ''/'' @ grp m 1) filename;
          filename = py_replace ''c++'' ''cpp'' (py_replace ''C++'' ''cpp'' filename)
      in map_option (\<lambda>file_path_from_root.
           let file_path_from_root = (case root of None \<Rightarrow> file_path_from_root
                 | Some r \<Rightarrow> re_sub r [] file_path_from_root)
           in py_upper (re_sub RE_NOT_ALNUM ''_'' file_path_from_root) @ ''_'')
         (RepositoryName fs \<lparr>fi_filename = filename\<rparr>))"

text \<open>\<open>//\<backslash>s*NOLINT\<backslash>(build/header_guard\<backslash>)\<close>\<close>

definition RE_NOLINT_GUARD :: regex where
"RE_NOLINT_GUARD = seqs [lit ''//'', RStar ws, lit ''NOLINT(build/header_guard)'']"

text \<open>\<open>'#endif\<backslash>s*//\<backslash>s*' + cppvar + r'(_)?\<backslash>b'\<close>, and the same with a C comment.\<close>

definition RE_ENDIF_LINE_COMMENT :: "string \<Rightarrow> regex" where
  "RE_ENDIF_LINE_COMMENT cppvar =
     seqs [lit ''#endif'', RStar ws, lit ''//'', RStar ws, lit cppvar, ROpt (RGroup 1 (lit ''_'')), RWordB]"

definition RE_ENDIF_C_COMMENT :: "string \<Rightarrow> regex" where
  "RE_ENDIF_C_COMMENT cppvar =
     seqs [lit ''#endif'', RStar ws, lit ''/*'', RStar ws, lit cppvar, ROpt (RGroup 1 (lit ''_'')), RStar ws, lit ''*/'']"

text \<open>\<open>^(?:(?:\<backslash>'(?:\<backslash>.|[^\<backslash>'])*\<backslash>')|(?:"(?:\<backslash>.|[^"])*")|[^\<backslash>'"])*//\<close>\<close>

definition RE_LINE_COMMENT :: regex where
"RE_LINE_COMMENT = seqs [RBol, RStar (alts [seqs [lit [SQ], RStar (alts [lit ''.'', noneof
     [SQ]]), lit [SQ]], seqs [lit [DQ], RStar (alts [lit ''.'', noneof [DQ]]), lit [DQ]], noneof
     [SQ, DQ]]), lit ''//'']"

record guard_scan =
  gs_ifndef :: string
  gs_ifndef_linenum :: nat
  gs_define :: string
  gs_endif :: string
  gs_endif_linenum :: nat

text \<open>The loop over the lines: the first \<open>#ifndef\<close>, the first \<open>#define\<close>, the last \<open>#endif\<close>.\<close>

definition guard_step :: "nat \<times> string \<Rightarrow> guard_scan \<Rightarrow> guard_scan" where
  "guard_step p g = (case p of (linenum, line) \<Rightarrow>
     (let g = (case split_space uni_space line of
                 a # b # _ \<Rightarrow>
                   (let g = (if gs_ifndef g = [] \<and> a = ''#ifndef''
                             then g\<lparr>gs_ifndef := b, gs_ifndef_linenum := linenum\<rparr> else g)
                    in if gs_define g = [] \<and> a = ''#define'' then g\<lparr>gs_define := b\<rparr> else g)
               | _ \<Rightarrow> g)
      in if startswith line ''#endif'' then g\<lparr>gs_endif := line, gs_endif_linenum := linenum\<rparr> else g))"

definition scan_guard :: "string list \<Rightarrow> guard_scan" where
  "scan_guard raw_lines = fold guard_step (enumerate 0 raw_lines)
     \<lparr>gs_ifndef = [], gs_ifndef_linenum = 0, gs_define = [], gs_endif = [], gs_endif_linenum = 0\<rparr>"

text \<open>The reports about the comment behind \<open>#endif\<close>.\<close>

definition check_endif_comment :: "string \<Rightarrow> string \<Rightarrow> string list \<Rightarrow> guard_scan \<Rightarrow> report list" where
  "check_endif_comment filename cppvar raw_lines g =
     (let rep = (\<lambda>k msg. [report filename (int (gs_endif_linenum g)) ''build/header_guard'' k msg]);
          line_style = ''#endif line should be '' @ [DQ] @ ''#endif  // '' @ cppvar @ [DQ];
          c_style = ''#endif line should be '' @ [DQ] @ ''#endif  /* '' @ cppvar @ '' */'' @ [DQ]
      in case re_match (RE_ENDIF_LINE_COMMENT cppvar) (gs_endif g) of
           Some m \<Rightarrow> if mgroup m 1 = Some ''_'' then rep 0 line_style else []
         | None \<Rightarrow>
             (let no_single_line_comments =
                    \<not> list_ex (\<lambda>i. matches RE_LINE_COMMENT (raw_lines ! i)) [1..<length raw_lines - 1]
              in case (if no_single_line_comments then re_match (RE_ENDIF_C_COMMENT cppvar) (gs_endif g) else None) of
                   Some m \<Rightarrow> if mgroup m 1 = Some ''_'' then rep 0 c_style else []
                 | None \<Rightarrow> rep 5 line_style))"

definition CheckForHeaderGuard ::
  "file_system \<Rightarrow> regex option \<Rightarrow> string \<Rightarrow> cleansed_lines \<Rightarrow> event list option" where
  "CheckForHeaderGuard fs root filename clean_lines =
     (let raw_lines = cl_lines_without_raw_strings clean_lines
      in if list_ex (searches RE_NOLINT_GUARD) raw_lines then Some []
         else map_option (\<lambda>cppvar.
           let g = scan_guard raw_lines
           in if gs_ifndef g = [] \<or> gs_define g = [] \<or> gs_ifndef g \<noteq> gs_define g
              then [Report (report filename 0 ''build/header_guard'' 5
                (''No #ifndef header guard found, suggested CPP variable is: '' @ cppvar))]
              else (if gs_ifndef g \<noteq> cppvar
                    then [Nolint (raw_lines ! gs_ifndef_linenum g) (gs_ifndef_linenum g),
                          Report (report filename (int (gs_ifndef_linenum g)) ''build/header_guard''
                            (if gs_ifndef g \<noteq> cppvar @ ''_'' then 5 else 0)
                            (''#ifndef header guard has wrong style, please use: '' @ cppvar))]
                    else []) @
                   Nolint (raw_lines ! gs_endif_linenum g) (gs_endif_linenum g) #
                   map Report (check_endif_comment filename cppvar raw_lines g))
         (GetHeaderGuardCPPVariable fs root filename))"

section \<open>The header of a source file\<close>

text \<open>The lines of the first included header, when no included header is the wanted one.\<close>

fun header_missing :: "string \<Rightarrow> (string \<times> nat) list \<Rightarrow> nat \<Rightarrow> nat option" where
  "header_missing headername [] first_include = Some first_include"
| "header_missing headername (f # fs) first_include =
     (if contains (fst f) headername \<or> contains headername (fst f) then None
      else header_missing headername fs (if first_include = 0 then snd f else first_include))"

definition CheckHeaderFileIncluded ::
  "file_system \<Rightarrow> string \<Rightarrow> include_state \<Rightarrow> report list option" where
  "CheckHeaderFileIncluded fs filename st =
     (if endswith filename ''_test.cc'' \<or> endswith filename ''_unittest.cc'' then Some []
      else (let headerfile = py_slice filename 0 (int (length filename) - 2) @ ''h''
            in if \<not> present fs headerfile then Some []
               else Option.bind (RepositoryName fs \<lparr>fi_filename = headerfile\<rparr>) (\<lambda>headername.
                      case header_missing headername (concat (include_list st)) 0 of
                        None \<Rightarrow> Some []
                      | Some first_include \<Rightarrow>
                          map_option (\<lambda>name. [report filename (int first_include) ''build/include'' 5
                              (name @ '' should include its header file '' @ headername)])
                            (RepositoryName fs \<lparr>fi_filename = filename\<rparr>))))"

section \<open>Characters and the end of the file\<close>

definition CheckForBadCharacters :: "string \<Rightarrow> nat list list \<Rightarrow> report list" where
  "CheckForBadCharacters filename lines =
     concat (map (\<lambda>(linenum, line).
       (if 0xFFFD \<in> set line then [report filename (int linenum) ''readability/utf8'' 5
            ''Line contains invalid UTF-8 (or Unicode replacement character).''] else []) @
       (if 0 \<in> set line then [report filename (int linenum) ''readability/nul'' 5
            ''Line contains NUL byte.''] else [])) (enumerate 0 lines))"

definition CheckForNewlineAtEOF :: "string \<Rightarrow> string list \<Rightarrow> report list" where
  "CheckForNewlineAtEOF filename lines =
     (if length lines < 3 \<or> lines ! (length lines - 2) \<noteq> []
      then [report filename (int (length lines) - 2) ''whitespace/ending_newline'' 5
             ''Could not find a newline character at the end of the file.'']
      else [])"

section \<open>Categories\<close>

lemma listed_Copyright [simp]: "listed f (CheckForCopyright f ls)"
  by (simp add: CheckForCopyright_def)

lemma listed_endif [simp]: "listed f (check_endif_comment f v ls g)"
  by (auto simp: check_endif_comment_def Let_def split: option.split)

lemma listed_HeaderGuard: "CheckForHeaderGuard fs root f cl = Some es \<Longrightarrow> listedE f es"
  by (auto simp: CheckForHeaderGuard_def Let_def split: if_splits)

lemma listed_HeaderFileIncluded: "CheckHeaderFileIncluded fs f st = Some rs \<Longrightarrow> listed f rs"
  by (auto simp: CheckHeaderFileIncluded_def Let_def split: if_splits Option.bind_splits option.splits)

lemma listed_BadCharacters [simp]: "listed f (CheckForBadCharacters f ls)"
  by (auto simp: CheckForBadCharacters_def)

lemma listed_NewlineAtEOF [simp]: "listed f (CheckForNewlineAtEOF f ls)"
  by (simp add: CheckForNewlineAtEOF_def)

section \<open>The end of the file\<close>

lemma split_char_snoc:
  "split_char sep (s @ [c]) =
     (if c = sep then split_char sep s @ [[]]
      else butlast (split_char sep s) @ [last (split_char sep s) @ [c]])"
proof (induction s)
  case Nil
  show ?case by simp
next
  case (Cons d s)
  obtain p ps where "split_char sep s = p # ps" using split_char_not_Nil[of sep s] by (cases "split_char sep s") auto
  with Cons show ?case by (cases ps) auto
qed

lemma last_split_char: "last (split_char sep s) = [] \<longleftrightarrow> s = [] \<or> last s = sep"
  by (cases s rule: rev_cases) (auto simp: split_char_snoc)

text \<open>On the lines that \<open>ProcessFileData\<close> makes of a text (split at newlines, with a marker in
  front and behind), \<open>CheckForNewlineAtEOF\<close> is silent exactly when the text is empty or ends in a
  newline.\<close>

theorem CheckForNewlineAtEOF_iff:
  "CheckForNewlineAtEOF f ([m] @ split_char NL t @ [m']) = [] \<longleftrightarrow> t = [] \<or> last t = NL"
proof -
  let ?ls = "[m] @ split_char NL t @ [m']"
  have "?ls ! (length ?ls - 2) = last (split_char NL t)"
    by (simp add: nth_append nth_Cons' last_conv_nth)
  moreover have "\<not> length ?ls < 3" using split_char_not_Nil[of NL t] by (cases "split_char NL t") auto
  ultimately show ?thesis using last_split_char[of NL t] by (simp add: CheckForNewlineAtEOF_def)
qed

section \<open>The guard variable\<close>

definition guard_char :: "char \<Rightarrow> bool" where
  "guard_char c \<longleftrightarrow> upper_char c \<or> digit_char c \<or> c = CHR ''_''"

lemma sub_single_char:
  "sub_from (RChar p) rep adj u v = concat (map (\<lambda>c. if p c then rep else [c]) v)"
proof (induction v arbitrary: adj u)
  case Nil
  show ?case by (subst sub_from.simps) (simp add: re_at_def)
next
  case (Cons c v)
  then show ?case by (subst sub_from.simps) (simp add: re_at_def shorter_iff)
qed

lemma guard_char_upper1: "alnum_char c \<Longrightarrow> guard_char (upper1 c)"
proof -
  assume "alnum_char c"
  show ?thesis
  proof (cases "lower_char c")
    case True
    then have c: "97 \<le> (of_char c :: nat)" "(of_char c :: nat) \<le> 122"
      by (auto simp: lower_char_def between_def)
    then have "of_char (char_of (of_char c - 32 :: nat)) = (of_char c - 32 :: nat)" by simp
    then have "upper_char (char_of (of_char c - 32 :: nat))"
      using c unfolding upper_char_def between_def by (simp del: of_char_of) linarith
    with True show ?thesis by (simp add: guard_char_def upper1_def)
  next
    case False
    with \<open>alnum_char c\<close> show ?thesis by (auto simp: guard_char_def upper1_def alnum_char_def alpha_char_def)
  qed
qed

lemma guard_char_word: "guard_char c \<Longrightarrow> word_char c"
  by (auto simp: guard_char_def word_char_def alnum_char_def alpha_char_def)

lemma RE_NOT_ALNUM_char: "RE_NOT_ALNUM = RChar (\<lambda>c. \<not> alnum_char c)"
  by (auto simp: RE_NOT_ALNUM_def alnum_char_def alpha_char_def)

lemma guard_variable:
  assumes "GetHeaderGuardCPPVariable fs root f = Some v"
  obtains w where "v = w @ ''_''" "list_all guard_char w"
proof -
  have "guard_char (upper1 (CHR ''_''))" by (simp add: guard_char_def upper1_def char_class_defs)
  then have "list_all guard_char (py_upper (re_sub RE_NOT_ALNUM ''_'' p))" for p
    by (auto simp: py_upper_def re_sub_def RE_NOT_ALNUM_char sub_single_char list_all_iff guard_char_upper1)
  with assms that show ?thesis by (auto simp: GetHeaderGuardCPPVariable_def Let_def)
qed

text \<open>C40. The guard variable consists of upper-case letters, digits and underscores and ends in an
  underscore, for every file name and every \<open>--root\<close>.\<close>

theorem GetHeaderGuardCPPVariable_chars:
  assumes "GetHeaderGuardCPPVariable fs root f = Some v"
  shows "list_all guard_char v \<and> v \<noteq> [] \<and> last v = CHR ''_''"
  by (rule guard_variable[OF assms]) (simp add: guard_char_def)

lemma example_guard: "GetHeaderGuardCPPVariable example_fs None ''/a-b.h'' = Some ''_A_B_H_''"
proof -
  have full: "FullName example_fs \<lparr>fi_filename = ''/a-b.h''\<rparr> = ''/a-b.h''"
    by (simp add: FullName_def abspath_def normpath_def)
  have "\<not> searches RE_FLYMAKE_H ''/a-b.h''" "\<not> searches RE_FLYMAKE_DIR ''/a-b.h''"
    by (simp_all add: RE_FLYMAKE_H_def RE_FLYMAKE_DIR_def searches_def re_search_def re_at_def char_class_defs)
  then have names: "re_sub RE_FLYMAKE_H ''.h'' ''/a-b.h'' = ''/a-b.h''"
    "re_sub_with RE_FLYMAKE_DIR (\<lambda>m. ''/'' @ grp m 1) ''/a-b.h'' = ''/a-b.h''"
    by (simp_all add: re_sub_absent re_sub_with_absent)
  have "RepositoryName example_fs \<lparr>fi_filename = ''/a-b.h''\<rparr> = Some ''/a-b.h''"
    unfolding RepositoryName_def full by (simp add: example_fs_def)
  moreover have "re_sub RE_NOT_ALNUM ''_'' ''/a-b.h'' = ''_a_b_h''"
    by (simp add: re_sub_def RE_NOT_ALNUM_char sub_single_char char_class_defs)
  ultimately show ?thesis
    by (simp add: GetHeaderGuardCPPVariable_def names names(2)[simplified] py_replace_in_absent py_upper_def
        upper1_def char_class_defs char_of_eq_iff)
qed

theorem GetHeaderGuardCPPVariable_chars_witness:
  "list_all guard_char ''_A_B_H_''"
  using GetHeaderGuardCPPVariable_chars[OF example_guard] by simp

section \<open>A correct guard\<close>

lemma split_space_aux_word:
  "list_all (\<lambda>c. \<not> sp c) w \<Longrightarrow> split_space_aux sp acc w = (if acc = [] \<and> w = [] then [] else [rev acc @ w])"
  by (induction w arbitrary: acc) auto

lemma split_space_aux_words:
  "list_all (\<lambda>c. \<not> sp c) w \<Longrightarrow> acc \<noteq> [] \<or> w \<noteq> [] \<Longrightarrow> sp c \<Longrightarrow>
   split_space_aux sp acc (w @ c # s) = (rev acc @ w) # split_space_aux sp [] s"
  by (induction w arbitrary: acc) auto

lemma split_space_aux_chars: "p \<in> set (split_space_aux sp acc s) \<Longrightarrow> set p \<subseteq> set acc \<union> set s"
proof (induction s arbitrary: acc)
  case Nil
  then show ?case by (auto split: if_splits)
next
  case (Cons a s)
  from Cons.IH[of "[]"] Cons.IH[of "a # acc"] Cons.prems show ?case by (auto split: if_splits)
qed

lemma guard_word_no_space: "list_all guard_char v \<Longrightarrow> list_all (\<lambda>c. \<not> uni_space c) v"
  by (auto simp: list_all_iff guard_char_def char_class_defs)

lemma split_directive:
  assumes "list_all guard_char v" "v \<noteq> []" "list_all (\<lambda>c. \<not> uni_space c) w" "w \<noteq> []"
  shows "split_space uni_space (w @ '' '' @ v) = [w, v]"
  using assms split_space_aux_words[of uni_space w "[]" "CHR '' ''" v]
    split_space_aux_word[OF guard_word_no_space[OF assms(1)], of "[]"]
  by (simp add: split_space_def char_class_defs)

lemma guard_step_plain:
  assumes "CHR ''#'' \<notin> set line"
  shows "guard_step (n, line) g = g"
proof -
  have "p \<noteq> ''#ifndef'' \<and> p \<noteq> ''#define''" if "p \<in> set (split_space uni_space line)" for p
    using split_space_aux_chars[of p uni_space "[]" line] that assms by (auto simp: split_space_def)
  moreover have "\<not> startswith line ''#endif''" using assms by (auto simp: prefix_def)
  ultimately show ?thesis by (auto simp: guard_step_def Let_def split: list.splits)
qed

lemma fold_guard_plain: "\<forall>l\<in>set ls. CHR ''#'' \<notin> set l \<Longrightarrow> fold guard_step (enumerate n ls) g = g"
  by (induction ls arbitrary: n) (auto simp: guard_step_plain)

text \<open>Once both names are found, only the last \<open>#endif\<close> changes.\<close>

lemma fold_guard_found:
  assumes "gs_ifndef g \<noteq> []" "gs_define g \<noteq> []"
  shows "gs_ifndef (fold guard_step (enumerate n ls) g) = gs_ifndef g \<and>
    gs_define (fold guard_step (enumerate n ls) g) = gs_define g \<and>
    ((\<forall>l\<in>set ls. \<not> startswith l ''#endif'') \<longrightarrow> gs_endif (fold guard_step (enumerate n ls) g) = gs_endif g)"
  using assms
proof (induction ls arbitrary: n g)
  case Nil
  show ?case by simp
next
  case (Cons l ls)
  have "gs_ifndef (guard_step (n, l) g) = gs_ifndef g" "gs_define (guard_step (n, l) g) = gs_define g"
    "\<not> startswith l ''#endif'' \<Longrightarrow> gs_endif (guard_step (n, l) g) = gs_endif g"
    using Cons.prems by (auto simp: guard_step_def Let_def split: list.splits)
  with Cons.IH[of "guard_step (n, l) g" "Suc n"] Cons.prems show ?case by auto
qed

lemma RE_ENDIF_LINE_COMMENT_paths:
  "(([], s, []), (u, w, cs)) \<in> paths (RE_ENDIF_LINE_COMMENT v) \<longleftrightarrow>
     (\<exists>t1 t2 x. s = ''#endif'' @ t1 @ ''//'' @ t2 @ v @ x @ w \<and> list_all ascii_space t1 \<and> list_all ascii_space t2 \<and>
        u = rev (''#endif'' @ t1 @ ''//'' @ t2 @ v @ x) \<and> at_word_boundary u w \<and>
        (x = [] \<and> cs = [] \<or> x = ''_'' \<and> cs = [(1, length u - 1, length u)]))" (is "?l = ?r")
proof
  assume ?l
  then obtain t1 t2 a b c where s: "s = ''#endif'' @ t1 @ ''//'' @ t2 @ v @ b" "list_all ascii_space t1"
    "list_all ascii_space t2" "a = rev v @ rev t2 @ rev ''//'' @ rev t1 @ rev ''#endif''"
    and opt: "((a, b, []), (u, w, cs)) \<in> paths (ROpt (RGroup 1 (lit ''_'')))" and eol: "at_word_boundary u w"
    unfolding RE_ENDIF_LINE_COMMENT_def seqs.simps paths_Seq paths_lit paths_Star_char paths_WordB by fastforce
  from opt s(4) have "(b = w \<and> u = a \<and> cs = []) \<or> (b = ''_'' @ w \<and> u = rev ''_'' @ a \<and> cs = [(1, length u - 1, length u)])"
    unfolding paths_Alt paths_Group paths_lit paths_Empty by auto
  with s eol show ?r by fastforce
next
  assume ?r
  then obtain t1 t2 x where s: "s = ''#endif'' @ t1 @ ''//'' @ t2 @ v @ x @ w" "list_all ascii_space t1"
    "list_all ascii_space t2" "u = rev (''#endif'' @ t1 @ ''//'' @ t2 @ v @ x)" "at_word_boundary u w"
    and x: "x = [] \<and> cs = [] \<or> x = ''_'' \<and> cs = [(1, length u - 1, length u)]" by blast
  let ?a = "rev v @ rev t2 @ rev ''//'' @ rev t1 @ rev ''#endif''"
  have "((?a, x @ w, []), (u, w, cs)) \<in> paths (ROpt (RGroup 1 (lit ''_'')))"
    using x s(4) unfolding paths_Alt paths_Group paths_lit paths_Empty by auto
  then show ?l
    unfolding RE_ENDIF_LINE_COMMENT_def seqs.simps paths_Seq paths_lit paths_Star_char paths_WordB
    using s by fastforce
qed

lemma endif_comment_match:
  assumes "list_all guard_char v" "v \<noteq> []"
  obtains m where "re_match (RE_ENDIF_LINE_COMMENT v) (''#endif  // '' @ v) = Some m" "mgroup m 1 = None"
proof -
  let ?l = "''#endif  // '' @ v"
  have word: "word_char (last v)" "word_char (hd v)"
    using assms guard_char_word by (auto simp: list_all_iff)
  have "at_word_boundary (rev ?l) []"
    using word(1) assms(2) by (cases v rule: rev_cases) (auto simp: at_word_boundary_def)
  then have "(([], ?l, []), (rev ?l, [], [])) \<in> paths (RE_ENDIF_LINE_COMMENT v)"
    unfolding RE_ENDIF_LINE_COMMENT_paths
    by (intro exI[of _ "''  ''"] exI[of _ "'' ''"] exI[of _ "[]"]) (simp add: ascii_space_def)
  then obtain m where m: "re_match (RE_ENDIF_LINE_COMMENT v) ?l = Some m"
    using re_match_None[of "RE_ENDIF_LINE_COMMENT v" ?l] by (cases "re_match (RE_ENDIF_LINE_COMMENT v) ?l") auto
  from m obtain u w cs where path: "(([], ?l, []), (u, w, cs)) \<in> paths (RE_ENDIF_LINE_COMMENT v)"
    and mo: "m = \<lparr>mo_string = ?l, mo_start = 0, mo_end = length u, mo_caps = cs\<rparr>" by (rule re_match_path)
  from path obtain t1 t2 x where l0: "?l = ''#endif'' @ t1 @ ''//'' @ t2 @ v @ x @ w" "list_all ascii_space t1"
    and x: "x = [] \<and> cs = [] \<or> x = ''_''"
    unfolding RE_ENDIF_LINE_COMMENT_paths by blast
  have l: "''  // '' @ v = t1 @ ''//'' @ t2 @ v @ x @ w" using l0(1) by simp
  have "cs = []"
  proof (rule ccontr)
    assume "cs \<noteq> []"
    with x have x: "x = ''_''" by auto
    have "\<not> ascii_space SLASH" by (simp add: ascii_space_def)
    then have "SLASH \<notin> set t1" using l0(2) by (auto simp: list_all_iff)
    moreover have "''  '' @ SLASH # ''/ '' @ v = t1 @ SLASH # ''/'' @ t2 @ v @ x @ w" using l by simp
    ultimately have "''/ '' @ v = ''/'' @ t2 @ v @ x @ w"
      using first_split_unique[of "''  ''" SLASH "''/ '' @ v" t1 "''/'' @ t2 @ v @ x @ w"] by simp
    then have eq: "'' '' @ v = t2 @ v @ ''_'' @ w" using x by simp
    then have "length t2 + length w = 0" by (auto dest: arg_cong[of _ _ length])
    with eq have "hd ('' '' @ v) = hd (v @ ''_'')" by simp
    with assms(2) have "hd v = CHR '' ''" by simp
    moreover have "\<not> word_char (CHR '' '')" by (simp add: char_class_defs)
    ultimately show False using word(2) by simp
  qed
  then have "mgroup m 1 = None" by (simp add: mo mgroup_def)
  with m show ?thesis by (rule that)
qed

text \<open>C14. A header whose first directives are \<open>#ifndef V\<close> and \<open>#define V\<close>, for the guard variable \<open>V\<close> of
  its name, and whose last \<open>#endif\<close> line is \<open>#endif  // V\<close>, is not reported, whatever its body.\<close>

theorem CheckForHeaderGuard_accepts:
  assumes "GetHeaderGuardCPPVariable fs root f = Some v"
    and "cl_lines_without_raw_strings cl =
      pre @ [''#ifndef '' @ v, ''#define '' @ v] @ body @ [''#endif  // '' @ v] @ post"
    and "\<forall>l\<in>set pre. CHR ''#'' \<notin> set l" and "\<forall>l\<in>set post. \<not> startswith l ''#endif''"
  shows "\<exists>es. CheckForHeaderGuard fs root f cl = Some es \<and> (\<forall>r. Report r \<notin> set es)"
proof (cases "list_ex (searches RE_NOLINT_GUARD) (cl_lines_without_raw_strings cl)")
  case True
  then show ?thesis by (simp add: CheckForHeaderGuard_def)
next
  case False
  let ?ls = "cl_lines_without_raw_strings cl"
  have v: "list_all guard_char v" "v \<noteq> []"
    by (rule guard_variable[OF assms(1)], simp add: guard_char_def)+
  have word: "list_all (\<lambda>c. \<not> uni_space c) ''#ifndef''" "list_all (\<lambda>c. \<not> uni_space c) ''#define''"
    by (simp_all add: char_class_defs)
  note steps = split_directive[OF v word(1)] split_directive[OF v word(2)]
  define g0 where "g0 = \<lparr>gs_ifndef = [], gs_ifndef_linenum = 0, gs_define = [], gs_endif = [], gs_endif_linenum = 0\<rparr>"
  define k where "k = length pre"
  define g2 where "g2 = guard_step (Suc k, ''#define '' @ v) (guard_step (k, ''#ifndef '' @ v) g0)"
  have g2: "gs_ifndef g2 = v" "gs_define g2 = v"
    using steps v by (simp_all add: g2_def g0_def guard_step_def Let_def)
  define g3 where "g3 = fold guard_step (enumerate (k + 2) body) g2"
  have g3: "gs_ifndef g3 = v" "gs_define g3 = v"
    using fold_guard_found[of g2 "k + 2" body] g2 v by (simp_all add: g3_def)
  define g4 where "g4 = guard_step (k + 2 + length body, ''#endif  // '' @ v) g3"
  have g4: "gs_ifndef g4 = v" "gs_define g4 = v" "gs_endif g4 = ''#endif  // '' @ v"
    using g3 v by (auto simp: g4_def guard_step_def Let_def split: list.splits)
  have "scan_guard ?ls = fold guard_step (enumerate (k + 3 + length body) post) g4"
    unfolding scan_guard_def assms(2) g4_def g3_def g2_def g0_def k_def
    by (simp add: enumerate_append_eq fold_guard_plain[OF assms(3)] eval_nat_numeral)
  then have g: "gs_ifndef (scan_guard ?ls) = v" "gs_define (scan_guard ?ls) = v"
    "gs_endif (scan_guard ?ls) = ''#endif  // '' @ v"
    using fold_guard_found[of g4 "k + 3 + length body" post] g4 v(2) assms(4) by simp_all
  obtain m where "re_match (RE_ENDIF_LINE_COMMENT v) (''#endif  // '' @ v) = Some m" "mgroup m 1 = None"
    using endif_comment_match[OF v] by blast
  then have "check_endif_comment f v ?ls (scan_guard ?ls) = []"
    by (simp add: check_endif_comment_def g)
  then show ?thesis using False v(2) by (auto simp: CheckForHeaderGuard_def assms(1) g Let_def)
qed

theorem CheckForHeaderGuard_accepts_witness:
  "\<exists>es. CheckForHeaderGuard example_fs None ''/a-b.h'' \<lparr>cl_elided = [], cl_lines = [], cl_raw_lines = [], cl_num_lines = 0,
     cl_lines_without_raw_strings = [''// head'', ''#ifndef _A_B_H_'', ''#define _A_B_H_'', ''int x;'',
       ''#endif  // _A_B_H_'', [], ''// tail'']\<rparr> = Some es \<and> (\<forall>r. Report r \<notin> set es)"
  by (rule CheckForHeaderGuard_accepts[OF example_guard, of _ "[''// head'']" "[''int x;'']" "[[], ''// tail'']"])
    simp_all

end
