(* ===== verification/WhatYouUse.thy ===== *)
theory WhatYouUse
  imports CheckBase Includes
begin

text \<open>
  Missing includes of the standard library (\<open>cpplint.py\<close>: \<open>_HEADERS_CONTAINING_TEMPLATES\<close> and the
  patterns built from it, \<open>UpdateIncludeState\<close>, \<open>CheckForIncludeWhatYouUse\<close>).

  The dictionary \<open>required\<close> is an association list with distinct keys in the order of their
  insertion; the order in which Python 2 enumerates a dictionary, and with it the order of the
  reports, is not specified.  The files that can be read are the parameter \<open>io\<close>, which gives the
  lines of a file with their newlines.
\<close>

section \<open>Patterns and tables\<close>

definition HEADERS_CONTAINING_TEMPLATES :: "(string \<times> string list) list" where
  "HEADERS_CONTAINING_TEMPLATES = [
    (''<deque>'', [''deque'']),
    (''<functional>'', [''unary_function'', ''binary_function'', ''plus'', ''minus'', ''multiplies'', ''divides'',
       ''modulus'', ''negate'', ''equal_to'', ''not_equal_to'', ''greater'', ''less'', ''greater_equal'', ''less_equal'',
       ''logical_and'', ''logical_or'', ''logical_not'', ''unary_negate'', ''not1'', ''binary_negate'', ''not2'',
       ''bind1st'', ''bind2nd'', ''pointer_to_unary_function'', ''pointer_to_binary_function'', ''ptr_fun'',
       ''mem_fun_t'', ''mem_fun'', ''mem_fun1_t'', ''mem_fun1_ref_t'', ''mem_fun_ref_t'', ''const_mem_fun_t'',
       ''const_mem_fun1_t'', ''const_mem_fun_ref_t'', ''const_mem_fun1_ref_t'', ''mem_fun_ref'']),
    (''<limits>'', [''numeric_limits'']),
    (''<list>'', [''list'']),
    (''<map>'', [''map'', ''multimap'']),
    (''<memory>'', [''allocator'']),
    (''<queue>'', [''queue'', ''priority_queue'']),
    (''<set>'', [''set'', ''multiset'']),
    (''<stack>'', [''stack'']),
    (''<string>'', [''char_traits'', ''basic_string'']),
    (''<tuple>'', [''tuple'']),
    (''<utility>'', [''pair'']),
    (''<vector>'', [''vector'']),
    (''<hash_map>'', [''hash_map'', ''hash_multimap'']),
    (''<hash_set>'', [''hash_set'', ''hash_multiset'']),
    (''<slist>'', [''slist''])]"

text \<open>\<open>\<backslash>bstring\<backslash>b\<close>\<close>

definition RE_STRING :: regex where
"RE_STRING = seqs [RWordB, lit ''string'', RWordB]"

text \<open>\<open>[^>.]\<backslash>bNAME(<.*?>)?\([^\)]\<close>\<close>

definition RE_ALGORITHM :: "string \<Rightarrow> regex" where
  "RE_ALGORITHM template = seqs [noneof ''>.'', RWordB, lit template,
     ROpt (RGroup 1 (seqs [lit ''<'', RLazy anyc, lit ''>''])), lit ''('', noneof '')'']"

definition algorithm_patterns :: "(regex \<times> string \<times> string) list" where
  "algorithm_patterns = map (\<lambda>t. (RE_ALGORITHM t, t, ''<algorithm>''))
     [''copy'', ''max'', ''min'', ''min_element'', ''sort'', ''swap'', ''transform'']"

text \<open>\<open>(<|\<backslash>b)NAME\<backslash>s*<\<close>\<close>

definition RE_TEMPLATE :: "string \<Rightarrow> regex" where
  "RE_TEMPLATE template = seqs [RGroup 1 (alts [lit ''<'', RWordB]), lit template, RStar ws, lit ''<'']"

definition template_patterns :: "(regex \<times> string \<times> string) list" where
  "template_patterns = concat (map (\<lambda>(header, templates).
     map (\<lambda>t. (RE_TEMPLATE t, t @ ''<>'', header)) templates) HEADERS_CONTAINING_TEMPLATES)"

section \<open>The headers a file needs\<close>

type_synonym needs = "(string \<times> nat \<times> string) list"

text \<open>\<open>required[header] = (linenum, template)\<close>\<close>

fun need :: "string \<Rightarrow> nat \<Rightarrow> string \<Rightarrow> needs \<Rightarrow> needs" where
  "need h n t [] = [(h, n, t)]"
| "need h n t ((h', p) # d) = (if h = h' then (h, n, t) # d else (h', p) # need h n t d)"

definition need_matching :: "(regex \<times> string \<times> string) list \<Rightarrow> nat \<Rightarrow> string \<Rightarrow> needs \<Rightarrow> needs" where
  "need_matching pats linenum line d =
     fold (\<lambda>(pattern, template, header) d. if searches pattern line then need header linenum template d else d) pats d"

definition required_line :: "nat \<Rightarrow> string \<Rightarrow> needs \<Rightarrow> needs" where
  "required_line linenum line d =
     (if line = [] \<or> hd line = CHR ''#'' then d
      else (let d = (case re_search RE_STRING line of
                 None \<Rightarrow> d
               | Some matched \<Rightarrow>
                   (let before = take (mo_start matched) line
                    in if endswith before ''std::'' \<or> \<not> endswith before ''::''
                       then need ''<string>'' linenum ''string'' d else d));
                d = need_matching algorithm_patterns linenum line d
            in if CHR ''<'' \<notin> set line then d
               else need_matching template_patterns linenum line d))"

fun required_lines :: "(nat \<times> string) list \<Rightarrow> needs \<Rightarrow> needs" where
  "required_lines [] d = d"
| "required_lines ((linenum, line) # ls) d = required_lines ls (required_line linenum line d)"

section \<open>The headers a file has\<close>

text \<open>The keys of \<open>include_dict\<close>; the line numbers it stores are not used.\<close>

type_synonym reader = "string \<Rightarrow> string list option"

fun included_in :: "string list \<Rightarrow> string list \<Rightarrow> string list" where
  "included_in [] keys = keys"
| "included_in (line # ls) keys =
     (case re_search RE_INCLUDE (CleanseComments line) of
        None \<Rightarrow> included_in ls keys
      | Some match \<Rightarrow> included_in ls (if grp match 2 \<in> set keys then keys else keys @ [grp match 2]))"

definition UpdateIncludeState :: "reader \<Rightarrow> string \<Rightarrow> string list \<Rightarrow> bool \<times> string list" where
  "UpdateIncludeState io filename keys =
     (case io filename of None \<Rightarrow> (False, keys) | Some ls \<Rightarrow> (True, included_in ls keys))"

text \<open>\<open>_flymake\<backslash>.cc$\<close>\<close>

definition RE_FLYMAKE_CC :: regex where
"RE_FLYMAKE_CC = seqs [lit ''_flymake.cc'', REol]"

text \<open>The loop over the keys: the headers of the same module that can be read are added.\<close>

fun read_headers :: "reader \<Rightarrow> string \<Rightarrow> string list \<Rightarrow> bool \<Rightarrow> string list \<Rightarrow> bool \<times> string list" where
  "read_headers io abs_filename [] header_found keys = (header_found, keys)"
| "read_headers io abs_filename (header # headers) header_found keys =
     (case FilesBelongToSameModule abs_filename header of (same_module, common_path) \<Rightarrow>
        if same_module then
          (case UpdateIncludeState io (common_path @ header) keys of (added, keys') \<Rightarrow>
             read_headers io abs_filename headers (header_found \<or> added) keys')
        else read_headers io abs_filename headers header_found keys)"

definition CheckForIncludeWhatYouUse ::
  "file_system \<Rightarrow> reader \<Rightarrow> string \<Rightarrow> cleansed_lines \<Rightarrow> include_state \<Rightarrow> report list" where
  "CheckForIncludeWhatYouUse fs io filename clean_lines st =
     (let required = required_lines (enumerate 0 (cl_elided clean_lines)) [];
          keys = remdups (map fst (concat (include_list st)));
          abs_filename = re_sub RE_FLYMAKE_CC ''.cc'' (FullName fs \<lparr>fi_filename = filename\<rparr>)
      in case read_headers io abs_filename keys False keys of (header_found, keys') \<Rightarrow>
           if endswith filename ''.cc'' \<and> \<not> header_found then []
           else concat (map (\<lambda>(header, linenum, template).
                  if strip (one_of (''<>'' @ [DQ])) header \<notin> set keys'
                  then [report filename (int linenum) ''build/include_what_you_use'' 4
                         (''Add #include '' @ header @ '' for '' @ template)]
                  else []) required))"

lemma listed_IncludeWhatYouUse [simp]: "listed f (CheckForIncludeWhatYouUse fs io f cl st)"
  by (auto simp: CheckForIncludeWhatYouUse_def Let_def split: prod.split)

section \<open>The last use of a header decides\<close>

lemma map_of_need: "map_of (need h n t d) = (map_of d)(h \<mapsto> (n, t))"
  by (induction d) (auto simp: fun_eq_iff)

lemma keys_need: "fst ` set (need h n t d) = insert h (fst ` set d)"
  by (induction h n t d rule: need.induct) (simp_all add: insert_commute)

lemma distinct_need: "distinct (map fst d) \<Longrightarrow> distinct (map fst (need h n t d))"
  by (induction d) (auto simp: keys_need)

lemma fold_need:
  "distinct (map fst d) \<Longrightarrow> distinct (map fst (fold (\<lambda>(h, t). need h n t) us d)) \<and>
   map_of (fold (\<lambda>(h, t). need h n t) us d) = map_of d ++ map_of (rev (map (\<lambda>(h, t). (h, n, t)) us))"
proof (induction us arbitrary: d)
  case Nil
  then show ?case by simp
next
  case (Cons u us)
  obtain h t where u: "u = (h, t)" by (cases u)
  from Cons.IH[OF distinct_need[OF Cons.prems, of h n t]] show ?case 
    by (auto simp: u map_of_need fun_eq_iff map_add_def split: option.split)
qed

text \<open>The uses of headers on a line, without the shortcut for lines without \<open><\<close>.\<close>

definition string_use :: "string \<Rightarrow> bool" where
  "string_use line \<longleftrightarrow> (case re_search RE_STRING line of None \<Rightarrow> False | Some m \<Rightarrow>
     endswith (take (mo_start m) line) ''std::'' \<or> \<not> endswith (take (mo_start m) line) ''::'')"

definition header_uses :: "string \<Rightarrow> (string \<times> string) list" where
  "header_uses line =
     (if line = [] \<or> hd line = CHR ''#'' then []
      else (if string_use line then [(''<string>'', ''string'')] else []) @
           map (\<lambda>(p, t, h). (h, t)) (filter (\<lambda>(p, t, h). searches p line) (algorithm_patterns @ template_patterns)))"

lemma template_needs_angle:
  assumes "(p, t, h) \<in> set template_patterns" "searches p line"
  shows "CHR ''<'' \<in> set line"
proof -
  from assms(1) obtain s where p: "p = RE_TEMPLATE s" by (auto simp: template_patterns_def)
  show ?thesis
    by (rule searches_needs[OF assms(2)]) (auto simp: p RE_TEMPLATE_def rx_simps one_of_def)
qed

lemma need_matching_uses:
  "need_matching pats n line d =
     fold (\<lambda>(h, t). need h n t) (map (\<lambda>(p, t, h). (h, t)) (filter (\<lambda>(p, t, h). searches p line) pats)) d"
  by (induction pats arbitrary: d) (auto simp: need_matching_def)

lemma required_line_uses: "required_line n line d = fold (\<lambda>(h, t). need h n t) (header_uses line) d"
proof -
  have "filter (\<lambda>(p, t, h). searches p line) template_patterns = []" if "CHR ''<'' \<notin> set line"
    using that template_needs_angle by (auto simp: filter_empty_conv)
  then show ?thesis
    by (cases "CHR ''<'' \<in> set line")
      (auto simp: required_line_def header_uses_def string_use_def need_matching_uses Let_def split: option.split)
qed

text \<open>C39. Skipping the template patterns on lines without \<open><\<close> changes nothing, as the source claims: a
  line updates \<open>required\<close> with all the uses of headers on it, in order.\<close>

theorem required_line_shortcut:
  "required_line n line d = fold (\<lambda>(h, t). need h n t) (header_uses line) d"
  by (rule required_line_uses)

text \<open>All uses in the file, with their lines.\<close>

definition all_uses :: "(nat \<times> string) list \<Rightarrow> needs" where
  "all_uses ls = concat (map (\<lambda>(n, line). map (\<lambda>(h, t). (h, n, t)) (header_uses line)) ls)"

lemma required_lines_spec:
  "distinct (map fst d) \<Longrightarrow> distinct (map fst (required_lines ls d)) \<and>
   map_of (required_lines ls d) = map_of d ++ map_of (rev (all_uses ls))"
proof (induction ls d rule: required_lines.induct)
  case (1 d)
  then show ?case by (simp add: all_uses_def)
next
  case (2 n line ls d)
  let ?d = "fold (\<lambda>(h, t). need h n t) (header_uses line) d"
  from fold_need[OF "2.prems", of n "header_uses line"] "2.IH" show ?case
    by (simp add: required_line_uses all_uses_def)
qed



end
