(* ===== verification/LineChecks.thy ===== *)
theory LineChecks
  imports CheckBase
begin

text \<open>
  Checks that look at one line and at most a few around it (\<open>cpplint.py\<close>:
  \<open>CheckForMultilineCommentsAndStrings\<close>, \<open>CheckPosixThreading\<close>, \<open>CheckVlogArguments\<close>,
  \<open>CheckInvalidIncrement\<close>, \<open>CheckComment\<close>, \<open>CheckAccess\<close>,
  \<open>IsBlankLine\<close>, \<open>GetPreviousNonBlankLine\<close>).

  Each definition follows its function; the lemmas show that the reports carry known categories and
  that the checks return on every line of the file.
\<close>

section \<open>Blank lines\<close>

definition IsBlankLine :: "string \<Rightarrow> bool" where
  "IsBlankLine line \<longleftrightarrow> line = [] \<or> py_isspace uni_space line"

lemma IsBlankLine_iff: "IsBlankLine line \<longleftrightarrow> list_all uni_space line"
  by (auto simp: IsBlankLine_def py_isspace_def)

text \<open>The loop of \<open>GetPreviousNonBlankLine\<close>: from line \<open>n - 1\<close> down.\<close>

fun previous_non_blank :: "string list \<Rightarrow> nat \<Rightarrow> (string \<times> int) result" where
  "previous_non_blank E 0 = Inr ([], - 1)"
| "previous_non_blank E (Suc n) =
     res_bind (py_get E (int n)) (\<lambda>prevline.
       if \<not> IsBlankLine prevline then Inr (prevline, int n) else previous_non_blank E n)"

definition GetPreviousNonBlankLine :: "cleansed_lines \<Rightarrow> nat \<Rightarrow> (string \<times> int) result" where
  "GetPreviousNonBlankLine clean_lines linenum = previous_non_blank (cl_elided clean_lines) linenum"

lemma previous_non_blank_returns: "n \<le> length E \<Longrightarrow> \<exists>l i. previous_non_blank E n = Inr (l, i)"
  by (induction n) auto

text \<open>\<open>GetPreviousNonBlankLine\<close> returns the closest line above that is not blank, with its number, or
  an empty line and -1 when all lines above are blank.\<close>

theorem GetPreviousNonBlankLine_spec:
  assumes "aligned cl" "n \<le> cl_num_lines cl"
  shows "(\<exists>i<n. GetPreviousNonBlankLine cl n = Inr (cl_elided cl ! i, int i) \<and>
            \<not> IsBlankLine (cl_elided cl ! i) \<and> (\<forall>j. i < j \<and> j < n \<longrightarrow> IsBlankLine (cl_elided cl ! j))) \<or>
    (GetPreviousNonBlankLine cl n = Inr ([], - 1) \<and> (\<forall>j<n. IsBlankLine (cl_elided cl ! j)))"
proof -
  have "n \<le> length (cl_elided cl)" using assms by (simp add: aligned_def)
  then show ?thesis
    unfolding GetPreviousNonBlankLine_def
  proof (induction n)
    case 0
    show ?case by simp
  next
    case (Suc n)
    show ?case
    proof (cases "IsBlankLine (cl_elided cl ! n)")
      case False
      with Suc.prems show ?thesis by (intro disjI1 exI[of _ n]) auto
    next
      case True
      with Suc.prems have "previous_non_blank (cl_elided cl) (Suc n) = previous_non_blank (cl_elided cl) n" by simp
      with Suc.IH Suc.prems True show ?thesis
        by (auto simp: less_Suc_eq)
    qed
  qed
qed

theorem GetPreviousNonBlankLine_spec_witness:
  "GetPreviousNonBlankLine \<lparr>cl_elided = [''int x;'', ''  '', ''y;''], cl_lines = [[], [], []], cl_raw_lines = [[], [], []],
     cl_num_lines = 3, cl_lines_without_raw_strings = [[], [], []]\<rparr> 2 = Inr (''int x;'', 0)"
proof -
  let ?cl = "\<lparr>cl_elided = [''int x;'', ''  '', ''y;''], cl_lines = [[], [], []], cl_raw_lines = [[], [], []],
     cl_num_lines = 3, cl_lines_without_raw_strings = [[], [], []]\<rparr>"
  have blank: "\<not> IsBlankLine ''int x;''" "IsBlankLine ''  ''" by (simp_all add: IsBlankLine_iff char_class_defs)
  from GetPreviousNonBlankLine_spec[of ?cl 2] consider
      (found) i where "i < 2" "GetPreviousNonBlankLine ?cl 2 = Inr (cl_elided ?cl ! i, int i)"
        "\<not> IsBlankLine (cl_elided ?cl ! i)"
    | (none) "\<forall>j<2. IsBlankLine (cl_elided ?cl ! j)"
    by (auto simp: aligned_def)
  then show ?thesis
  proof cases
    case found
    then have "i = 0" using blank by (auto simp: less_2_cases_iff)
    with found show ?thesis by simp
  next
    case none
    with blank show ?thesis using none[rule_format, of 0] by simp
  qed
qed

section \<open>Comments and strings over several lines\<close>

definition CheckForMultilineCommentsAndStrings :: "string \<Rightarrow> cleansed_lines \<Rightarrow> nat \<Rightarrow> check" where
  "CheckForMultilineCommentsAndStrings filename clean_lines linenum =
     res_map (\<lambda>line.
       let line = py_replace [BS, BS] [] line
       in (if py_count ''*/'' line < py_count ''/*'' line
           then [report filename (int linenum) ''readability/multiline_comment'' 5
             (''Complex multi-line /*...*/-style comment found. Lint may give bogus warnings. '' @
      '' Consider replacing these with //-style comments, with #if 0...#endif, or '' @
      ''with more clearly structured multi-line comments.'')]
           else []) @
          (if (int (py_count [DQ] line) - int (py_count [BS, DQ] line)) mod 2 \<noteq> 0
           then [report filename (int linenum) ''readability/multiline_string'' 5
             (''Multi-line string ('' @ [DQ] @ ''...'' @ [DQ] @
      '') found.  This lint script doesn'' @ [SQ] @
      ''t do well with such strings, and may give bogus warnings.  Use C++11 raw strings '' @
      ''or concatenation instead.'')]
           else []))
     (elided_at clean_lines (int linenum))"

section \<open>Thread-unsafe functions, VLOG, increments\<close>

text \<open>\<open>(?:[-+*/=%^&|(<]\<backslash>s*|>\<backslash>s+)NAME\(\<close>, then \<open>[^)]+\)\<close> or, for a function without arguments, \<open>\)\<close>.\<close>

definition UNSAFE_FUNC_PREFIX :: regex where
  "UNSAFE_FUNC_PREFIX = alts [RSeq (oneof ''-+*/=%^&|(<'') (RStar ws), RSeq (lit ''>'') (RPlus ws)]"

definition THREADING_LIST :: "(string \<times> string \<times> regex) list" where
  "THREADING_LIST =
     (let with_args = (\<lambda>f. (f @ ''('', f @ ''_r('',
                        seqs [UNSAFE_FUNC_PREFIX, lit (f @ ''(''), RPlus (noneof '')''), lit '')'']));
          no_args = (\<lambda>f. (f @ ''('', f @ ''_r('', seqs [UNSAFE_FUNC_PREFIX, lit (f @ ''()'')]))
      in [with_args ''asctime'', with_args ''ctime'', with_args ''getgrgid'', with_args ''getgrnam'',
          no_args ''getlogin'', with_args ''getpwnam'', with_args ''getpwuid'', with_args ''gmtime'',
          with_args ''localtime'', no_args ''rand'', with_args ''strtok'', with_args ''ttyname''])"

definition CheckPosixThreading :: "string \<Rightarrow> cleansed_lines \<Rightarrow> nat \<Rightarrow> check" where
  "CheckPosixThreading filename clean_lines linenum =
     res_map (\<lambda>line.
       concat (map (\<lambda>(single_thread_func, multithread_safe_func, pattern).
         if searches pattern line
         then [report filename (int linenum) ''runtime/threadsafe_fn'' 2
                 (''Consider using '' @ multithread_safe_func @ ''...) instead of '' @ single_thread_func @
                  ''...) for improved thread safety.'')]
         else []) THREADING_LIST))
     (elided_at clean_lines (int linenum))"

text \<open>\<open>\<backslash>bVLOG\<backslash>((INFO|ERROR|WARNING|DFATAL|FATAL)\<backslash>)\<close>\<close>

definition RE_VLOG :: regex where
"RE_VLOG = seqs [RWordB, lit ''VLOG('', RGroup 1 (alts [lit ''INFO'', lit ''ERROR'', lit
     ''WARNING'', lit ''DFATAL'', lit ''FATAL'']), lit '')'']"

definition CheckVlogArguments :: "string \<Rightarrow> cleansed_lines \<Rightarrow> nat \<Rightarrow> check" where
  "CheckVlogArguments filename clean_lines linenum =
     res_map (\<lambda>line.
       if searches RE_VLOG line
       then [report filename (int linenum) ''runtime/vlog'' 5
         (''VLOG() should be used with numeric verbosity level.  Use LOG() if you want '' @
      ''symbolic severity levels.'')]
       else [])
     (elided_at clean_lines (int linenum))"

text \<open>\<open>^\<backslash>s*\<backslash>*\<backslash>w+(\<backslash>+\<backslash>+|--);\<close>\<close>

definition RE_INVALID_INCREMENT :: regex where
"RE_INVALID_INCREMENT = seqs [RBol, RStar ws, lit ''*'', RPlus wordc, RGroup 1 (alts [lit
     ''++'', lit ''--'']), lit '';'']"

definition CheckInvalidIncrement :: "string \<Rightarrow> cleansed_lines \<Rightarrow> nat \<Rightarrow> check" where
  "CheckInvalidIncrement filename clean_lines linenum =
     res_map (\<lambda>line.
       if matches RE_INVALID_INCREMENT line
       then [report filename (int linenum) ''runtime/invalid_increment'' 5
         ''Changing pointer instead of value (or unused value of operator*).'']
       else [])
     (elided_at clean_lines (int linenum))"

section \<open>Comments\<close>

text \<open>\<open>^//(\<backslash>s*)TODO(\<backslash>(.+?\<backslash>))?:?(\<backslash>s|$)?\<close>\<close>

definition RE_TODO :: regex where
"RE_TODO = seqs [RBol, lit ''//'', RGroup 1 (RStar ws), lit ''TODO'', ROpt (RGroup 2 (seqs [lit
     ''('', RSeq anyc (RLazy anyc), lit '')''])), ROpt (lit '':''), ROpt (RGroup 3 (alts [ws,
     REol]))]"

text \<open>\<open>^.*{ *//\<close>\<close>

definition RE_SCOPE_COMMENT :: regex where
"RE_SCOPE_COMMENT = seqs [RBol, RStar anyc, lit ''{'', RStar (lit '' ''), lit ''//'']"

text \<open>\<open>//[^ ]*\<backslash>w\<close>\<close>

definition RE_TIGHT_COMMENT :: regex where
"RE_TIGHT_COMMENT = seqs [lit ''//'', RStar (noneof '' ''), wordc]"

text \<open>\<open>(///|//\<backslash>!)(\<backslash>s+|$)\<close>\<close>

definition RE_DOXYGEN :: regex where
"RE_DOXYGEN = seqs [RGroup 1 (alts [lit ''///'', lit ''//!'']), RGroup 2 (alts [RPlus ws,
     REol])]"

text \<open>The reports about the text behind \<open>//\<close>.\<close>

definition check_comment_text :: "string \<Rightarrow> nat \<Rightarrow> string \<Rightarrow> report list" where
  "check_comment_text filename linenum comment =
     (let rep = (\<lambda>cat k msg. [report filename (int linenum) cat k msg])
      in (case re_match RE_TODO comment of
            None \<Rightarrow> []
          | Some m \<Rightarrow>
              (if 1 < length (grp m 1) then rep ''whitespace/todo'' 2 ''Too many spaces before TODO'' else []) @
              (if grp m 2 = [] then rep ''readability/todo'' 2
                 (''Missing username in TODO; it should look like '' @ [DQ] @
      ''// TODO(my_username): Stuff.'' @ [DQ]) else []) @
              (if mgroup m 3 \<noteq> Some '' '' \<and> mgroup m 3 \<noteq> Some []
               then rep ''whitespace/todo'' 2 ''TODO(my_username) should be followed by a space'' else [])) @
         (if matches RE_TIGHT_COMMENT comment \<and> \<not> matches RE_DOXYGEN comment
          then rep ''whitespace/comments'' 4 ''Should have a space between // and comment'' else []))"

definition CheckComment :: "string \<Rightarrow> string \<Rightarrow> nat \<Rightarrow> nat \<Rightarrow> report list" where
  "CheckComment line filename linenum next_line_start =
     (case find_nat ''//'' line of
        None \<Rightarrow> []
      | Some commentpos \<Rightarrow>
          if (int (py_count [DQ] (take commentpos line)) - int (py_count [BS, DQ] (take commentpos line))) mod 2 = 0
          then (if \<not> (matches RE_SCOPE_COMMENT line \<and> next_line_start = commentpos) \<and>
                   ((1 \<le> commentpos \<and> \<not> ascii_space (line ! (commentpos - 1))) \<or>
                    (2 \<le> commentpos \<and> \<not> ascii_space (line ! (commentpos - 2))))
                then [report filename (int linenum) ''whitespace/comments'' 2
                        ''At least two spaces is best between code and comments'']
                else []) @
               check_comment_text filename linenum (drop commentpos line)
          else [])"

section \<open>Access to DISALLOW macros\<close>

text \<open>\<open>\<backslash>s*(DISALLOW_COPY_AND_ASSIGN|DISALLOW_IMPLICIT_CONSTRUCTORS)\<close>\<close>

definition RE_DISALLOW_LINE :: regex where
"RE_DISALLOW_LINE = seqs [RStar ws, RGroup 1 (alts [lit ''DISALLOW_COPY_AND_ASSIGN'', lit
     ''DISALLOW_IMPLICIT_CONSTRUCTORS''])]"

definition CheckAccess :: "string \<Rightarrow> cleansed_lines \<Rightarrow> nat \<Rightarrow> nesting \<Rightarrow> check" where
  "CheckAccess filename clean_lines linenum nesting_state =
     res_map (\<lambda>line.
       case re_match RE_DISALLOW_LINE line of
         None \<Rightarrow> []
       | Some matched \<Rightarrow>
           (case stack_of nesting_state of
              [] \<Rightarrow> []
            | b # _ \<Rightarrow>
                (case kind b of
                   Class ci \<Rightarrow> if ci_access ci \<noteq> ''private''
                     then [report filename (int linenum) ''readability/constructors'' 3
                             (grp matched 1 @ '' must be in the private: section'')]
                     else []
                 | _ \<Rightarrow> [])))
     (elided_at clean_lines (int linenum))"

section \<open>Categories\<close>

lemma listed_line_checks [listed_intros]:
  "listedR f (CheckForMultilineCommentsAndStrings f cl n)"
  "listedR f (CheckPosixThreading f cl n)"
  "listedR f (CheckVlogArguments f cl n)"
  "listedR f (CheckInvalidIncrement f cl n)"
  "listedR f (CheckAccess f cl n s)"
  by (auto simp: CheckForMultilineCommentsAndStrings_def CheckPosixThreading_def CheckVlogArguments_def
      CheckInvalidIncrement_def CheckAccess_def Let_def split: list.split block_kind.split
      intro!: listed_intros)

lemma listed_Comment [simp]: "listed f (CheckComment line f n k)"
  by (auto simp: CheckComment_def check_comment_text_def Let_def)

lemma total_line_checks [total_checks]:
  "total_check (CheckForMultilineCommentsAndStrings f)"
  "total_check (CheckPosixThreading f)"
  "total_check (CheckVlogArguments f)"
  "total_check (CheckInvalidIncrement f)"
  "total_check (\<lambda>cl n. CheckAccess f cl n s)"
  by (auto simp: total_check_def CheckForMultilineCommentsAndStrings_def CheckPosixThreading_def
      CheckVlogArguments_def CheckInvalidIncrement_def CheckAccess_def)

section \<open>The contract\<close>

interpretation multiline: line_check CheckForMultilineCommentsAndStrings
  by (rule line_checkI) (rule listed_intros total_checks)+

interpretation posix: line_check CheckPosixThreading
  by (rule line_checkI) (rule listed_intros total_checks)+

interpretation vlog: line_check CheckVlogArguments
  by (rule line_checkI) (rule listed_intros total_checks)+

interpretation increment: line_check CheckInvalidIncrement
  by (rule line_checkI) (rule listed_intros total_checks)+

interpretation access_check: line_check "\<lambda>f cl n. CheckAccess f cl n s" for s
  by (rule line_checkI) (rule listed_intros total_checks)+

end
