(* ===== verification/Spacing.thy ===== *)
theory Spacing
  imports LineChecks
begin

text \<open>
  Checks of white space (\<open>cpplint.py\<close>: \<open>CheckSpacingForFunctionCall\<close>, \<open>CheckSpacing\<close>,
  \<open>CheckOperatorSpacing\<close>, \<open>CheckParenthesisSpacing\<close>, \<open>CheckCommaSpacing\<close>, \<open>CheckBracesSpacing\<close>,
  \<open>CheckSectionSpacing\<close>).

  The loop of \<open>CheckOperatorSpacing\<close> that masks the names of operator methods is \<open>mask_operators\<close>; it
  terminates because every round replaces a character by an underscore.  The lemmas show this, that
  masking keeps the columns, and that the checks return on every line of the file.
\<close>

section \<open>Function calls\<close>

text \<open>\<open>\<backslash>bif\<backslash>s*\<backslash>((.*)\<backslash>)\<backslash>s*{\<close>\<close>

definition RE_IF_BODY :: regex where
"RE_IF_BODY = seqs [RWordB, lit ''if'', RStar ws, lit ''('', RGroup 1 (RStar anyc), lit '')'',
     RStar ws, lit ''{'']"

text \<open>\<open>\<backslash>bfor\<backslash>s*\<backslash>((.*)\<backslash>)\<backslash>s*{\<close>\<close>

definition RE_FOR_BODY :: regex where
"RE_FOR_BODY = seqs [RWordB, lit ''for'', RStar ws, lit ''('', RGroup 1 (RStar anyc), lit '')'',
     RStar ws, lit ''{'']"

text \<open>\<open>\<backslash>bwhile\<backslash>s*\<backslash>((.*)\<backslash>)\<backslash>s*[{;]\<close>\<close>

definition RE_WHILE_BODY :: regex where
"RE_WHILE_BODY = seqs [RWordB, lit ''while'', RStar ws, lit ''('', RGroup 1 (RStar anyc), lit
     '')'', RStar ws, oneof ''{;'']"

text \<open>\<open>\<backslash>bswitch\<backslash>s*\<backslash>((.*)\<backslash>)\<backslash>s*{\<close>\<close>

definition RE_SWITCH_BODY :: regex where
"RE_SWITCH_BODY = seqs [RWordB, lit ''switch'', RStar ws, lit ''('', RGroup 1 (RStar anyc), lit
     '')'', RStar ws, lit ''{'']"

fun inside_control :: "regex list \<Rightarrow> string \<Rightarrow> string" where
  "inside_control [] line = line"
| "inside_control (pattern # ps) line =
     (case re_search pattern line of Some m \<Rightarrow> grp m 1 | None \<Rightarrow> inside_control ps line)"

text \<open>\<open>\<backslash>b(if|for|while|switch|return|new|delete|catch|sizeof)\<backslash>b\<close>\<close>

definition RE_CONTROL :: regex where
"RE_CONTROL = seqs [RWordB, RGroup 1 (alts [lit ''if'', lit ''for'', lit ''while'', lit
     ''switch'', lit ''return'', lit ''new'', lit ''delete'', lit ''catch'', lit ''sizeof'']),
     RWordB]"

text \<open>\<open> \<backslash>([^)]+\<backslash>)\<backslash>([^)]*(\<backslash>)|,$)\<close>\<close>

definition RE_FUNCTION_POINTER :: regex where
"RE_FUNCTION_POINTER = seqs [lit '' ('', RPlus (noneof '')''), lit '')('', RStar (noneof '')''),
     RGroup 1 (alts [lit '')'', seqs [lit '','', REol]])]"

text \<open>\<open> \<backslash>([^)]+\<backslash>)\<backslash>[[^\<backslash>]]+\<backslash>]\<close>\<close>

definition RE_ARRAY_POINTER :: regex where
"RE_ARRAY_POINTER = seqs [lit '' ('', RPlus (noneof '')''), lit '')['', RPlus (noneof '']''),
     lit '']'']"

text \<open>\<open>\<backslash>w\<backslash>s*\<backslash>(\<backslash>s(?!\<backslash>s*\<backslash>\<backslash>$)\<close>\<close>

definition RE_SPACE_AFTER_CALL :: regex where
"RE_SPACE_AFTER_CALL = seqs [wordc, RStar ws, lit ''('', ws, RNotAhead (seqs [RStar ws, lit
     [BS], REol])]"

text \<open>\<open>\<backslash>(\<backslash>s+(?!(\<backslash>s*\<backslash>\<backslash>)|\<backslash>()\<close>\<close>

definition RE_SPACE_AFTER_PAREN :: regex where
"RE_SPACE_AFTER_PAREN = seqs [lit ''('', RPlus ws, RNotAhead (alts [RGroup 1 (seqs [RStar ws,
     lit [BS]]), lit ''(''])]"

text \<open>\<open>\<backslash>w\<backslash>s+\<backslash>(\<close>\<close>

definition RE_SPACE_BEFORE_PAREN :: regex where
"RE_SPACE_BEFORE_PAREN = seqs [wordc, RPlus ws, lit ''('']"

text \<open>\<open>#\<backslash>s*define|typedef|using\<backslash>s+\<backslash>w+\<backslash>s*=\<close>\<close>

definition RE_MACRO_OR_TYPE :: regex where
"RE_MACRO_OR_TYPE = alts [seqs [lit ''#'', RStar ws, lit ''define''], lit ''typedef'', seqs [lit
     ''using'', RPlus ws, RPlus wordc, RStar ws, lit ''='']]"

text \<open>\<open>\<backslash>w\<backslash>s+\<backslash>((\<backslash>w+::)*\<backslash>*\<backslash>w+\<backslash>)\<backslash>(\<close>\<close>

definition RE_MEMBER_POINTER :: regex where
"RE_MEMBER_POINTER = seqs [wordc, RPlus ws, lit ''('', RStar (RGroup 1 (seqs [RPlus wordc, lit
     ''::''])), lit ''*'', RPlus wordc, lit '')('']"

text \<open>\<open>\<backslash>bcase\<backslash>s+\<backslash>(\<close>\<close>

definition RE_CASE_PAREN :: regex where
"RE_CASE_PAREN = seqs [RWordB, lit ''case'', RPlus ws, lit ''('']"

text \<open>\<open>\<backslash>boperator_*\<backslash>b\<close>\<close>

definition RE_OPERATOR_UNDERSCORE :: regex where
"RE_OPERATOR_UNDERSCORE = seqs [RWordB, lit ''operator'', RStar (lit ''_''), RWordB]"

text \<open>\<open>[^)]\<backslash>s+\<backslash>)\<backslash>s*[^{\<backslash>s]\<close>\<close>

definition RE_SPACE_BEFORE_CLOSE :: regex where
"RE_SPACE_BEFORE_CLOSE = seqs [noneof '')'', RPlus ws, lit '')'', RStar ws, RChar (\<lambda>c.
     \<not> (one_of ''{'' c \<or> ascii_space c))]"

text \<open>\<open>^\<backslash>s+\<backslash>)\<close>\<close>

definition RE_ONLY_CLOSE :: regex where
"RE_ONLY_CLOSE = seqs [RBol, RPlus ws, lit '')'']"

definition CheckSpacingForFunctionCall :: "string \<Rightarrow> cleansed_lines \<Rightarrow> nat \<Rightarrow> check" where
  "CheckSpacingForFunctionCall filename clean_lines linenum =
     res_map (\<lambda>line.
       let fncall = inside_control [RE_IF_BODY, RE_FOR_BODY, RE_WHILE_BODY, RE_SWITCH_BODY] line;
           rep = (\<lambda>k msg. [report filename (int linenum) ''whitespace/parens'' k msg])
       in if \<not> searches RE_CONTROL fncall \<and> \<not> searches RE_FUNCTION_POINTER fncall \<and>
             \<not> searches RE_ARRAY_POINTER fncall
          then (if searches RE_SPACE_AFTER_CALL fncall then rep 4 ''Extra space after ( in function call''
                else if searches RE_SPACE_AFTER_PAREN fncall then rep 2 ''Extra space after (''
                else []) @
               (if searches RE_SPACE_BEFORE_PAREN fncall \<and> \<not> searches RE_MACRO_OR_TYPE fncall \<and>
                   \<not> searches RE_MEMBER_POINTER fncall \<and> \<not> searches RE_CASE_PAREN fncall
                then rep (if searches RE_OPERATOR_UNDERSCORE line then 0 else 4)
                       ''Extra space before ( in function call''
                else []) @
               (if searches RE_SPACE_BEFORE_CLOSE fncall
                then rep 2 (if searches RE_ONLY_CLOSE fncall
                            then ''Closing ) should be moved to the previous line'' else ''Extra space before )'')
                else [])
          else [])
     (elided_at clean_lines (int linenum))"

section \<open>Blank lines and comments\<close>

text \<open>\<open> {6}\<backslash>w\<close>\<close>

definition RE_SIX_SPACES :: regex where
"RE_SIX_SPACES = seqs [times 6 (lit '' ''), wordc]"

text \<open>\<open> {4}\<backslash>w[^\<backslash>(]*\<backslash>)\<backslash>s*(const\<backslash>s*)?(\<backslash>{\<backslash>s*$|:)\<close>\<close>

definition RE_FUNCTION_HEADER_END :: regex where
"RE_FUNCTION_HEADER_END = seqs [times 4 (lit '' ''), wordc, RStar (noneof ''(''), lit '')'',
     RStar ws, ROpt (RGroup 1 (seqs [lit ''const'', RStar ws])), RGroup 2 (alts [seqs [lit
     ''{'', RStar ws, REol], lit '':''])]"

text \<open>\<open> {4}:\<close>\<close>

definition RE_FOUR_COLON :: regex where
"RE_FOUR_COLON = seqs [times 4 (lit '' ''), lit '':'']"

text \<open>\<open>\<backslash>s*}\<close>\<close>

definition RE_NEXT_CLOSES :: regex where
"RE_NEXT_CLOSES = seqs [RStar ws, lit ''}'']"

text \<open>\<open>\<backslash>s*(public|protected|private):\<close>\<close>

definition RE_ACCESS_LABEL :: regex where
"RE_ACCESS_LABEL = seqs [RStar ws, RGroup 1 (alts [lit ''public'', lit ''protected'', lit
     ''private'']), lit '':'']"

text \<open>The loop over \<open>search_position\<close>, counted down from \<open>n - 1\<close>; -1 when it has left the file.\<close>

fun initializer_start :: "cleansed_lines \<Rightarrow> nat \<Rightarrow> int result" where
  "initializer_start clean_lines 0 = Inr (- 1)"
| "initializer_start clean_lines (Suc n) =
     res_bind (elided_at clean_lines (int n)) (\<lambda>line.
       if matches RE_SIX_SPACES line then initializer_start clean_lines n else Inr (int n))"

definition blank_exception :: "cleansed_lines \<Rightarrow> nat \<Rightarrow> string \<Rightarrow> bool result" where
  "blank_exception clean_lines linenum prev_line =
     (if matches RE_SIX_SPACES prev_line
      then res_bind (initializer_start clean_lines (linenum - 1)) (\<lambda>search_position.
             if search_position < 0 then Inr False
             else res_map (\<lambda>l. take 5 l = ''    :'') (elided_at clean_lines search_position))
      else Inr (matches RE_FUNCTION_HEADER_END prev_line \<or> matches RE_FOUR_COLON prev_line))"

text \<open>The checks of a blank line outside namespaces; \<open>raw\<close> is \<open>lines_without_raw_strings\<close>.\<close>

definition check_blank_line :: "string \<Rightarrow> cleansed_lines \<Rightarrow> nat \<Rightarrow> check" where
  "check_blank_line filename clean_lines linenum =
     (let rep = (\<lambda>k msg. [report filename (int linenum) ''whitespace/blank_line'' k msg]) in
      res_bind (elided_at clean_lines (int linenum - 1)) (\<lambda>prev_line.
      res_bind (case rfind_nat (CHR ''{'') prev_line of
                  None \<Rightarrow> Inr []
                | Some prevbrace \<Rightarrow>
                    if CHR ''}'' \<in> set (drop prevbrace prev_line) then Inr []
                    else res_map (\<lambda>exc. if exc then []
                             else rep 2 ''Redundant blank line at the start of a code block should be deleted.'')
                           (blank_exception clean_lines linenum prev_line)) (\<lambda>start.
      res_map (\<lambda>block_end.
          start @ block_end @
          (case re_match RE_ACCESS_LABEL prev_line of
             None \<Rightarrow> []
           | Some matched \<Rightarrow> rep 3 (''Do not leave a blank line after '' @ [DQ] @ grp matched 1 @ '':'' @ [DQ])))
        (if linenum + 1 < NumLines clean_lines
         then res_map (\<lambda>next_line.
                if next_line \<noteq> [] \<and> matches RE_NEXT_CLOSES next_line \<and> \<not> contains next_line ''} else ''
                then rep 3 ''Redundant blank line at the end of a code block should be deleted.'' else [])
              (py_get (cl_lines_without_raw_strings clean_lines) (int linenum + 1))
         else Inr []))))"

text \<open>\<open>\<backslash>w\<backslash>s+\<backslash>[\<close>\<close>

definition RE_SPACE_BRACKET :: regex where
"RE_SPACE_BRACKET = seqs [wordc, RPlus ws, lit ''['']"

text \<open>\<open>(?:delete|return)\<backslash>s+\<backslash>[\<close>\<close>

definition RE_DELETE_BRACKET :: regex where
"RE_DELETE_BRACKET = seqs [alts [lit ''delete'', lit ''return''], RPlus ws, lit ''['']"

text \<open>\<open>for *\<backslash>(.*[^:]:[^: ]\<close>\<close>

definition RE_FORCOLON_AFTER :: regex where
"RE_FORCOLON_AFTER = seqs [lit ''for'', RStar (lit '' ''), lit ''('', RStar anyc, noneof '':'',
     lit '':'', noneof '': '']"

text \<open>\<open>for *\<backslash>(.*[^: ]:[^:]\<close>\<close>

definition RE_FORCOLON_BEFORE :: regex where
"RE_FORCOLON_BEFORE = seqs [lit ''for'', RStar (lit '' ''), lit ''('', RStar anyc, noneof '':
     '', lit '':'', noneof '':'']"

definition CheckSpacing :: "string \<Rightarrow> cleansed_lines \<Rightarrow> nat \<Rightarrow> nesting \<Rightarrow> check" where
  "CheckSpacing filename clean_lines linenum nesting_state =
     (let raw = cl_lines_without_raw_strings clean_lines in
      res_bind (py_get raw (int linenum)) (\<lambda>line.
      res_bind (if IsBlankLine line \<and> \<not> InNamespaceBody nesting_state \<and> \<not> InExternC nesting_state
                then check_blank_line filename clean_lines linenum else Inr []) (\<lambda>blank.
      res_bind (if linenum + 1 < NumLines clean_lines
                then res_map (\<lambda>next_line. length next_line - length (lstrip uni_space next_line))
                       (py_get raw (int linenum + 1))
                else Inr 0) (\<lambda>next_line_start.
      res_map (\<lambda>elided.
          blank @ CheckComment line filename linenum next_line_start @
          (if searches RE_SPACE_BRACKET elided \<and> \<not> searches RE_DELETE_BRACKET elided
           then [report filename (int linenum) ''whitespace/braces'' 5 ''Extra space before [''] else []) @
          (if searches RE_FORCOLON_AFTER elided \<or> searches RE_FORCOLON_BEFORE elided
           then [report filename (int linenum) ''whitespace/forcolon'' 2
                   ''Missing space around colon in range-based for loop''] else []))
        (elided_at clean_lines (int linenum))))))"

section \<open>Operators\<close>

text \<open>\<open>^(.*\<backslash>boperator\<backslash>b)(\<backslash>S+)(\<backslash>s*\<backslash>(.*)$\<close>\<close>

definition RE_OPERATOR_METHOD :: regex where
"RE_OPERATOR_METHOD = seqs [RBol, RGroup 1 (seqs [RStar anyc, RWordB, lit ''operator'',
     RWordB]), RGroup 2 (RPlus nonws), RGroup 3 (seqs [RStar ws, lit ''('', RStar anyc]), REol]"

lemma RE_OPERATOR_METHOD_match:
  assumes "re_match RE_OPERATOR_METHOD s = Some m"
  obtains c t w where "s = grp m 1 @ (c # t) @ grp m 3 @ w" "grp m 2 = c # t" "\<not> word_char c" "w = [] \<or> w = [NL]"
proof -
  let ?r1 = "seqs [RStar anyc, RWordB, lit ''operator'', RWordB]" and ?r3 = "seqs [RStar ws, lit ''('', RStar anyc]"
  have re: "RE_OPERATOR_METHOD = seqs [RBol, RGroup 1 ?r1, RGroup 2 (RPlus nonws), RGroup 3 ?r3, REol]"
    by (simp add: RE_OPERATOR_METHOD_def)
  from assms obtain u v cs where path: "(([], s, []), (u, v, cs)) \<in> paths RE_OPERATOR_METHOD"
    and m: "m = \<lparr>mo_string = s, mo_start = 0, mo_end = length u, mo_caps = cs\<rparr>" by (rule re_match_path)
  from path obtain a b ds a' b' ds' where
    g1: "(([], s, []), (a, b, ds)) \<in> paths (RGroup 1 ?r1)" and
    g2: "((a, b, ds), (a', b', ds')) \<in> paths (RGroup 2 (RPlus nonws))" and
    g3: "((a', b', ds'), (u, v, cs)) \<in> paths (RGroup 3 ?r3)" and eol: "at_eol v"
    unfolding re seqs.simps paths_Seq paths_Bol paths_Eol by fastforce
  from g1 obtain x where x: "s = (x @ ''operator'') @ b" "a = rev (x @ ''operator'')" "ds = [(1, 0, length a)]"
    and bnd: "at_word_boundary a b"
    unfolding seqs.simps paths_Group paths_Seq paths_Star_char paths_lit paths_WordB by fastforce
  define g where "g = x @ ''operator''"
  have g: "s = g @ b" "a = rev g" "ds = [(1, 0, length g)]" using x by (simp_all add: g_def)
  have word: "head_is_word a" by (simp add: x(2) char_class_defs)
  from g2 obtain c t where b: "b = (c # t) @ b'" "a' = rev (c # t) @ a" "ds' = (2, length a, length a') # ds"
    unfolding paths_Group paths_Seq paths_Star_char paths_Char by fastforce
  from g3 obtain y where y: "b' = y @ v" "u = rev y @ a'" "cs = (3, length a', length u) # ds'"
    unfolding seqs.simps paths_Group paths_Seq paths_Star_char paths_lit by fastforce
  from word bnd b(1) have "\<not> word_char c" by (simp add: at_word_boundary_def)
  moreover have "grp m 1 = g" "grp m 2 = c # t" "grp m 3 = y"
    using g b y by (simp_all add: m grp_def mgroup_def)
  moreover have "v = [] \<or> v = [NL]" using eol by (cases v rule: at_eol.cases) auto
  ultimately show ?thesis using g b y by (intro that[of c t v]) simp_all
qed

definition masked :: "mobj \<Rightarrow> string" where
  "masked m = grp m 1 @ replicate (length (grp m 2)) (CHR ''_'') @ grp m 3"

abbreviation unmasked_chars :: "string \<Rightarrow> nat" where
  "unmasked_chars s \<equiv> length (filter (\<lambda>c. c \<noteq> CHR ''_'') s)"

lemma masked_decreases:
  assumes "re_match RE_OPERATOR_METHOD s = Some m"
  shows "unmasked_chars (masked m) < unmasked_chars s"
proof -
  from assms obtain c t w where s: "s = grp m 1 @ (c # t) @ grp m 3 @ w" "grp m 2 = c # t" "\<not> word_char c"
    by (rule RE_OPERATOR_METHOD_match)
  from s(3) have "c \<noteq> CHR ''_''" by (auto simp: word_char_def)
  moreover have "unmasked_chars (masked m) = unmasked_chars (grp m 1) + unmasked_chars (grp m 3)"
    by (simp add: masked_def)
  moreover have "unmasked_chars s = unmasked_chars (grp m 1) + unmasked_chars (c # t) + unmasked_chars (grp m 3) + unmasked_chars w"
    by (subst s(1)) simp
  ultimately show ?thesis by simp
qed

function mask_operators :: "string \<Rightarrow> string" where
  "mask_operators line =
     (case re_match RE_OPERATOR_METHOD line of
        Some m \<Rightarrow> mask_operators (grp m 1 @ replicate (length (grp m 2)) (CHR ''_'') @ grp m 3)
      | None \<Rightarrow> line)"
  by pat_completeness auto
termination
  by (relation "measure unmasked_chars") (auto simp: masked_def dest!: masked_decreases)

declare mask_operators.simps [simp del]

text \<open>\<open>unicode.isdigit\<close>: the ASCII digits and three superscripts.\<close>

definition uni_digit :: "char \<Rightarrow> bool" where
  "uni_digit c \<longleftrightarrow> digit_char c \<or> c \<in> set [CHR 0xB2, CHR 0xB3, CHR 0xB9]"

definition py_isdigit :: "string \<Rightarrow> bool" where
  "py_isdigit s \<longleftrightarrow> s \<noteq> [] \<and> list_all uni_digit s"

text \<open>\<open>[\<backslash>w.]=\<close>\<close>

definition RE_TIGHT_EQ_LEFT :: regex where
"RE_TIGHT_EQ_LEFT = seqs [RChar (\<lambda>c. one_of ''.'' c \<or> word_char c), lit ''='']"

text \<open>\<open>=[\<backslash>w.]\<close>\<close>

definition RE_TIGHT_EQ_RIGHT :: regex where
"RE_TIGHT_EQ_RIGHT = seqs [lit ''='', RChar (\<lambda>c. one_of ''.'' c \<or> word_char c)]"

text \<open>\<open>\<backslash>b(if|while|for) \<close>\<close>

definition RE_IF_WHILE_FOR :: regex where
"RE_IF_WHILE_FOR = seqs [RWordB, RGroup 1 (alts [lit ''if'', lit ''while'', lit ''for'']), lit
     '' '']"

text \<open>\<open>(>=|<=|==|!=|&=|\<backslash>^=|\<backslash>|=|\<backslash>+=|\<backslash>*=|\<backslash>/=|\<backslash>%=)\<close>\<close>

definition RE_EQ_OPERATORS :: regex where
"RE_EQ_OPERATORS = RGroup 1 (alts [lit ''>='', lit ''<='', lit ''=='', lit ''!='', lit ''&='',
     lit ''^='', lit ''|='', lit ''+='', lit ''*='', lit ''/='', lit ''%=''])"

text \<open>\<open>operator=\<close>\<close>

definition RE_OPERATOR_EQ :: regex where
"RE_OPERATOR_EQ = lit ''operator=''"

text \<open>\<open>[^<>=!\<backslash>s](==|!=|<=|>=|\<backslash>|\<backslash>|)[^<>=!\<backslash>s,;\<backslash>)]\<close>\<close>

definition RE_TIGHT_RELATION :: regex where
"RE_TIGHT_RELATION = seqs [RChar (\<lambda>c. \<not> (one_of ''<>=!'' c \<or> ascii_space c)),
     RGroup 1 (alts [lit ''=='', lit ''!='', lit ''<='', lit ''>='', lit ''||'']), RChar
     (\<lambda>c. \<not> (one_of ''<>=!,;)'' c \<or> ascii_space c))]"

text \<open>\<open>#.*include\<close>\<close>

definition RE_HASH_INCLUDE :: regex where
"RE_HASH_INCLUDE = seqs [lit ''#'', RStar anyc, lit ''include'']"

text \<open>\<open>^(.*[^\<backslash>s<])<[^\<backslash>s=<,]\<close>\<close>

definition RE_TIGHT_LESS :: regex where
"RE_TIGHT_LESS = seqs [RBol, RGroup 1 (seqs [RStar anyc, RChar (\<lambda>c. \<not> (one_of ''<''
     c \<or> ascii_space c))]), lit ''<'', RChar (\<lambda>c. \<not> (one_of ''=<,'' c \<or>
     ascii_space c))]"

text \<open>\<open>^(.*[^-\<backslash>s>])>[^\<backslash>s=>,]\<close>\<close>

definition RE_TIGHT_GREATER :: regex where
"RE_TIGHT_GREATER = seqs [RBol, RGroup 1 (seqs [RStar anyc, RChar (\<lambda>c. \<not> (one_of
     ''->'' c \<or> ascii_space c))]), lit ''>'', RChar (\<lambda>c. \<not> (one_of ''=>,'' c
     \<or> ascii_space c))]"

text \<open>\<open>(operator|[^\<backslash>s(<])(?:L|UL|ULL|l|ul|ull)?<<([^\<backslash>s,=<])\<close>\<close>

definition RE_TIGHT_SHIFT :: regex where
"RE_TIGHT_SHIFT = seqs [RGroup 1 (alts [lit ''operator'', RChar (\<lambda>c. \<not> (one_of
     ''(<'' c \<or> ascii_space c))]), ROpt (alts [lit ''L'', lit ''UL'', lit ''ULL'', lit
     ''l'', lit ''ul'', lit ''ull'']), lit ''<<'', RGroup 2 (RChar (\<lambda>c. \<not> (one_of
     '',=<'' c \<or> ascii_space c)))]"

text \<open>\<open>>>[a-zA-Z_]\<close>\<close>

definition RE_SHIFT_ALPHA :: regex where
"RE_SHIFT_ALPHA = seqs [lit ''>>'', RChar (\<lambda>c. one_of ''_'' c \<or> lower_char c \<or>
     upper_char c)]"

text \<open>\<open>(!\<backslash>s|~\<backslash>s|[\<backslash>s]--[\<backslash>s;]|[\<backslash>s]\<backslash>+\<backslash>+[\<backslash>s;])\<close>\<close>

definition RE_UNARY_SPACE :: regex where
"RE_UNARY_SPACE = RGroup 1 (alts [seqs [lit ''!'', ws], seqs [lit ''~'', ws], seqs [RChar
     (\<lambda>c. ascii_space c), lit ''--'', RChar (\<lambda>c. one_of '';'' c \<or>
     ascii_space c)], seqs [RChar (\<lambda>c. ascii_space c), lit ''++'', RChar (\<lambda>c.
     one_of '';'' c \<or> ascii_space c)]])"

text \<open>The spaces around \<open><\<close> and \<open>>\<close>, outside of \<open>#include\<close> lines.\<close>

definition check_angles :: "string \<Rightarrow> cleansed_lines \<Rightarrow> nat \<Rightarrow> string \<Rightarrow> check" where
  "check_angles filename clean_lines linenum line =
     (let rep = (\<lambda>msg. [report filename (int linenum) ''whitespace/operators'' 3 msg]) in
      res_bind (case re_match RE_TIGHT_LESS line of
                  None \<Rightarrow> Inr []
                | Some m \<Rightarrow> res_map (\<lambda>(_, _, end_pos). if end_pos \<le> - 1 then rep ''Missing spaces around <'' else [])
                    (CloseExpression (cl_elided clean_lines) linenum (length (grp m 1)))) (\<lambda>less.
      res_map (\<lambda>greater. less @ greater)
        (case re_match RE_TIGHT_GREATER line of
           None \<Rightarrow> Inr []
         | Some m \<Rightarrow> res_map (\<lambda>(_, _, start_pos). if start_pos \<le> - 1 then rep ''Missing spaces around >'' else [])
             (ReverseCloseExpression (cl_elided clean_lines) linenum (length (grp m 1))))))"

definition CheckOperatorSpacing :: "string \<Rightarrow> cleansed_lines \<Rightarrow> nat \<Rightarrow> check" where
  "CheckOperatorSpacing filename clean_lines linenum =
     (let rep = (\<lambda>k msg. [report filename (int linenum) ''whitespace/operators'' k msg]) in
      res_bind (elided_at clean_lines (int linenum)) (\<lambda>elided.
      let line = mask_operators elided in
      res_map (\<lambda>relations.
          (if (searches RE_TIGHT_EQ_LEFT line \<or> searches RE_TIGHT_EQ_RIGHT line) \<and> \<not> searches RE_IF_WHILE_FOR line \<and>
              \<not> searches RE_EQ_OPERATORS line \<and> \<not> searches RE_OPERATOR_EQ line
           then rep 4 ''Missing spaces around ='' else []) @
          relations @
          (case re_search RE_TIGHT_SHIFT line of
             None \<Rightarrow> []
           | Some m \<Rightarrow>
               if \<not> (py_isdigit (grp m 1) \<and> py_isdigit (grp m 2)) \<and> \<not> (grp m 1 = ''operator'' \<and> grp m 2 = '';'')
               then rep 3 ''Missing spaces around <<'' else []) @
          (if searches RE_SHIFT_ALPHA line then rep 3 ''Missing spaces around >>'' else []) @
          (case re_search RE_UNARY_SPACE line of
             None \<Rightarrow> [] | Some m \<Rightarrow> rep 4 (''Extra space for operator '' @ grp m 1)))
        (case re_search RE_TIGHT_RELATION line of
           Some m \<Rightarrow> Inr (rep 3 (''Missing spaces around '' @ grp m 1))
         | None \<Rightarrow> if \<not> matches RE_HASH_INCLUDE line then check_angles filename clean_lines linenum line else Inr [])))"

section \<open>Parentheses, commas, braces\<close>

text \<open>\<open> (if\<backslash>(|for\<backslash>(|while\<backslash>(|switch\<backslash>()\<close>\<close>

definition RE_TIGHT_CONTROL :: regex where
"RE_TIGHT_CONTROL = seqs [lit '' '', RGroup 1 (alts [lit ''if('', lit ''for('', lit ''while('',
     lit ''switch(''])]"

text \<open>\<open>\<backslash>b(if|for|while|switch)\<backslash>s*\<backslash>(([ ]*)(.).*[^ ]+([ ]*)\<backslash>)\<backslash>s*{\<backslash>s*$\<close>\<close>

definition RE_CONTROL_SPACES :: regex where
"RE_CONTROL_SPACES = seqs [RWordB, RGroup 1 (alts [lit ''if'', lit ''for'', lit ''while'', lit
     ''switch'']), RStar ws, lit ''('', RGroup 2 (RStar (oneof '' '')), RGroup 3 anyc, RStar
     anyc, RPlus (noneof '' ''), RGroup 4 (RStar (oneof '' '')), lit '')'', RStar ws, lit ''{'',
     RStar ws, REol]"

text \<open>\<open>\<backslash>bfor\<backslash>s*\<backslash>(.*; \<backslash>)\<close>\<close>

definition RE_FOR_EMPTY_STEP :: regex where
"RE_FOR_EMPTY_STEP = seqs [RWordB, lit ''for'', RStar ws, lit ''('', RStar anyc, lit ''; )'']"

definition CheckParenthesisSpacing :: "string \<Rightarrow> cleansed_lines \<Rightarrow> nat \<Rightarrow> check" where
  "CheckParenthesisSpacing filename clean_lines linenum =
     (let rep = (\<lambda>msg. [report filename (int linenum) ''whitespace/parens'' 5 msg]) in
      res_map (\<lambda>line.
        (case re_search RE_TIGHT_CONTROL line of
           None \<Rightarrow> [] | Some m \<Rightarrow> rep (''Missing space before ( in '' @ grp m 1)) @
        (case re_search RE_CONTROL_SPACES line of
           None \<Rightarrow> []
         | Some m \<Rightarrow>
             (if length (grp m 2) \<noteq> length (grp m 4) \<and>
                 \<not> (grp m 3 = '';'' \<and> length (grp m 2) = 1 + length (grp m 4) \<or>
                    grp m 2 = [] \<and> searches RE_FOR_EMPTY_STEP line)
              then rep (''Mismatching spaces inside () in '' @ grp m 1) else []) @
             (if length (grp m 2) \<notin> {0, 1}
              then rep (''Should have zero or one spaces inside ( and ) in '' @ grp m 1) else [])))
      (elided_at clean_lines (int linenum)))"

text \<open>\<open>,[^,\<backslash>s]\<close>\<close>

definition RE_TIGHT_COMMA :: regex where
"RE_TIGHT_COMMA = seqs [lit '','', RChar (\<lambda>c. \<not> (one_of '','' c \<or> ascii_space
     c))]"

text \<open>\<open>\<backslash>boperator\<backslash>s*,\<backslash>s*\<backslash>(\<close>\<close>

definition RE_OPERATOR_COMMA :: regex where
"RE_OPERATOR_COMMA = seqs [RWordB, lit ''operator'', RStar ws, lit '','', RStar ws, lit ''('']"

text \<open>\<open>;[^\<backslash>s};\<backslash>\<backslash>)/]\<close>\<close>

definition RE_TIGHT_SEMICOLON :: regex where
"RE_TIGHT_SEMICOLON = seqs [lit '';'', RChar (\<lambda>c. \<not> (one_of [CHR ''}'', CHR '';'',
     BS, CHR '')'', CHR ''/''] c \<or> ascii_space c))]"

definition CheckCommaSpacing :: "string \<Rightarrow> cleansed_lines \<Rightarrow> nat \<Rightarrow> check" where
  "CheckCommaSpacing filename clean_lines linenum =
     res_bind (elided_at clean_lines (int linenum)) (\<lambda>line.
     res_map (\<lambda>comma.
         (if comma then [report filename (int linenum) ''whitespace/comma'' 3 ''Missing space after ,''] else []) @
         (if searches RE_TIGHT_SEMICOLON line
          then [report filename (int linenum) ''whitespace/semicolon'' 3 ''Missing space after ;''] else []))
       (if searches RE_TIGHT_COMMA (re_sub RE_OPERATOR_COMMA ''F('' line)
        then res_map (searches RE_TIGHT_COMMA) (py_get (cl_lines_without_raw_strings clean_lines) (int linenum))
        else Inr False))"

text \<open>\<open>^(.*[^ ({>]){\<close>\<close>

definition RE_TIGHT_BRACE :: regex where
"RE_TIGHT_BRACE = seqs [RBol, RGroup 1 (seqs [RStar anyc, noneof '' ({>'']), lit ''{'']"

text \<open>\<open>^[\<backslash>s}]*[{.;,)<>\<backslash>]:]\<close>\<close>

definition RE_INITIALIZER_END :: regex where
"RE_INITIALIZER_END = seqs [RBol, RStar (RChar (\<lambda>c. one_of ''}'' c \<or> ascii_space
     c)), oneof ''{.;,)<>]:'']"

text \<open>\<open>}else\<close>\<close>

definition RE_TIGHT_ELSE :: regex where
"RE_TIGHT_ELSE = lit ''}else''"

text \<open>\<open>:\<backslash>s*;\<backslash>s*$\<close>\<close>

definition RE_COLON_SEMICOLON :: regex where
"RE_COLON_SEMICOLON = seqs [lit '':'', RStar ws, lit '';'', RStar ws, REol]"

text \<open>\<open>^\<backslash>s*;\<backslash>s*$\<close>\<close>

definition RE_LONE_SEMICOLON :: regex where
"RE_LONE_SEMICOLON = seqs [RBol, RStar ws, lit '';'', RStar ws, REol]"

text \<open>\<open>\<backslash>s+;\<backslash>s*$\<close>\<close>

definition RE_SPACE_SEMICOLON :: regex where
"RE_SPACE_SEMICOLON = seqs [RPlus ws, lit '';'', RStar ws, REol]"

text \<open>\<open>\<backslash>bfor\<backslash>b\<close>\<close>

definition RE_FOR :: regex where
"RE_FOR = seqs [RWordB, lit ''for'', RWordB]"

definition CheckBracesSpacing :: "string \<Rightarrow> cleansed_lines \<Rightarrow> nat \<Rightarrow> check" where
  "CheckBracesSpacing filename clean_lines linenum =
     (let rep = (\<lambda>cat msg. [report filename (int linenum) cat 5 msg]) in
      res_bind (elided_at clean_lines (int linenum)) (\<lambda>line.
      res_map (\<lambda>brace.
          brace @
          (if searches RE_TIGHT_ELSE line then rep ''whitespace/braces'' ''Missing space before else'' else []) @
          (if searches RE_COLON_SEMICOLON line
           then rep ''whitespace/semicolon'' ''Semicolon defining empty statement. Use {} instead.''
           else if searches RE_LONE_SEMICOLON line
           then rep ''whitespace/semicolon''
                  (''Line contains only semicolon. If this should be an empty statement, use {} '' @
      ''instead.'')
           else if searches RE_SPACE_SEMICOLON line \<and> \<not> searches RE_FOR line
           then rep ''whitespace/semicolon''
                  (''Extra space before last semicolon. If this should be an empty statement, use '' @
      ''{} instead.'')
           else []))
        (case re_match RE_TIGHT_BRACE line of
           None \<Rightarrow> Inr []
         | Some m \<Rightarrow>
             res_bind (CloseExpression (cl_elided clean_lines) linenum (length (grp m 1))) (\<lambda>(endline, endlinenum, endpos).
             res_map (\<lambda>following.
                 let trailing_text = (if - 1 < endpos then py_from endline endpos else []) @ concat following
                 in if \<not> matches RE_INITIALIZER_END trailing_text
                    then rep ''whitespace/braces'' ''Missing space before {'' else [])
               (res_mapM (\<lambda>offset. elided_at clean_lines (int offset))
                  [endlinenum + 1..<min (endlinenum + 3) (NumLines clean_lines - 1)])))))"

section \<open>Sections of a class\<close>

text \<open>\<open>\<backslash>b(class|struct)\<backslash>b\<close>\<close>

definition RE_CLASS_WORD :: regex where
"RE_CLASS_WORD = seqs [RWordB, RGroup 1 (alts [lit ''class'', lit ''struct'']), RWordB]"

text \<open>\<open>\<backslash>\<backslash>$\<close>\<close>

definition RE_CONTINUED :: regex where
"RE_CONTINUED = seqs [lit [BS], REol]"

text \<open>\<open>\<backslash>{\<backslash>s*$\<close>\<close>

definition RE_BRACE_END :: regex where
"RE_BRACE_END = seqs [lit ''{'', RStar ws, REol]"

fun class_head_end :: "cleansed_lines \<Rightarrow> nat list \<Rightarrow> nat \<Rightarrow> nat result" where
  "class_head_end clean_lines [] end_class_head = Inr end_class_head"
| "class_head_end clean_lines (i # is) end_class_head =
     res_bind (line_at clean_lines (int i)) (\<lambda>line.
       if searches RE_BRACE_END line then Inr i else class_head_end clean_lines is end_class_head)"

definition CheckSectionSpacing :: "string \<Rightarrow> cleansed_lines \<Rightarrow> class_info \<Rightarrow> nat \<Rightarrow> check" where
  "CheckSectionSpacing filename clean_lines ci linenum =
     (if int (ci_last_line ci) - int (ci_starting_linenum ci) \<le> 24 \<or> linenum \<le> ci_starting_linenum ci then Inr []
      else res_bind (line_at clean_lines (int linenum)) (\<lambda>line.
        case re_match RE_ACCESS_LABEL line of
          None \<Rightarrow> Inr []
        | Some matched \<Rightarrow>
            res_bind (line_at clean_lines (int linenum - 1)) (\<lambda>prev_line.
              if \<not> IsBlankLine prev_line \<and> \<not> searches RE_CLASS_WORD prev_line \<and> \<not> searches RE_CONTINUED prev_line
              then res_map (\<lambda>end_class_head.
                       if int end_class_head < int linenum - 1
                       then [report filename (int linenum) ''whitespace/blank_line'' 3
                               ([DQ] @ grp matched 1 @ '':'' @ [DQ] @ '' should be preceded by a blank line'')]
                       else [])
                     (class_head_end clean_lines [ci_starting_linenum ci..<linenum] (ci_starting_linenum ci))
              else Inr [])))"

section \<open>Masking keeps the columns\<close>

lemma mask_operators_columns:
  "length (mask_operators line) \<le> length line \<and>
    (\<forall>i<length (mask_operators line). mask_operators line ! i = line ! i \<or> mask_operators line ! i = CHR ''_'')"
proof (induction line rule: mask_operators.induct)
  case (1 line)
  show ?case
  proof (cases "re_match RE_OPERATOR_METHOD line")
    case None
    then have "mask_operators line = line" by (subst mask_operators.simps) simp
    then show ?thesis by simp
  next
    case (Some m)
    define n where "n = grp m 1 @ replicate (length (grp m 2)) (CHR ''_'') @ grp m 3"
    from Some obtain c t w where s: "line = grp m 1 @ (c # t) @ grp m 3 @ w" "grp m 2 = c # t"
      by (rule RE_OPERATOR_METHOD_match)
    have step: "mask_operators line = mask_operators n" using Some by (subst mask_operators.simps) (simp add: n_def)
    note IH = "1.IH"[OF Some, folded n_def]
    have len: "length n \<le> length line" by (subst s(1)) (simp add: n_def s(2))
    have same: "n ! i = line ! i \<or> n ! i = CHR ''_''" if "i < length n" for i
    proof -
      consider "i < length (grp m 1)" | "length (grp m 1) \<le> i" "i < length (grp m 1) + length (c # t)"
        | "length (grp m 1) + length (c # t) \<le> i" by linarith
      then show ?thesis
      proof cases
        case 1
        then show ?thesis by (subst s(1)) (simp add: nth_append n_def)
      next
        case 2
        then have "i - length (grp m 1) < length (grp m 2)" by (simp add: s(2))
        with 2 show ?thesis unfolding n_def by (simp add: nth_append)
      next
        case 3
        with that have "i - length (grp m 1) - length (c # t) < length (grp m 3)" by (simp add: s(2) n_def)
        with 3 show ?thesis by (subst s(1)) (auto simp: nth_append s(2) n_def)
      qed
    qed
    show ?thesis
    proof (intro conjI allI impI)
      show "length (mask_operators line) \<le> length line" using IH len step by simp
      fix i assume "i < length (mask_operators line)"
      with IH step same[of i] show "mask_operators line ! i = line ! i \<or> mask_operators line ! i = CHR ''_''"
        by (metis order.strict_trans2)
    qed
  qed
qed

lemma mask_operators_facts:
  "\<not> matches RE_OPERATOR_METHOD (mask_operators line) \<and> length (mask_operators line) \<le> length line \<and>
    (\<forall>i<length (mask_operators line). mask_operators line ! i = line ! i \<or> mask_operators line ! i = CHR ''_'')"
proof -
  have "\<not> matches RE_OPERATOR_METHOD (mask_operators line)"
  proof (induction line rule: mask_operators.induct)
    case (1 line)
    show ?case
    proof (cases "re_match RE_OPERATOR_METHOD line")
      case None
      then have "mask_operators line = line" by (subst mask_operators.simps) simp
      with None show ?thesis by (simp add: matches_def)
    next
      case (Some m)
      with "1.IH" show ?thesis by (subst mask_operators.simps) simp
    qed
  qed
  with mask_operators_columns[of line] show ?thesis by blast
qed


section \<open>The checks return\<close>

lemma head_group_bounds:
  "re_match RE_TIGHT_LESS s = Some m \<Longrightarrow> length (grp m 1) < length s"
  "re_match RE_TIGHT_GREATER s = Some m \<Longrightarrow> length (grp m 1) < length s"
  "re_match RE_TIGHT_BRACE s = Some m \<Longrightarrow> length (grp m 1) < length s"
  unfolding RE_TIGHT_LESS_def RE_TIGHT_GREATER_def RE_TIGHT_BRACE_def seqs.simps
  by (erule match_head_group; auto simp: rx_simps)+

lemma initializer_start_returns:
  "aligned cl \<Longrightarrow> n \<le> cl_num_lines cl \<Longrightarrow> \<exists>k. initializer_start cl n = Inr k \<and> k < int n"
proof (induction n)
  case 0
  then show ?case by simp
next
  case (Suc n)
  then obtain k where "initializer_start cl n = Inr k" "k < int n" by auto
  with Suc.prems show ?case by auto
qed

lemma blank_exception_returns:
  assumes "aligned cl" "n < cl_num_lines cl"
  shows "returns (blank_exception cl n l)"
proof -
  have "n - 1 \<le> cl_num_lines cl" using assms by simp
  from initializer_start_returns[OF assms(1) this] obtain k where k: "initializer_start cl (n - 1) = Inr k" "k < int (n - 1)"
    by blast
  have "elided_at cl k = Inr (cl_elided cl ! nat k)" if "\<not> k < 0"
    using elided_at_in[of cl "nat k"] assms k(2) that by simp
  with k(1) show ?thesis by (auto simp: blank_exception_def simp del: One_nat_def)
qed

lemma check_blank_line_returns:
  assumes "aligned cl" "n < cl_num_lines cl"
  shows "returns (check_blank_line f cl n)"
proof -
  obtain l where l: "elided_at cl (int n - 1) = Inr l" using elided_before[OF assms] by blast
  obtain b where b: "blank_exception cl n l = Inr b"
    using blank_exception_returns[OF assms] by (auto simp: returns_iff)
  let ?start = "case rfind_nat (CHR ''{'') l of None \<Rightarrow> Inr [] | Some prevbrace \<Rightarrow>
      if CHR ''}'' \<in> set (drop prevbrace l) then Inr []
      else res_map (\<lambda>exc. if exc then [] else [report f (int n) ''whitespace/blank_line'' 2
             ''Redundant blank line at the start of a code block should be deleted.'']) (blank_exception cl n l)"
  have "returns ?start" by (simp add: b)
  then obtain start where "?start = Inr start" unfolding returns_iff by blast
  with l raw_string_after[OF assms(1)] show ?thesis
    unfolding check_blank_line_def Let_def by (simp add: NumLines_def)
qed

lemma total_CheckSpacing: "total_check (\<lambda>cl n. CheckSpacing f cl n s)"
  unfolding total_check_returns
proof (intro allI impI)
  fix cl n assume inside: "aligned cl" "n < cl_num_lines cl"
  obtain rs where "check_blank_line f cl n = Inr rs"
    using check_blank_line_returns[OF inside] by (auto simp: returns_iff)
  with inside raw_string_after[OF inside(1)] show "returns (CheckSpacing f cl n s)"
    by (cases "IsBlankLine (cl_lines_without_raw_strings cl ! n) \<and> \<not> InNamespaceBody s \<and> \<not> InExternC s";
        cases "Suc n < cl_num_lines cl") (simp_all add: CheckSpacing_def NumLines_def Let_def)
qed

lemma check_angles_returns:
  assumes "aligned cl" "n < cl_num_lines cl" "length line \<le> length (cl_elided cl ! n)"
  shows "returns (check_angles f cl n line)"
proof -
  have n: "n < length (cl_elided cl)" using assms by (simp add: aligned_def)
  have less: "\<exists>x. CloseExpression (cl_elided cl) n (length (grp m 1)) = Inr x" if "re_match RE_TIGHT_LESS line = Some m" for m
    using CloseExpression_returns[OF n, of "length (grp m 1)"] head_group_bounds(1)[OF that] assms(3) by fastforce
  have greater: "\<exists>x. ReverseCloseExpression (cl_elided cl) n (length (grp m 1)) = Inr x" if "re_match RE_TIGHT_GREATER line = Some m" for m
    using ReverseCloseExpression_returns[OF n, of "length (grp m 1)"] head_group_bounds(2)[OF that] assms(3) by fastforce
  show ?thesis
  proof (cases "re_match RE_TIGHT_LESS line")
    case None
    with greater show ?thesis by (cases "re_match RE_TIGHT_GREATER line") (auto simp: check_angles_def)
  next
    case (Some m)
    from less[OF this] obtain x where "CloseExpression (cl_elided cl) n (length (grp m 1)) = Inr x" by blast
    with Some greater show ?thesis by (cases "re_match RE_TIGHT_GREATER line") (auto simp: check_angles_def)
  qed
qed

lemma total_CheckOperatorSpacing: "total_check (CheckOperatorSpacing f)"
  unfolding total_check_returns
proof (intro allI impI)
  fix cl n assume inside: "aligned cl" "n < cl_num_lines cl"
  have "returns (check_angles f cl n (mask_operators (cl_elided cl ! n)))"
    using check_angles_returns[OF inside] mask_operators_columns by blast
  with inside show "returns (CheckOperatorSpacing f cl n)"
    by (simp add: CheckOperatorSpacing_def Let_def)
qed

lemma total_CheckBracesSpacing: "total_check (CheckBracesSpacing f)"
  unfolding total_check_returns
proof (intro allI impI)
  fix cl n assume inside: "aligned cl" "n < cl_num_lines cl"
  have n: "n < length (cl_elided cl)" using inside by (simp add: aligned_def)
  have after: "res_mapM (\<lambda>offset. elided_at cl (int offset)) [k..<min j (NumLines cl - 1)] =
      Inr (map (\<lambda>i. cl_elided cl ! i) [k..<min j (NumLines cl - 1)])" for k j
    using inside by (intro res_mapM_total) (auto simp: NumLines_def)
  show "returns (CheckBracesSpacing f cl n)"
  proof (cases "re_match RE_TIGHT_BRACE (cl_elided cl ! n)")
    case None
    with inside show ?thesis by (simp add: CheckBracesSpacing_def)
  next
    case (Some m)
    from CloseExpression_returns[OF n head_group_bounds(3)[OF Some]] obtain l k q where
      "CloseExpression (cl_elided cl) n (length (grp m 1)) = Inr (l, k, q)" by blast
    with Some inside after show ?thesis by (simp add: CheckBracesSpacing_def)
  qed
qed

lemma class_head_end_returns:
  "aligned cl \<Longrightarrow> \<forall>i\<in>set is. i < cl_num_lines cl \<Longrightarrow> returns (class_head_end cl is d)"
  by (induction "is") auto

lemma total_CheckSectionSpacing: "total_check (\<lambda>cl. CheckSectionSpacing f cl ci)"
  unfolding total_check_returns
proof (intro allI impI)
  fix cl n assume inside: "aligned cl" "n < cl_num_lines cl"
  have "returns (class_head_end cl [ci_starting_linenum ci..<n] (ci_starting_linenum ci))"
    using inside by (intro class_head_end_returns) auto
  with line_before[OF inside] inside show "returns (CheckSectionSpacing f cl ci n)"
    by (auto simp: CheckSectionSpacing_def)
qed

lemma total_spacing_checks [total_checks]:
  "total_check (CheckSpacingForFunctionCall f)"
  "total_check (\<lambda>cl n. CheckSpacing f cl n s)"
  "total_check (CheckOperatorSpacing f)"
  "total_check (CheckParenthesisSpacing f)"
  "total_check (CheckCommaSpacing f)"
  "total_check (CheckBracesSpacing f)"
  "total_check (\<lambda>cl. CheckSectionSpacing f cl ci)"
  using total_CheckSpacing total_CheckOperatorSpacing total_CheckBracesSpacing total_CheckSectionSpacing
  by (simp_all add: total_check_returns CheckSpacingForFunctionCall_def CheckParenthesisSpacing_def CheckCommaSpacing_def)

section \<open>Categories\<close>

lemma listed_spacing_checks [listed_intros]:
  "listedR f (CheckSpacingForFunctionCall f cl n)"
  "listedR f (check_blank_line f cl n)"
  "listedR f (check_angles f cl n l)"
  "listedR f (CheckParenthesisSpacing f cl n)"
  "listedR f (CheckCommaSpacing f cl n)"
  "listedR f (CheckBracesSpacing f cl n)"
  "listedR f (CheckSectionSpacing f cl ci n)"
  unfolding CheckSpacingForFunctionCall_def check_blank_line_def check_angles_def CheckParenthesisSpacing_def
    CheckCommaSpacing_def CheckBracesSpacing_def CheckSectionSpacing_def Let_def
  by (rule listed_acc listed_intros conjI allI impI | simp)+

lemma listed_spacing_checks_2 [listed_intros]:
  "listedR f (CheckSpacing f cl n s)"
  "listedR f (CheckOperatorSpacing f cl n)"
  unfolding CheckSpacing_def CheckOperatorSpacing_def Let_def
  by (rule listed_acc listed_intros conjI allI impI | simp)+

section \<open>The contract\<close>

interpretation function_call: line_check CheckSpacingForFunctionCall
  by (rule line_checkI) (rule listed_intros total_checks)+

interpretation blank_spacing: line_check "\<lambda>f cl n. CheckSpacing f cl n s" for s
  by (rule line_checkI) (rule listed_intros total_checks)+

interpretation operator_spacing: line_check CheckOperatorSpacing
  by (rule line_checkI) (rule listed_intros total_checks)+

interpretation parenthesis_spacing: line_check CheckParenthesisSpacing
  by (rule line_checkI) (rule listed_intros total_checks)+

interpretation comma_spacing: line_check CheckCommaSpacing
  by (rule line_checkI) (rule listed_intros total_checks)+

interpretation braces_spacing: line_check CheckBracesSpacing
  by (rule line_checkI) (rule listed_intros total_checks)+

interpretation section_spacing: line_check "\<lambda>f cl. CheckSectionSpacing f cl ci" for ci
  by (rule line_checkI) (rule listed_intros total_checks)+

end
