(* ===== verification/RValue.thy ===== *)
theory RValue
  imports CheckBase
begin

text \<open>
  Rvalue references (\<open>cpplint.py\<close>: \<open>IsDecltype\<close>, \<open>IsTemplateParameterList\<close>, \<open>IsRValueType\<close>,
  \<open>IsDeletedOrDefault\<close>, \<open>IsRValueAllowed\<close>, \<open>GetTemplateArgs\<close>, \<open>CheckRValueReference\<close>).

  \<open>IsRValueType\<close> calls itself with the column of a return type.  One activation of it is
  \<open>rvalue_step\<close>, which either answers or gives the column of the recursive call; the function itself is
  partial, with \<open>None\<close> for a recursion that does not end (Python stops it with a \<open>RuntimeError\<close>).  It
  can happen: the column is taken from the line where the symbol was found and used on another line.
\<close>

section \<open>Tokens left of a column\<close>

text \<open>\<open>\<backslash>bdecltype\<backslash>s*$\<close>\<close>

definition RE_DECLTYPE :: regex where
"RE_DECLTYPE = seqs [RWordB, lit ''decltype'', RStar ws, REol]"

definition IsDecltype :: "cleansed_lines \<Rightarrow> nat \<Rightarrow> nat \<Rightarrow> bool result" where
  "IsDecltype clean_lines linenum column =
     res_map (\<lambda>(text, _, start_col). \<not> start_col < 0 \<and> searches RE_DECLTYPE (take (nat start_col) text))
       (ReverseCloseExpression (cl_elided clean_lines) linenum column)"

text \<open>\<open>\<backslash>btemplate\<backslash>s*$\<close>\<close>

definition RE_TEMPLATE_WORD :: regex where
"RE_TEMPLATE_WORD = seqs [RWordB, lit ''template'', RStar ws, REol]"

definition IsTemplateParameterList :: "cleansed_lines \<Rightarrow> nat \<Rightarrow> nat \<Rightarrow> bool result" where
  "IsTemplateParameterList clean_lines linenum column =
     res_bind (ReverseCloseExpression (cl_elided clean_lines) linenum column) (\<lambda>(_, startline, startpos).
       if - 1 < startpos
       then res_map (\<lambda>line. searches RE_TEMPLATE_WORD (take (nat startpos) line)) (elided_at clean_lines (int startline))
       else Inr False)"

section \<open>Is it a type?\<close>

text \<open>\<open>^(.*)(\<backslash>b\<backslash>w+|[>*)&])\<backslash>s*$\<close>\<close>

definition RE_LAST_WORD :: regex where
"RE_LAST_WORD = seqs [RBol, RGroup 1 (RStar anyc), RGroup 2 (alts [seqs [RWordB, RPlus wordc],
     oneof ''>*)&'']), RStar ws, REol]"

text \<open>\<open>&&\<backslash>s*(?:[>,]|\<backslash>.\<backslash>.\<backslash>.)\<close>\<close>

definition RE_AND_AND_TEMPLATE :: regex where
"RE_AND_AND_TEMPLATE = seqs [lit ''&&'', RStar ws, alts [oneof ''>,'', lit ''...'']]"

definition KNOWN_TYPES :: "string list" where
  "KNOWN_TYPES = [''char'', ''char16_t'', ''char32_t'', ''wchar_t'', ''bool'', ''short'', ''int'', ''long'', ''signed'',
     ''unsigned'', ''float'', ''double'', ''void'', ''auto'', ''>'', ''*'', ''&'']"

text \<open>\<open>\<backslash>b(?:const_cast\<backslash>s*<|static_cast\<backslash>s*<|dynamic_cast\<backslash>s*<|reinterpret_cast\<backslash>s*<|\<backslash>w+\<backslash>s)\<backslash>s*$\<close>\<close>

definition RE_CAST_OR_QUALIFIER :: regex where
"RE_CAST_OR_QUALIFIER = seqs [RWordB, alts [seqs [lit ''const_cast'', RStar ws, lit ''<''], seqs
     [lit ''static_cast'', RStar ws, lit ''<''], seqs [lit ''dynamic_cast'', RStar ws, lit
     ''<''], seqs [lit ''reinterpret_cast'', RStar ws, lit ''<''], seqs [RPlus wordc, ws]],
     RStar ws, REol]"

text \<open>\<open>^(.*)([^\<backslash>w\<backslash>s,])[\<backslash>w\<backslash>s,]*$\<close>\<close>

definition RE_SYMBOL :: regex where
"RE_SYMBOL = seqs [RBol, RGroup 1 (RStar anyc), RGroup 2 (RChar (\<lambda>c. \<not> (one_of
     '','' c \<or> word_char c \<or> ascii_space c))), RStar (RChar (\<lambda>c. one_of '','' c
     \<or> word_char c \<or> ascii_space c)), REol]"

text \<open>The closest line above, from the text \<open>line\<close> of line \<open>start\<close> on, that has a symbol.\<close>

fun find_symbol :: "cleansed_lines \<Rightarrow> nat \<Rightarrow> string \<Rightarrow> (nat \<times> mobj) option result" where
  "find_symbol clean_lines 0 line = Inr (map_option (\<lambda>m. (0, m)) (re_match RE_SYMBOL line))"
| "find_symbol clean_lines (Suc start) line =
     (case re_match RE_SYMBOL line of
        Some match_symbol \<Rightarrow> Inr (Some (Suc start, match_symbol))
      | None \<Rightarrow> res_bind (elided_at clean_lines (int start)) (find_symbol clean_lines start))"

text \<open>\<open>for\<backslash>s*\<backslash>([^{};]*$\<close>\<close>

definition RE_FOR_INIT :: regex where
"RE_FOR_INIT = seqs [lit ''for'', RStar ws, lit ''('', RStar (noneof ''{};''), REol]"

text \<open>\<open>for i in xrange(start - 1, max(start - 6, 0), -1): before_text = elided[i] + before_text\<close>\<close>

definition text_before :: "cleansed_lines \<Rightarrow> nat \<Rightarrow> string \<Rightarrow> string result" where
  "text_before clean_lines start before_text =
     res_map (\<lambda>ls. concat ls @ before_text)
       (res_mapM (\<lambda>i. elided_at clean_lines (int i)) [(if start < 6 then 1 else start - 5)..<start])"

text \<open>The search for a semicolon or the closing brace: an answer, or the depth at the end of the text.\<close>

fun scan_block :: "string \<Rightarrow> int \<Rightarrow> bool + int" where
  "scan_block [] depth = Inr depth"
| "scan_block (ch # cs) depth =
     (if ch = CHR '';'' then Inl True
      else if ch = CHR ''{'' then scan_block cs (depth + 1)
      else if ch = CHR ''}'' then (if depth - 1 = 0 then Inl False else scan_block cs (depth - 1))
      else scan_block cs depth)"

fun scan_block_lines :: "string list \<Rightarrow> int \<Rightarrow> bool" where
  "scan_block_lines [] depth = False"
| "scan_block_lines (line # ls) depth =
     (case scan_block line depth of Inl b \<Rightarrow> b | Inr d \<Rightarrow> scan_block_lines ls d)"

text \<open>The opening brace is counted by the initial depth and once more in the text: the block that ends at the
  first closing brace is left with depth 1, and the semicolon behind it is taken for one inside.\<close>

lemma scan_block_counts_brace_twice: "scan_block_lines [''C{'', ''  a && b }'', ''int x;''] 1"
  by code_simp

text \<open>\<open>(?:\<backslash>]|\<backslash>bfor|\<backslash>bsizeof|\<backslash>boperator\<backslash>s*\<backslash>S+\<backslash>s*)\<backslash>s*$\<close>\<close>

definition RE_TYPE_CONTEXT :: regex where
"RE_TYPE_CONTEXT = seqs [alts [lit '']'', seqs [RWordB, lit ''for''], seqs [RWordB, lit
     ''sizeof''], seqs [RWordB, lit ''operator'', RStar ws, RPlus nonws, RStar ws]], RStar ws,
     REol]"

text \<open>\<open>(?:\<backslash>bif|\<backslash>bwhile|[-+=%^(<!?:,&*]\<backslash>s*)$\<close>\<close>

definition RE_EXPRESSION_CONTEXT :: regex where
"RE_EXPRESSION_CONTEXT = seqs [alts [seqs [RWordB, lit ''if''], seqs [RWordB, lit ''while''],
     seqs [oneof ''-+=%^(<!?:,&*'', RStar ws]], REol]"

text \<open>\<open>^(.*\<backslash>S.*)\<backslash>s+\<backslash>w(?:\<backslash>w|::)*(?:<[^<>]*>)?\<backslash>s*$\<close>\<close>

definition RE_RETURN_TYPE :: regex where
"RE_RETURN_TYPE = seqs [RBol, RGroup 1 (seqs [RStar anyc, nonws, RStar anyc]), RPlus ws, wordc,
     RStar (alts [wordc, lit ''::'']), ROpt (seqs [lit ''<'', RStar (noneof ''<>''), lit
     ''>'']), RStar ws, REol]"

text \<open>\<open>\<backslash>b(?:explicit|inline)$\<close>\<close>

definition RE_EXPLICIT_INLINE :: regex where
"RE_EXPLICIT_INLINE = seqs [RWordB, alts [lit ''explicit'', lit ''inline''], REol]"

text \<open>\<open>\<backslash>s*(\<backslash>w+)\<backslash>((?:const\<backslash>s+)?(\<backslash>w+)\<close>\<close>

definition RE_IMPLICIT_CONSTRUCTOR :: regex where
"RE_IMPLICIT_CONSTRUCTOR = seqs [RStar ws, RGroup 1 (RPlus wordc), lit ''('', ROpt (seqs [lit
     ''const'', RPlus ws]), RGroup 2 (RPlus wordc)]"

datatype rvalue_answer = Answer bool | AskColumn nat

text \<open>Behind an opening parenthesis.  The source first adds the previous line to \<open>before_text\<close> and then
  assigns \<open>match_symbol.group(1)\<close> to it again.\<close>

definition paren_step :: "nesting \<Rightarrow> string \<Rightarrow> string \<Rightarrow> rvalue_answer" where
  "paren_step nesting_state before before_text =
     (if searches RE_TYPE_CONTEXT before_text then Answer True
      else if searches RE_EXPRESSION_CONTEXT before_text then Answer False
      else case re_match RE_RETURN_TYPE before_text of
        Some match_func \<Rightarrow>
          (if searches RE_EXPLICIT_INLINE (grp match_func 1) then Answer True
           else if (case re_match RE_IMPLICIT_CONSTRUCTOR before of Some m \<Rightarrow> grp m 1 = grp m 2 | None \<Rightarrow> False)
           then Answer True
           else AskColumn (length (grp match_func 1)))
      | None \<Rightarrow>
          Answer (\<not> (case previous_stack_top nesting_state of Some b \<Rightarrow> IsBlockInfo b | None \<Rightarrow> False)))"

text \<open>What the symbol at \<open>start\<close> says; \<open>before\<close> is the text left of the column.\<close>

definition symbol_step :: "cleansed_lines \<Rightarrow> nesting \<Rightarrow> string \<Rightarrow> nat \<Rightarrow> mobj \<Rightarrow> rvalue_answer result" where
  "symbol_step clean_lines nesting_state before start match_symbol =
     (if grp match_symbol 2 = ''}'' then Inr (Answer True)
      else if grp match_symbol 2 = '';'' then
        res_map (\<lambda>before_text. Answer (\<not> searches RE_FOR_INIT before_text))
          (text_before clean_lines start (grp match_symbol 1))
      else if grp match_symbol 2 = ''{'' then
        res_bind (elided_at clean_lines (int start)) (\<lambda>line.
        res_map (\<lambda>ls. Answer (scan_block_lines (take (length (grp match_symbol 1) + 1) line # ls) 1))
          (res_mapM (\<lambda>i. elided_at clean_lines (int i)) [start + 1..<NumLines clean_lines]))
      else if grp match_symbol 2 = ''('' then Inr (paren_step nesting_state before (grp match_symbol 1))
      else if grp match_symbol 2 = ''>'' then
        res_map Answer (IsTemplateParameterList clean_lines start (length (grp match_symbol 1)))
      else Inr (Answer False))"

definition rvalue_step :: "string list \<Rightarrow> cleansed_lines \<Rightarrow> nesting \<Rightarrow> nat \<Rightarrow> nat \<Rightarrow> rvalue_answer result" where
  "rvalue_step typenames clean_lines nesting_state linenum column =
     res_bind (elided_at clean_lines (int linenum)) (\<lambda>line.
     let before = take column line; behind = drop column line in
     case re_match RE_LAST_WORD before of
       None \<Rightarrow> Inr (Answer False)
     | Some match \<Rightarrow>
         if matches RE_AND_AND_TEMPLATE behind then Inr (Answer True)
         else if grp match 2 \<in> set typenames \<or> grp match 2 \<in> set KNOWN_TYPES then Inr (Answer True)
         else if grp match 2 = '')'' then
           res_map Answer (IsDecltype clean_lines linenum (length (grp match 1) + length (grp match 2) - 1))
         else if searches RE_CAST_OR_QUALIFIER (grp match 1) then Inr (Answer True)
         else res_bind (find_symbol clean_lines linenum (grp match 1)) (\<lambda>sym.
           case sym of
             None \<Rightarrow> Inr (Answer True)
           | Some (start, match_symbol) \<Rightarrow> symbol_step clean_lines nesting_state before start match_symbol))"

partial_function (option) IsRValueType ::
  "string list \<Rightarrow> cleansed_lines \<Rightarrow> nesting \<Rightarrow> nat \<Rightarrow> nat \<Rightarrow> bool result option" where
  "IsRValueType typenames clean_lines nesting_state linenum column =
     (case rvalue_step typenames clean_lines nesting_state linenum column of
        Inl e \<Rightarrow> Some (Inl e)
      | Inr (Answer b) \<Rightarrow> Some (Inr b)
      | Inr (AskColumn c) \<Rightarrow> IsRValueType typenames clean_lines nesting_state linenum c)"

section \<open>Is it allowed?\<close>

text \<open>\<open>\<backslash>s*=\<backslash>s*(?:delete|default)\<backslash>b\<close>\<close>

definition RE_DELETE_DEFAULT :: regex where
"RE_DELETE_DEFAULT = seqs [RStar ws, lit ''='', RStar ws, alts [lit ''delete'', lit
     ''default''], RWordB]"

definition IsDeletedOrDefault :: "cleansed_lines \<Rightarrow> nat \<Rightarrow> bool result" where
  "IsDeletedOrDefault clean_lines linenum =
     res_bind (elided_at clean_lines (int linenum)) (\<lambda>line.
       case find_nat ''('' line of
         None \<Rightarrow> Inr False
       | Some open_paren \<Rightarrow>
           res_map (\<lambda>(close_line, _, close_paren).
               \<not> close_paren < 0 \<and> matches RE_DELETE_DEFAULT (py_from close_line close_paren))
             (CloseExpression (cl_elided clean_lines) linenum open_paren))"

text \<open>\<open>GOOGLE_ALLOW_RVALUE_REFERENCES_(?:PUSH|POP)\<close>\<close>

definition RE_ALLOW_RVALUE :: regex where
"RE_ALLOW_RVALUE = seqs [lit ''GOOGLE_ALLOW_RVALUE_REFERENCES_'', alts [lit ''PUSH'', lit
     ''POP'']]"

text \<open>The next marker at or below the line, and the search for a marker above it.\<close>

fun next_marker :: "cleansed_lines \<Rightarrow> nat list \<Rightarrow> bool option result" where
  "next_marker clean_lines [] = Inr None"
| "next_marker clean_lines (j # js) =
     res_bind (elided_at clean_lines (int j)) (\<lambda>line.
       if matches RE_ALLOW_RVALUE line then Inr (Some (endswith line ''POP'')) else next_marker clean_lines js)"

fun marked_region :: "cleansed_lines \<Rightarrow> nat \<Rightarrow> nat list \<Rightarrow> bool option result" where
  "marked_region clean_lines linenum [] = Inr None"
| "marked_region clean_lines linenum (i # is) =
     res_bind (elided_at clean_lines (int i)) (\<lambda>line.
       if matches RE_ALLOW_RVALUE line then
         (if \<not> endswith line ''PUSH'' then Inr (Some False)
          else res_bind (next_marker clean_lines [linenum..<NumLines clean_lines]) (\<lambda>r.
            case r of Some b \<Rightarrow> Inr (Some b) | None \<Rightarrow> marked_region clean_lines linenum is))
       else marked_region clean_lines linenum is)"

text \<open>\<open>\<backslash>boperator\<backslash>s*=\<backslash>s*\<backslash>(\<close>\<close>

definition RE_OPERATOR_ASSIGN :: regex where
"RE_OPERATOR_ASSIGN = seqs [RWordB, lit ''operator'', RStar ws, lit ''='', RStar ws, lit ''('']"

text \<open>\<open>\<backslash>s*(?:[\<backslash>w<>]+::)*([\<backslash>w<>]+)\<backslash>s*::\<backslash>s*([\<backslash>w<>]+)\<backslash>s*\<backslash>(\<close>\<close>

definition RE_QUALIFIED_CONSTRUCTOR :: regex where
"RE_QUALIFIED_CONSTRUCTOR = seqs [RStar ws, RStar (seqs [RPlus (RChar (\<lambda>c. one_of ''<>''
     c \<or> word_char c)), lit ''::'']), RGroup 1 (RPlus (RChar (\<lambda>c. one_of ''<>'' c
     \<or> word_char c))), RStar ws, lit ''::'', RStar ws, RGroup 2 (RPlus (RChar (\<lambda>c.
     one_of ''<>'' c \<or> word_char c))), RStar ws, lit ''('']"

text \<open>\<open>\<backslash>b(?:explicit|inline)\<backslash>s+[\<backslash>w<>]+\<backslash>s*\<backslash>(\<close>\<close>

definition RE_EXPLICIT_CONSTRUCTOR :: regex where
"RE_EXPLICIT_CONSTRUCTOR = seqs [RWordB, alts [lit ''explicit'', lit ''inline''], RPlus ws,
     RPlus (RChar (\<lambda>c. one_of ''<>'' c \<or> word_char c)), RStar ws, lit ''('']"

text \<open>\<open>\<backslash>s*[\<backslash>w<>]+\<backslash>s*\<backslash>(\<close>\<close>

definition RE_BARE_CALL :: regex where
"RE_BARE_CALL = seqs [RStar ws, RPlus (RChar (\<lambda>c. one_of ''<>'' c \<or> word_char c)),
     RStar ws, lit ''('']"

text \<open>\<open>[{}:;]\<backslash>s*$\<close>\<close>

definition RE_ENDS_STATEMENT :: regex where
"RE_ENDS_STATEMENT = seqs [oneof ''{}:;'', RStar ws, REol]"

text \<open>\<open>^.*?(\<backslash>w+)\<backslash>s*&&(.*)$\<close>\<close>

definition RE_NEXT_RVALUE :: regex where
"RE_NEXT_RVALUE = seqs [RBol, RLazy anyc, RGroup 1 (RPlus wordc), RStar ws, lit ''&&'', RGroup 2
     (RStar anyc), REol]"

lemma RE_NEXT_RVALUE_rest:
  assumes "re_match RE_NEXT_RVALUE s = Some m"
  shows "length (grp m 2) < length s"
proof -
  from assms obtain u v cs where path: "(([], s, []), (u, v, cs)) \<in> paths RE_NEXT_RVALUE"
    and m: "m = \<lparr>mo_string = s, mo_start = 0, mo_end = length u, mo_caps = cs\<rparr>" by (rule re_match_path)
  from path obtain a b ds where
    front: "(([], s, []), (a, ''&&'' @ b, ds)) \<in> paths (seqs [RBol, RLazy anyc, RGroup 1 (RPlus wordc), RStar ws])"
    and g2: "((rev ''&&'' @ a, b, ds), (u, v, cs)) \<in> paths (RGroup 2 (RStar anyc))"
    unfolding RE_NEXT_RVALUE_def seqs.simps paths_Seq paths_lit paths_Eol by blast
  from front obtain w where w: "s = w @ ''&&'' @ b" "a = rev w @ []" by (rule paths_split)
  from g2 obtain t where t: "b = t @ v" "u = rev t @ rev ''&&'' @ a" "cs = (2, length (rev ''&&'' @ a), length u) # ds"
    unfolding paths_Group paths_Star_char by auto
  have "grp m 2 = t" using w t by (simp add: m grp_def mgroup_def)
  with w t show ?thesis by simp
qed

text \<open>The types before \<open>&&\<close> must all be template parameters.\<close>

function only_typenames :: "string list \<Rightarrow> string \<Rightarrow> bool" where
  "only_typenames typenames line =
     (if line = [] then True
      else case re_match RE_NEXT_RVALUE line of
        None \<Rightarrow> \<not> contains line ''&&''
      | Some match \<Rightarrow> if grp match 1 \<notin> set typenames then False else only_typenames typenames (grp match 2))"
  by pat_completeness auto
termination
  by (relation "measure (\<lambda>(ts, l). length l)") (auto dest: RE_NEXT_RVALUE_rest)

declare only_typenames.simps [simp del]

definition IsRValueAllowed :: "cleansed_lines \<Rightarrow> nat \<Rightarrow> string list \<Rightarrow> bool result" where
  "IsRValueAllowed clean_lines linenum typenames =
     res_bind (marked_region clean_lines linenum (rev [1..<Suc linenum])) (\<lambda>region.
       case region of Some b \<Rightarrow> Inr b
       | None \<Rightarrow>
           res_bind (elided_at clean_lines (int linenum)) (\<lambda>line.
             if searches RE_OPERATOR_ASSIGN line then IsDeletedOrDefault clean_lines linenum
             else if (case re_match RE_QUALIFIED_CONSTRUCTOR line of Some m \<Rightarrow> grp m 1 = grp m 2 | None \<Rightarrow> False)
             then IsDeletedOrDefault clean_lines linenum
             else if searches RE_EXPLICIT_CONSTRUCTOR line then IsDeletedOrDefault clean_lines linenum
             else res_bind (if matches RE_BARE_CALL line
                            then res_map (\<lambda>previous_line. matches RE_BLANK previous_line \<or>
                                     searches RE_ENDS_STATEMENT previous_line)
                                   (if 0 < linenum then elided_at clean_lines (int linenum - 1) else Inr ''ReturnType'')
                            else Inr False) (\<lambda>constructor.
               if constructor then IsDeletedOrDefault clean_lines linenum
               else Inr (only_typenames typenames line))))"

section \<open>Template parameters\<close>

text \<open>\<open>^(\<backslash>s*template\<backslash>s*)<\<close>\<close>

definition RE_TEMPLATE_OPEN :: regex where
"RE_TEMPLATE_OPEN = seqs [RBol, RGroup 1 (seqs [RStar ws, lit ''template'', RStar ws]), lit
     ''<'']"

text \<open>\<open>^(.*)>\<backslash>s*$\<close>\<close>

definition RE_TEMPLATE_CLOSE :: regex where
"RE_TEMPLATE_CLOSE = seqs [RBol, RGroup 1 (RStar anyc), lit ''>'', RStar ws, REol]"

text \<open>\<open>^[,\<backslash>s]*(?:typename|class)(?:\<backslash>.\<backslash>.\<backslash>.)?\<backslash>s+(\<backslash>w+)(.*)$\<close>\<close>

definition RE_TYPENAME :: regex where
"RE_TYPENAME = seqs [RBol, RStar (RChar (\<lambda>c. one_of '','' c \<or> ascii_space c)), alts
     [lit ''typename'', lit ''class''], ROpt (lit ''...''), RPlus ws, RGroup 1 (RPlus wordc),
     RGroup 2 (RStar anyc), REol]"

lemma RE_TYPENAME_rest:
  assumes "re_match RE_TYPENAME s = Some m"
  shows "length (grp m 2) < length s"
proof -
  have re: "RE_TYPENAME = seqs ([RBol, RStar (RChar (\<lambda>c. one_of '','' c \<or> ascii_space c)), alts [lit ''typename'', lit ''class''],
      ROpt (lit ''...''), RPlus ws] @ [RGroup 1 (RPlus wordc), RGroup 2 (RStar anyc), REol])"
    by (simp add: RE_TYPENAME_def)
  show ?thesis by (rule match_last_group[OF assms[unfolded re]]) (auto simp: rx_simps)
qed

function template_typenames :: "string \<Rightarrow> string list" where
  "template_typenames argument_list =
     (case re_match RE_TYPENAME argument_list of
        None \<Rightarrow> []
      | Some match \<Rightarrow> grp match 1 # template_typenames (grp match 2))"
  by pat_completeness auto
termination
  by (relation "measure length") (auto dest: RE_TYPENAME_rest)

declare template_typenames.simps [simp del]

text \<open>The line with the start of the function: \<open>None\<close> at a blank line or at the top of the file.\<close>

fun function_line :: "cleansed_lines \<Rightarrow> nat \<Rightarrow> nat option result" where
  "function_line clean_lines 0 = Inr None"
| "function_line clean_lines (Suc n) =
     res_bind (elided_at clean_lines (int (Suc n))) (\<lambda>line.
       if matches RE_BLANK line then Inr None
       else if CHR ''('' \<in> set line then Inr (Some (Suc n))
       else function_line clean_lines n)"

definition template_argument_list :: "cleansed_lines \<Rightarrow> nat \<Rightarrow> string result" where
  "template_argument_list clean_lines func_line =
     res_bind (elided_at clean_lines (int func_line)) (\<lambda>line.
       case re_match RE_TEMPLATE_OPEN line of
         Some match \<Rightarrow>
           res_map (\<lambda>(_, end_line, end_col).
               if - 1 < end_col \<and> end_line = func_line
               then py_slice line (int (length (grp match 1)) + 1) end_col else [])
             (CloseExpression (cl_elided clean_lines) func_line (length (grp match 1)))
       | None \<Rightarrow>
           if 1 < func_line then
             res_bind (elided_at clean_lines (int func_line - 1)) (\<lambda>previous.
               case re_match RE_TEMPLATE_CLOSE previous of
                 None \<Rightarrow> Inr []
               | Some match \<Rightarrow>
                   (let end_col = length (grp match 1) in
                    res_bind (ReverseCloseExpression (cl_elided clean_lines) (func_line - 1) end_col)
                      (\<lambda>(_, start_line, start_col).
                        if - 1 < start_col then
                          (if start_line < func_line - 1 then
                             res_bind (elided_at clean_lines (int start_line)) (\<lambda>first_line.
                             res_map (\<lambda>between.
                                 py_from first_line (start_col + 1) @ concat between @ take end_col previous)
                               (res_mapM (\<lambda>i. elided_at clean_lines (int i)) [start_line + 1..<func_line - 1]))
                           else Inr (py_slice previous (start_col + 1) (int end_col)))
                        else Inr [])))
           else Inr [])"

definition GetTemplateArgs :: "cleansed_lines \<Rightarrow> nat \<Rightarrow> string list result" where
  "GetTemplateArgs clean_lines linenum =
     res_bind (function_line clean_lines linenum) (\<lambda>func_line.
       case func_line of
         None \<Rightarrow> Inr []
       | Some n \<Rightarrow> res_map template_typenames (template_argument_list clean_lines n))"

section \<open>The check\<close>

text \<open>\<open>^(.*\<backslash>S)&&\<close>\<close>

definition RE_TIGHT_AND_LEFT :: regex where
"RE_TIGHT_AND_LEFT = seqs [RBol, RGroup 1 (seqs [RStar anyc, nonws]), lit ''&&'']"

text \<open>\<open>(.*)&&\<backslash>S\<close>\<close>

definition RE_TIGHT_AND_RIGHT :: regex where
"RE_TIGHT_AND_RIGHT = seqs [RGroup 1 (RStar anyc), lit ''&&'', nonws]"

text \<open>\<open>\<backslash>boperator\<backslash>s*$\<close>\<close>

definition RE_OPERATOR_AT_END :: regex where
"RE_OPERATOR_AT_END = seqs [RWordB, lit ''operator'', RStar ws, REol]"

definition CheckRValueReference :: "string \<Rightarrow> cleansed_lines \<Rightarrow> nat \<Rightarrow> nesting \<Rightarrow> check option" where
  "CheckRValueReference filename clean_lines linenum nesting_state =
     (case elided_at clean_lines (int linenum) of
        Inl e \<Rightarrow> Some (Inl e)
      | Inr line \<Rightarrow>
          (case (case re_match RE_TIGHT_AND_LEFT line of
                   Some m \<Rightarrow> Some m | None \<Rightarrow> re_match RE_TIGHT_AND_RIGHT line) of
             None \<Rightarrow> Some (Inr [])
           | Some match \<Rightarrow>
               if contains line ''(&&)'' \<or> searches RE_OPERATOR_AT_END (grp match 1) then Some (Inr [])
               else (case GetTemplateArgs clean_lines linenum of
                 Inl e \<Rightarrow> Some (Inl e)
               | Inr typenames \<Rightarrow>
                   map_option (\<lambda>r. res_bind r (\<lambda>is_type.
                     if is_type
                     then res_map (\<lambda>allowed.
                            if \<not> allowed
                            then [report filename (int linenum) ''build/c++11'' 3
                                    ''RValue references are an unapproved C++ feature.'']
                            else [])
                          (IsRValueAllowed clean_lines linenum typenames)
                     else Inr [report filename (int linenum) ''whitespace/operators'' 3 ''Missing spaces around &&'']))
                   (IsRValueType typenames clean_lines nesting_state linenum (length (grp match 1))))))"

section \<open>One activation\<close>

lemma RE_LAST_WORD_groups:
  assumes "re_match RE_LAST_WORD s = Some m"
  obtains t where "s = grp m 1 @ grp m 2 @ t" "grp m 2 \<noteq> []"
  using assms unfolding RE_LAST_WORD_def seqs.simps
  by (elim match_two_groups) (auto simp: rx_simps)

lemma RE_SYMBOL_groups:
  assumes "re_match RE_SYMBOL s = Some m"
  obtains t where "s = grp m 1 @ grp m 2 @ t" "grp m 2 \<noteq> []"
  using assms unfolding RE_SYMBOL_def seqs.simps
  by (elim match_two_groups) (auto simp: rx_simps)

text \<open>The symbol lies on the text it is searched in, or on a line above.\<close>

lemma find_symbol_spec:
  "aligned cl \<Longrightarrow> n < cl_num_lines cl \<Longrightarrow>
   \<exists>r. find_symbol cl n line = Inr r \<and> (\<forall>k m. r = Some (k, m) \<longrightarrow>
     k \<le> n \<and> re_match RE_SYMBOL (if k = n then line else cl_elided cl ! k) = Some m)"
proof (induction n arbitrary: line)
  case 0
  show ?case by (cases "re_match RE_SYMBOL line") auto
next
  case (Suc n)
  show ?case
  proof (cases "re_match RE_SYMBOL line")
    case (Some m)
    then show ?thesis by auto
  next
    case None
    from Suc.IH[of "cl_elided cl ! n"] Suc.prems obtain r where
      r: "find_symbol cl n (cl_elided cl ! n) = Inr r" "\<And>k m. r = Some (k, m) \<Longrightarrow>
        k \<le> n \<and> re_match RE_SYMBOL (if k = n then cl_elided cl ! n else cl_elided cl ! k) = Some m"
      by (auto simp del: if_split)
    have "k \<le> Suc n \<and> re_match RE_SYMBOL (if k = Suc n then line else cl_elided cl ! k) = Some m" if "r = Some (k, m)" for k m
      using r(2)[OF that] by (cases "k = n") auto
    with None Suc.prems r(1) show ?thesis by (intro exI[of _ r]) auto
  qed
qed

lemma text_before_returns:
  assumes "aligned cl" "k < cl_num_lines cl"
  shows "returns (text_before cl k t)"
proof -
  have "res_mapM (\<lambda>i. elided_at cl (int i)) [(if k < 6 then 1 else k - 5)..<k] =
      Inr (map (\<lambda>i. cl_elided cl ! i) [(if k < 6 then 1 else k - 5)..<k])"
    using assms by (intro res_mapM_total) auto
  then show ?thesis by (simp add: text_before_def)
qed

lemma IsTemplateParameterList_returns:
  assumes "aligned cl" "k < cl_num_lines cl" "c < length (cl_elided cl ! k)"
  shows "returns (IsTemplateParameterList cl k c)"
proof -
  have k: "k < length (cl_elided cl)" using assms by (simp add: aligned_def)
  from ReverseCloseExpression_returns[OF k assms(3)] obtain l j q where
    r: "ReverseCloseExpression (cl_elided cl) k c = Inr (l, j, q)" "q < 0 \<or> j \<le> k" by blast
  with assms show ?thesis by (auto simp: IsTemplateParameterList_def)
qed

lemma symbol_step_returns:
  assumes "aligned cl" "k < cl_num_lines cl" "length (grp m 1) < length (cl_elided cl ! k)"
  shows "returns (symbol_step cl s before k m)"
proof -
  have "res_mapM (\<lambda>i. elided_at cl (int i)) [k + 1..<NumLines cl] = Inr (map (\<lambda>i. cl_elided cl ! i) [k + 1..<NumLines cl])"
    using assms by (intro res_mapM_total) (auto simp: NumLines_def)
  with text_before_returns[OF assms(1,2)] IsTemplateParameterList_returns[OF assms] assms show ?thesis
    by (simp add: symbol_step_def)
qed

lemma group_length: "length (grp m k) \<le> length (mo_string m)"
  by (auto simp: grp_def mgroup_def split: option.splits)

lemma rvalue_step_returns:
  assumes "aligned cl" "n < cl_num_lines cl"
  shows "\<exists>a. rvalue_step ts cl s n c = Inr a \<and> (\<forall>c'. a = AskColumn c' \<longrightarrow>
    (\<exists>k. k \<le> n \<and> CHR ''('' \<in> set (cl_elided cl ! k) \<and> (k = n \<longrightarrow> c' < c)))"
proof (cases "re_match RE_LAST_WORD (take c (cl_elided cl ! n))")
  case None
  with assms show ?thesis by (simp add: rvalue_step_def)
next
  case (Some m)
  let ?line = "cl_elided cl ! n"
  from Some obtain t where m: "take c ?line = grp m 1 @ grp m 2 @ t" "grp m 2 \<noteq> []" by (rule RE_LAST_WORD_groups)
  have "length (take c ?line) \<le> c" "length (take c ?line) \<le> length ?line" by simp_all
  then have len: "length (grp m 1) + length (grp m 2) \<le> length ?line" "length (grp m 1) + length (grp m 2) \<le> c"
    unfolding m(1) by simp_all
  have n: "n < length (cl_elided cl)" using assms by (simp add: aligned_def)
  have dec: "\<exists>b. IsDecltype cl n (length (grp m 1) + length (grp m 2) - 1) = Inr b"
    using ReverseCloseExpression_returns[OF n, of "length (grp m 1) + length (grp m 2) - 1"] len m(2)
    by (cases "grp m 2") (auto simp: IsDecltype_def)
  from find_symbol_spec[OF assms, of "grp m 1"] obtain r where r: "find_symbol cl n (grp m 1) = Inr r"
    "\<And>k x. r = Some (k, x) \<Longrightarrow> k \<le> n \<and> re_match RE_SYMBOL (if k = n then grp m 1 else cl_elided cl ! k) = Some x"
    by blast
  show ?thesis
  proof (cases r)
    case None
    with Some assms r dec show ?thesis by (auto simp: rvalue_step_def Let_def)
  next
    case (Some p)
    obtain k x where p: "p = (k, x)" by (cases p)
    define str where "str = (if k = n then grp m 1 else cl_elided cl ! k)"
    from r(2)[of k x] Some p have k: "k \<le> n" and x: "re_match RE_SYMBOL str = Some x" by (auto simp: str_def)
    from x obtain y where y: "str = grp x 1 @ grp x 2 @ y" "grp x 2 \<noteq> []" by (rule RE_SYMBOL_groups)
    have pre: "prefix str (cl_elided cl ! k)"
    proof (cases "k = n")
      case True
      have "?line = grp m 1 @ grp m 2 @ t @ drop c ?line" using m(1) by (metis append_take_drop_id append.assoc)
      with True show ?thesis by (metis prefixI str_def)
    qed (simp add: str_def)
    have short: "length (grp x 1) < length str" using arg_cong[OF y(1), of length] y(2) by simp
    have "length (grp x 1) < length (cl_elided cl ! k)"
      using short prefix_length_le[OF pre] by linarith
    then have "returns (symbol_step cl s (take c ?line) k x)"
      using symbol_step_returns[OF assms(1)] k assms(2) by auto
    then obtain a where a: "symbol_step cl s (take c ?line) k x = Inr a" by (auto simp: returns_iff)
    have ask: "CHR ''('' \<in> set (cl_elided cl ! k) \<and> (k = n \<longrightarrow> c' < c)" if "a = AskColumn c'" for c'
    proof -
      from a that have paren: "grp x 2 = ''(''" and "paren_step s (take c ?line) (grp x 1) = AskColumn c'"
        by (auto simp: symbol_step_def split: if_splits)
      then obtain f where f: "re_match RE_RETURN_TYPE (grp x 1) = Some f" "c' = length (grp f 1)"
        by (auto simp: paren_step_def split: if_splits option.splits)
      have "c' \<le> length (grp x 1)"
        using group_length[of f 1] re_match_Some[OF f(1)] f(2) by simp
      moreover have "length (grp x 1) < c" if "k = n" using that short len by (simp add: str_def)
      moreover have "CHR ''('' \<in> set str" by (subst y(1)) (simp add: paren)
      ultimately show ?thesis using set_mono_prefix[OF pre] by auto
    qed
    have above: "\<forall>c'. a = AskColumn c' \<longrightarrow>
        (\<exists>k. k \<le> n \<and> CHR ''('' \<in> set (cl_elided cl ! k) \<and> (k = n \<longrightarrow> c' < c))"
      using ask k by blast
    obtain b where b: "IsDecltype cl n (length (grp m 1) + length (grp m 2) - 1) = Inr b" using dec by blast
    define F where "F = find_symbol cl n (grp m 1)"
    have sym: "res_bind F (\<lambda>sym. case sym of None \<Rightarrow> Inr (Answer True)
        | Some (start, match_symbol) \<Rightarrow> symbol_step cl s (take c ?line) start match_symbol) = Inr a"
      using r(1) a Some p by (simp add: F_def)
    have line: "elided_at cl (int n) = Inr ?line" using assms by simp
    show ?thesis
      unfolding rvalue_step_def line Let_def F_def[symmetric] res_bind.simps \<open>re_match RE_LAST_WORD (take c ?line) = Some m\<close>
        option.case b sym using above by simp
  qed
qed

section \<open>The recursion\<close>

text \<open>C18. When no line above the one asked about has an opening parenthesis, every recursive call of
  \<open>IsRValueType\<close> asks about a smaller column, so the function returns.\<close>

theorem IsRValueType_returns:
  assumes "aligned cl" "n < cl_num_lines cl" "\<And>k. k < n \<Longrightarrow> CHR ''('' \<notin> set (cl_elided cl ! k)"
  shows "\<exists>b. IsRValueType ts cl s n c = Some (Inr b)"
proof (induction c rule: less_induct)
  case (less c)
  from rvalue_step_returns[OF assms(1,2), of ts s c] obtain a where step: "rvalue_step ts cl s n c = Inr a"
    and ask: "\<And>c'. a = AskColumn c' \<Longrightarrow> \<exists>k. k \<le> n \<and> CHR ''('' \<in> set (cl_elided cl ! k) \<and> (k = n \<longrightarrow> c' < c)"
    by blast
  show ?case
  proof (cases a)
    case (Answer b)
    with step show ?thesis by (subst IsRValueType.simps) simp
  next
    case (AskColumn c')
    with ask[OF AskColumn] assms(3) have "c' < c" by (metis le_neq_implies_less)
    from less.IH[OF this] step AskColumn show ?thesis by (subst IsRValueType.simps) simp
  qed
qed

theorem IsRValueType_returns_witness:
  "\<exists>b. IsRValueType [] (plain_lines [''// head'', ''string Foo(Bar&& b);'']) init_nesting 1 14 = Some (Inr b)"
  by (rule IsRValueType_returns) (auto simp: less_Suc_eq)

text \<open>A column that asks for itself again is a recursion without end.\<close>

lemma asks_itself_loops:
  assumes "rvalue_step ts cl s n c = Inr (AskColumn c)"
  shows "IsRValueType ts cl s n c = None"
proof -
  have "rvalue_step ts cl s n c \<noteq> Inr (AskColumn c)" if "IsRValueType ts cl s n c = Some y" for ts cl s n c y
  proof (rule IsRValueType.raw_induct[OF _ that])
    fix rec ts cl s n c y
    assume IH: "\<And>ts cl s n c y. rec ts cl s n c = Some y \<Longrightarrow> rvalue_step ts cl s n c \<noteq> Inr (AskColumn c)"
      and step: "(case rvalue_step ts cl s n c of Inl e \<Rightarrow> Some (Inl e) | Inr (Answer b) \<Rightarrow> Some (Inr b)
        | Inr (AskColumn c) \<Rightarrow> rec ts cl s n c) = Some y"
    show "rvalue_step ts cl s n c \<noteq> Inr (AskColumn c)"
      using step IH[of ts cl s n c y] by (auto split: sum.splits rvalue_answer.splits)
  qed
  with assms show ?thesis by (cases "IsRValueType ts cl s n c") auto
qed

text \<open>The column of the recursive call is measured on the line of the parenthesis and used on the line
  asked about.  Here it stays the same, and the recursion does not end.\<close>

theorem IsRValueType_loops:
  "IsRValueType [] (plain_lines [''// head'', ''string Foo('', ''    Bar&& b);'']) s 2 7 = None"
proof -
  have "rvalue_step [] (plain_lines [''// head'', ''string Foo('', ''    Bar&& b);'']) s 2 7 = Inr (AskColumn 6)"
    by code_simp
  moreover have "rvalue_step [] (plain_lines [''// head'', ''string Foo('', ''    Bar&& b);'']) s 2 6 = Inr (AskColumn 6)"
    by code_simp
  moreover note asks_itself_loops[of "[]" "plain_lines [''// head'', ''string Foo('', ''    Bar&& b);'']" s 2 6]
  ultimately show ?thesis by (subst IsRValueType.simps) simp
qed

theorem listed_RValueReference:
  "CheckRValueReference f cl n s = Some r \<Longrightarrow> listedR f r"
  unfolding CheckRValueReference_def Let_def
  by (auto intro!: listedR_bind listedR_map split: sum.splits option.splits if_splits)

end
