(* ===== verification/CheckMacros.thy ===== *)
theory CheckMacros
  imports CheckBase
begin

text \<open>
  The check of \<open>CHECK\<close> and \<open>EXPECT\<close> macros (\<open>cpplint.py\<close>: \<open>_CHECK_MACROS\<close>, \<open>_CHECK_REPLACEMENT\<close>,
  \<open>FindCheckMacro\<close>, \<open>CheckCheck\<close>).

  The loop that splits the expression into its operands is \<open>parse_operands\<close>; each round consumes
  text, which the lemmas about its two patterns show, so it terminates.  The dictionary of
  replacements is a function into an option, with the source's two tables of operators.
\<close>

section \<open>Macros and replacements\<close>

definition CHECK_MACROS :: "string list" where
  "CHECK_MACROS = [''DCHECK'', ''CHECK'', ''EXPECT_TRUE_M'', ''EXPECT_TRUE'', ''ASSERT_TRUE_M'', ''ASSERT_TRUE'',
     ''EXPECT_FALSE_M'', ''EXPECT_FALSE'', ''ASSERT_FALSE_M'', ''ASSERT_FALSE'']"

definition op_names :: "(string \<times> string) list" where
  "op_names = [(''=='', ''EQ''), (''!='', ''NE''), (''>='', ''GE''), (''>'', ''GT''), (''<='', ''LE''), (''<'', ''LT'')]"

definition inverse_op_names :: "(string \<times> string) list" where
  "inverse_op_names = [(''=='', ''NE''), (''!='', ''EQ''), (''>='', ''LT''), (''>'', ''LE''), (''<='', ''GT''), (''<'', ''GE'')]"

definition CHECK_REPLACEMENT :: "string \<Rightarrow> string \<Rightarrow> string option" where
  "CHECK_REPLACEMENT macro op =
     (if macro = ''DCHECK'' then map_option (\<lambda>r. ''DCHECK_'' @ r) (map_of op_names op)
      else if macro = ''CHECK'' then map_option (\<lambda>r. ''CHECK_'' @ r) (map_of op_names op)
      else if macro = ''EXPECT_TRUE'' then map_option (\<lambda>r. ''EXPECT_'' @ r) (map_of op_names op)
      else if macro = ''ASSERT_TRUE'' then map_option (\<lambda>r. ''ASSERT_'' @ r) (map_of op_names op)
      else if macro = ''EXPECT_TRUE_M'' then map_option (\<lambda>r. ''EXPECT_'' @ r @ ''_M'') (map_of op_names op)
      else if macro = ''ASSERT_TRUE_M'' then map_option (\<lambda>r. ''ASSERT_'' @ r @ ''_M'') (map_of op_names op)
      else if macro = ''EXPECT_FALSE'' then map_option (\<lambda>r. ''EXPECT_'' @ r) (map_of inverse_op_names op)
      else if macro = ''ASSERT_FALSE'' then map_option (\<lambda>r. ''ASSERT_'' @ r) (map_of inverse_op_names op)
      else if macro = ''EXPECT_FALSE_M'' then map_option (\<lambda>r. ''EXPECT_'' @ r @ ''_M'') (map_of inverse_op_names op)
      else if macro = ''ASSERT_FALSE_M'' then map_option (\<lambda>r. ''ASSERT_'' @ r @ ''_M'') (map_of inverse_op_names op)
      else None)"

text \<open>\<open>^(.*\<backslash>bMACRO\<backslash>s*)\(\<close>\<close>

definition RE_MACRO_CALL :: "string \<Rightarrow> regex" where
  "RE_MACRO_CALL macro = seqs [RBol, RGroup 1 (seqs [RStar anyc, RWordB, lit macro, RStar ws]), lit ''('']"

fun find_macro :: "string \<Rightarrow> string list \<Rightarrow> (string \<times> nat) option" where
  "find_macro line [] = None"
| "find_macro line (macro # macros) =
     (if contains line macro
      then (case re_match (RE_MACRO_CALL macro) line of
              None \<Rightarrow> find_macro line macros
            | Some matched \<Rightarrow> Some (macro, length (grp matched 1)))
      else find_macro line macros)"

definition FindCheckMacro :: "string \<Rightarrow> (string \<times> nat) option" where
  "FindCheckMacro line = find_macro line CHECK_MACROS"

section \<open>The operands\<close>

text \<open>\<open>^\<backslash>s*(<<|<<=|>>|>>=|->\<backslash>*|->|&&|\<backslash>|\<backslash>||==|!=|>=|>|<=|<|\<backslash>()(.*)$\<close>\<close>

definition RE_OPERATOR :: regex where
"RE_OPERATOR = seqs [RBol, RStar ws, RGroup 1 (alts [lit ''<<'', lit ''<<='', lit ''>>'', lit
     ''>>='', lit ''->*'', lit ''->'', lit ''&&'', lit ''||'', lit ''=='', lit ''!='', lit
     ''>='', lit ''>'', lit ''<='', lit ''<'', lit ''('']), RGroup 2 (RStar anyc), REol]"

text \<open>\<open>^([^-=!<>()&|]+)(.*)$\<close>\<close>

definition RE_OPERAND :: regex where
"RE_OPERAND = seqs [RBol, RGroup 1 (RPlus (noneof ''-=!<>()&|'')), RGroup 2 (RStar anyc), REol]"

text \<open>\<open>^(\<backslash>s*\<backslash>S)(.*)$\<close>\<close>

definition RE_OPERAND_CHAR :: regex where
"RE_OPERAND_CHAR = seqs [RBol, RGroup 1 (seqs [RStar ws, nonws]), RGroup 2 (RStar anyc), REol]"

lemma RE_OPERATOR_match:
  assumes "re_match RE_OPERATOR s = Some m"
  shows "length (grp m 2) < length s \<and> grp m 1 \<in> set [''<<'', ''<<='', ''>>'', ''>>='', ''->*'', ''->'', ''&&'', ''||'',
     ''=='', ''!='', ''>='', ''>'', ''<='', ''<'', ''('']"
proof -
  let ?ops = "[''<<'', ''<<='', ''>>'', ''>>='', ''->*'', ''->'', ''&&'', ''||'',
     ''=='', ''!='', ''>='', ''>'', ''<='', ''<'', ''('']"
  have re: "RE_OPERATOR = seqs [RBol, RStar ws, RGroup 1 (alts (map lit ?ops)), RGroup 2 (RStar anyc), REol]"
    by (simp add: RE_OPERATOR_def)
  from assms obtain u v cs where path: "(([], s, []), (u, v, cs)) \<in> paths RE_OPERATOR"
    and m: "m = \<lparr>mo_string = s, mo_start = 0, mo_end = length u, mo_caps = cs\<rparr>" by (rule re_match_path)
  from path obtain sp b a b' ds where sp: "s = sp @ b"
    and g1: "((rev sp, b, []), (a, b', ds)) \<in> paths (RGroup 1 (alts (map lit ?ops)))"
    and g2: "((a, b', ds), (u, v, cs)) \<in> paths (RGroup 2 (RStar anyc))"
    unfolding re seqs.simps paths_Seq paths_Bol paths_Star_char paths_Eol by fastforce
  from g1 obtain es op where op: "op \<in> set ?ops" "((rev sp, b, []), (a, b', es)) \<in> paths (lit op)"
    "ds = (1, length (rev sp), length a) # es"
    unfolding paths_Group paths_alts by (auto simp only: list_ex_iff set_map)
  then have b: "b = op @ b'" "a = rev op @ rev sp" "ds = [(1, length sp, length sp + length op)]"
    unfolding paths_lit by auto
  from g2 obtain t where t: "b' = t @ v" "u = rev t @ a" "cs = (2, length a, length u) # ds"
    unfolding paths_Group paths_Star_char by auto
  have "grp m 1 = op" using b t sp by (simp add: m grp_def mgroup_def)
  moreover have "grp m 2 = t" using b t sp by (simp add: m grp_def mgroup_def)
  moreover have "op \<noteq> []" using op(1) by auto
  ultimately show ?thesis using op(1) sp b t by simp
qed

lemma RE_OPERAND_rest:
  assumes "re_match RE_OPERAND s = Some m"
  shows "length (grp m 2) < length s"
proof -
  have re: "RE_OPERAND = seqs ([RBol] @ [RGroup 1 (RPlus (noneof ''-=!<>()&|'')), RGroup 2 (RStar anyc), REol])"
    by (simp add: RE_OPERAND_def)
  show ?thesis by (rule match_last_group[OF assms[unfolded re]]) (auto simp: rx_simps)
qed

lemma RE_OPERAND_CHAR_rest:
  assumes "re_match RE_OPERAND_CHAR s = Some m"
  shows "length (grp m 2) < length s"
proof -
  have re: "RE_OPERAND_CHAR = seqs ([RBol] @ [RGroup 1 (seqs [RStar ws, nonws]), RGroup 2 (RStar anyc), REol])"
    by (simp add: RE_OPERAND_CHAR_def)
  show ?thesis by (rule match_last_group[OF assms[unfolded re]]) (auto simp: rx_simps)
qed

text \<open>The left operand, the operator and the right operand; \<open>None\<close> is an early return.\<close>

function parse_operands :: "string \<Rightarrow> string \<Rightarrow> (string \<times> string \<times> string) option" where
  "parse_operands lhs expression =
     (if expression = [] then None
      else case re_match RE_OPERATOR expression of
        Some matched \<Rightarrow>
          (let token = grp matched 1; rest = grp matched 2
           in if token = ''('' then
                (case FindEndOfExpressionInLine rest 0 ''('' of (end_pos, _) \<Rightarrow>
                   if end_pos < 0 then None
                   else parse_operands (lhs @ ''('' @ take (nat end_pos) rest) (drop (nat end_pos) rest))
              else if token \<in> set [''&&'', ''||''] then None
              else if token \<in> set [''<<'', ''<<='', ''>>'', ''>>='', ''->*'', ''->'']
              then parse_operands (lhs @ token) rest
              else Some (lhs, token, rest))
      | None \<Rightarrow>
          (case (case re_match RE_OPERAND expression of
                   Some matched \<Rightarrow> Some matched | None \<Rightarrow> re_match RE_OPERAND_CHAR expression) of
             None \<Rightarrow> None
           | Some matched \<Rightarrow> parse_operands (lhs @ grp matched 1) (grp matched 2)))"
  by pat_completeness auto
termination
  by (relation "measure (\<lambda>(lhs, e). length e)")
    (auto dest: RE_OPERATOR_match RE_OPERAND_rest RE_OPERAND_CHAR_rest split: option.splits
      simp: less_imp_diff_less)

declare parse_operands.simps [simp del]

text \<open>\<open>^([-+]?(\<backslash>d+|0[xX][0-9a-fA-F]+)[lLuU]{0,3}|".*"|\<backslash>'.*\<backslash>')$\<close>\<close>

definition RE_CONSTANT :: regex where
"RE_CONSTANT = seqs [RBol, RGroup 1 (alts [seqs [ROpt (oneof ''-+''), RGroup 2 (alts [RPlus
     digit, seqs [lit ''0'', oneof ''xX'', RPlus (RChar (\<lambda>c. digit_char c \<or> between
     (CHR ''a'') (CHR ''f'') c \<or> between (CHR ''A'') (CHR ''F'') c))]]), at_most 3 (oneof
     ''lLuU'')], seqs [lit [DQ], RStar anyc, lit [DQ]], seqs [lit [SQ], RStar anyc, lit [SQ]]]),
     REol]"

text \<open>\<open>\<backslash>s*;\<close>\<close>

definition RE_SEMICOLON :: regex where
"RE_SEMICOLON = seqs [RStar ws, lit '';'']"

text \<open>The report for the expression inside the macro's parentheses.\<close>

definition check_operands :: "string \<Rightarrow> nat \<Rightarrow> string \<Rightarrow> string \<Rightarrow> check" where
  "check_operands filename linenum check_macro expression =
     (case parse_operands [] expression of
        None \<Rightarrow> Inr []
      | Some (lhs, op, rhs) \<Rightarrow>
          if lhs = [] \<or> rhs = [] then Inr []
          else if contains rhs ''&&'' \<or> contains rhs ''||'' then Inr []
          else if matches RE_CONSTANT (strip uni_space lhs) \<or> matches RE_CONSTANT (strip uni_space rhs)
          then (case CHECK_REPLACEMENT check_macro op of
                  None \<Rightarrow> Inl KeyError
                | Some replacement \<Rightarrow> Inr [report filename (int linenum) ''readability/check'' 2
                    (''Consider using '' @ replacement @ '' instead of '' @ check_macro @ ''(a '' @ op @ '' b)'')])
          else Inr [])"

definition CheckCheck :: "string \<Rightarrow> cleansed_lines \<Rightarrow> nat \<Rightarrow> check" where
  "CheckCheck filename clean_lines linenum =
     res_bind (elided_at clean_lines (int linenum)) (\<lambda>line.
       case FindCheckMacro line of
         None \<Rightarrow> Inr []
       | Some (check_macro, start_pos) \<Rightarrow>
           res_bind (CloseExpression (cl_elided clean_lines) linenum start_pos) (\<lambda>(last_line, end_line, end_pos).
             if end_pos < 0 then Inr []
             else if \<not> matches RE_SEMICOLON (py_from last_line end_pos) then Inr []
             else check_operands filename linenum check_macro
               (if linenum = end_line
                then py_slice line (int start_pos + 1) (end_pos - 1)
                else drop (start_pos + 1) line @
                     concat (map (\<lambda>i. cl_elided clean_lines ! i) [linenum + 1..<end_line]) @
                     py_slice last_line 0 (end_pos - 1))))"

section \<open>The check returns\<close>

lemma find_macro_in:
  "find_macro line ms = Some (macro, k) \<Longrightarrow> macro \<in> set ms \<and> k < length line"
proof (induction ms)
  case Nil
  then show ?case by simp
next
  case (Cons m ms)
  have "length (grp x 1) < length line" if "re_match (RE_MACRO_CALL m) line = Some x" for x
    using that unfolding RE_MACRO_CALL_def seqs.simps by (rule match_head_group) (auto simp: rx_simps)
  with Cons show ?case by (auto split: if_splits option.splits)
qed

lemma parse_operands_op:
  "parse_operands lhs e = Some (l, op, r) \<Longrightarrow> op \<in> set (map fst op_names)"
proof (induction lhs e rule: parse_operands.induct)
  case (1 lhs e)
  show ?case
  proof (cases "re_match RE_OPERATOR e")
    case (Some m)
    from RE_OPERATOR_match[OF Some] have tok: "grp m 1 \<in> set [''<<'', ''<<='', ''>>'', ''>>='', ''->*'', ''->'', ''&&'', ''||'',
     ''=='', ''!='', ''>='', ''>'', ''<='', ''<'', ''('']" ..
    from "1.prems" have ne: "e \<noteq> []" by (subst (asm) parse_operands.simps) (auto split: if_splits)
    show ?thesis
    proof (cases "grp m 1 = ''('' \<or> grp m 1 \<in> set [''<<'', ''<<='', ''>>'', ''>>='', ''->*'', ''->'']")
      case True
      with "1.prems" "1.IH"(2)[OF ne Some refl refl] "1.IH"(3)[OF ne Some refl refl] ne Some show ?thesis
        by (subst (asm) parse_operands.simps) (auto simp: Let_def split: if_splits prod.splits)
    next
      case False
      with "1.prems" ne Some tok show ?thesis
        by (subst (asm) parse_operands.simps) (auto simp: Let_def op_names_def split: if_splits)
    qed
  next
    case None
    with "1.prems" "1.IH"(1) show ?thesis
      by (subst (asm) parse_operands.simps) (auto split: if_splits option.splits)
  qed
qed

text \<open>Every operator has a name and an inverse, and every macro uses one of the two tables.\<close>

lemma op_name: "op \<in> set (map fst op_names) \<Longrightarrow> \<exists>r. map_of op_names op = Some r"
  by (cases "map_of op_names op") (auto simp: map_of_eq_None_iff)

lemma inverse_op_name: "op \<in> set (map fst op_names) \<Longrightarrow> \<exists>r. map_of inverse_op_names op = Some r"
proof -
  have "map fst op_names = map fst inverse_op_names" by (simp add: op_names_def inverse_op_names_def)
  then show "op \<in> set (map fst op_names) \<Longrightarrow> \<exists>r. map_of inverse_op_names op = Some r"
    by (cases "map_of inverse_op_names op") (auto simp: map_of_eq_None_iff)
qed

lemma macro_cases:
  "macro \<in> set CHECK_MACROS \<Longrightarrow>
     macro = ''DCHECK'' \<or> macro = ''CHECK'' \<or> macro = ''EXPECT_TRUE_M'' \<or> macro = ''EXPECT_TRUE'' \<or>
     macro = ''ASSERT_TRUE_M'' \<or> macro = ''ASSERT_TRUE'' \<or> macro = ''EXPECT_FALSE_M'' \<or> macro = ''EXPECT_FALSE'' \<or>
     macro = ''ASSERT_FALSE_M'' \<or> macro = ''ASSERT_FALSE''"
  by (simp only: CHECK_MACROS_def list.set insert_iff empty_iff simp_thms)

lemma CHECK_REPLACEMENT_total:
  assumes "macro \<in> set CHECK_MACROS" "op \<in> set (map fst op_names)"
  shows "\<exists>r. CHECK_REPLACEMENT macro op = Some r"
proof -
  obtain r q where "map_of op_names op = Some r" "map_of inverse_op_names op = Some q"
    using op_name[OF assms(2)] inverse_op_name[OF assms(2)] by blast
  with macro_cases[OF assms(1)] show ?thesis
    by (elim disjE) (simp_all add: CHECK_REPLACEMENT_def)
qed

lemma check_operands_returns:
  "macro \<in> set CHECK_MACROS \<Longrightarrow> \<exists>rs. check_operands f n macro e = Inr rs"
proof (cases "parse_operands [] e")
  case None
  then show ?thesis by (simp add: check_operands_def)
next
  case (Some p)
  obtain l op r where p: "p = (l, op, r)" by (cases p)
  assume "macro \<in> set CHECK_MACROS"
  from CHECK_REPLACEMENT_total[OF this parse_operands_op[OF Some[unfolded p]]] Some p show ?thesis
    by (auto simp: check_operands_def)
qed

lemma total_CheckCheck [total_checks]: "total_check (CheckCheck f)"
proof (rule total_checkI)
  fix cl n assume inside: "aligned cl" "n < cl_num_lines cl"
  show "\<exists>rs. CheckCheck f cl n = Inr rs"
  proof (cases "FindCheckMacro (cl_elided cl ! n)")
    case None
    with inside show ?thesis by (simp add: CheckCheck_def)
  next
    case (Some p)
    obtain macro k where p: "p = (macro, k)" by (cases p)
    with Some find_macro_in have macro: "macro \<in> set CHECK_MACROS" "k < length (cl_elided cl ! n)"
      unfolding FindCheckMacro_def by blast+
    with CloseExpression_returns[of n "cl_elided cl" k] inside obtain l m q where
      c: "CloseExpression (cl_elided cl) n k = Inr (l, m, q)" by (auto simp: aligned_def)
    with Some p inside check_operands_returns[OF macro(1)] show ?thesis by (simp add: CheckCheck_def)
  qed
qed

lemma listed_CheckCheck [listed_intros]: "listedR f (CheckCheck f cl n)"
  by (auto simp: CheckCheck_def check_operands_def intro!: listed_intros)

section \<open>The suggestion means the same\<close>

text \<open>The relation a C++ operator or the name of a replacement stands for.\<close>

fun op_holds :: "string \<Rightarrow> int \<Rightarrow> int \<Rightarrow> bool" where
  "op_holds op a b =
     (if op = ''=='' then a = b else if op = ''!='' then a \<noteq> b else if op = ''>='' then a \<ge> b
      else if op = ''>'' then a > b else if op = ''<='' then a \<le> b else op = ''<'' \<and> a < b)"

definition name_holds :: "string \<Rightarrow> int \<Rightarrow> int \<Rightarrow> bool" where
  "name_holds name a b \<longleftrightarrow>
     name = ''EQ'' \<and> a = b \<or> name = ''NE'' \<and> a \<noteq> b \<or> name = ''GE'' \<and> a \<ge> b \<or> name = ''GT'' \<and> a > b \<or>
     name = ''LE'' \<and> a \<le> b \<or> name = ''LT'' \<and> a < b"

text \<open>The parts of a suggested macro: the prefix without \<open>_TRUE\<close> and \<open>_FALSE\<close>, and \<open>_M\<close> for its variant.\<close>

definition macro_stem :: "string \<Rightarrow> string" where
  "macro_stem macro = (if macro \<in> set [''DCHECK'', ''CHECK''] then macro else take 6 macro)"

definition macro_variant :: "string \<Rightarrow> string" where
  "macro_variant macro = (if endswith macro ''_M'' then ''_M'' else [])"

definition negates :: "string \<Rightarrow> bool" where
  "negates macro \<longleftrightarrow> contains macro ''FALSE''"

lemma op_cases:
  "op \<in> set (map fst op_names) \<Longrightarrow>
     op = ''=='' \<or> op = ''!='' \<or> op = ''>='' \<or> op = ''>'' \<or> op = ''<='' \<or> op = ''<''"
  by (simp only: op_names_def list.map fst_conv list.set insert_iff empty_iff simp_thms)

lemma name_of_op:
  "op \<in> set (map fst op_names) \<Longrightarrow>
     \<exists>r. map_of op_names op = Some r \<and> (\<forall>a b. name_holds r a b \<longleftrightarrow> op_holds op a b)"
  by (drule op_cases, elim disjE) (simp_all add: op_names_def name_holds_def)

lemma inverse_name_of_op:
  "op \<in> set (map fst op_names) \<Longrightarrow>
     \<exists>r. map_of inverse_op_names op = Some r \<and> (\<forall>a b. name_holds r a b \<longleftrightarrow> \<not> op_holds op a b)"
  by (drule op_cases, elim disjE) (simp_all add: inverse_op_names_def name_holds_def not_le not_less)

text \<open>C31. The macro that is suggested for \<open>MACRO(a op b)\<close> is of the same family and asserts the same
  relation between the operands: \<open>a op b\<close>, or its negation for the \<open>_FALSE\<close> macros.\<close>

theorem CHECK_REPLACEMENT_sound:
  assumes "macro \<in> set CHECK_MACROS" and "op \<in> set (map fst op_names)"
  shows "\<exists>name. CHECK_REPLACEMENT macro op = Some (macro_stem macro @ ''_'' @ name @ macro_variant macro) \<and>
    (\<forall>a b. name_holds name a b \<longleftrightarrow> (if negates macro then \<not> op_holds op a b else op_holds op a b))"
proof -
  obtain r where r: "map_of op_names op = Some r" "\<And>a b. name_holds r a b \<longleftrightarrow> op_holds op a b"
    using name_of_op[OF assms(2)] by blast
  obtain q where q: "map_of inverse_op_names op = Some q" "\<And>a b. name_holds q a b \<longleftrightarrow> \<not> op_holds op a b"
    using inverse_name_of_op[OF assms(2)] by blast
  have "CHECK_REPLACEMENT macro op = Some (macro_stem macro @ ''_'' @ (if negates macro then q else r) @ macro_variant macro)"
    using macro_cases[OF assms(1)] by (elim disjE)
      (simp_all add: CHECK_REPLACEMENT_def macro_stem_def macro_variant_def negates_def contains_def endswith_def r(1) q(1))
  with r(2) q(2) show ?thesis by (intro exI[of _ "if negates macro then q else r"]) simp
qed

theorem CHECK_REPLACEMENT_sound_witness:
  "\<exists>name. CHECK_REPLACEMENT ''EXPECT_FALSE_M'' ''<='' = Some (''EXPECT_'' @ name @ ''_M'') \<and>
    (\<forall>a b. name_holds name a b \<longleftrightarrow> \<not> a \<le> b)"
proof -
  have "''EXPECT_FALSE_M'' \<in> set CHECK_MACROS" "''<='' \<in> set (map fst op_names)"
    by (simp_all add: CHECK_MACROS_def op_names_def)
  from CHECK_REPLACEMENT_sound[OF this] show ?thesis
    by (simp add: macro_stem_def macro_variant_def negates_def contains_def endswith_def)
qed

section \<open>The contract\<close>

interpretation check_macros: line_check CheckCheck
  by (rule line_checkI) (rule listed_intros total_checks)+

end
