(* ===== verification/KeywordChecks.thy ===== *)
theory KeywordChecks
  imports CheckBase
begin

text \<open>
  Checks that look for keywords, function calls and declarations (\<open>cpplint.py\<close>: \<open>CheckAltTokens\<close>,
  \<open>CheckGlobalStatic\<close>, \<open>CheckPrintf\<close>, \<open>IsDerivedFunction\<close>, \<open>IsOutOfLineMethodDefinition\<close>,
  \<open>IsInitializerList\<close>, \<open>ExpectingFunctionArgs\<close>, \<open>CheckMakePairUsesDeduction\<close>,
  \<open>CheckDefaultLambdaCaptures\<close>, \<open>CheckRedundantVirtual\<close>, \<open>CheckRedundantOverrideOrFinal\<close>,
  \<open>FlagCxx11Features\<close>).

  A loop over line numbers is a recursion over the list of these numbers.  The lemmas show that the
  reports carry known categories and that the checks return on every line of the file: the column
  that is handed to \<open>CloseExpression\<close> is that of a bracket the pattern has found.
\<close>

section \<open>All matches of a pattern\<close>

text \<open>\<open>pattern.finditer(s)\<close>\<close>

function find_from :: "regex \<Rightarrow> bool \<Rightarrow> string \<Rightarrow> string \<Rightarrow> mobj list" where
  "find_from r adj u v =
     (case re_at r u v of
        None \<Rightarrow> (case v of [] \<Rightarrow> [] | c # v' \<Rightarrow> find_from r False (c # u) v')
      | Some (u', w, cs) \<Rightarrow>
          (let m = \<lparr>mo_string = rev u @ v, mo_start = length u, mo_end = length u', mo_caps = cs\<rparr>
           in if shorter w v then m # find_from r True u' w
              else (if adj then [] else [m]) @
                   (case v of [] \<Rightarrow> [] | c # v' \<Rightarrow> find_from r False (c # u) v')))"
  by pat_completeness auto
termination
  by (relation "measure (\<lambda>(r, adj, u, v). length v)") (auto simp: shorter_iff)

declare find_from.simps [simp del]

definition re_finditer :: "regex \<Rightarrow> string \<Rightarrow> mobj list" where
  "re_finditer r s = find_from r False [] s"

section \<open>Alternative tokens\<close>

definition ALT_TOKEN_REPLACEMENT :: "(string \<times> string) list" where
  "ALT_TOKEN_REPLACEMENT = [
    (''and'', ''&&''), (''bitor'', ''|''), (''or'', ''||''), (''xor'', ''^''), (''compl'', ''~''),
    (''bitand'', ''&''), (''and_eq'', ''&=''), (''or_eq'', ''|=''), (''xor_eq'', ''^=''), (''not'', ''!''),
    (''not_eq'', ''!='')]"

text \<open>\<open>[ =()](and|bitor|...)(?=[ (]|$)\<close>; what follows a token makes the order of the alternatives
  irrelevant.\<close>

definition RE_ALT_TOKEN :: regex where
  "RE_ALT_TOKEN = seqs [oneof '' =()'', RGroup 1 (alts (map (\<lambda>(t, r). lit t) ALT_TOKEN_REPLACEMENT)),
     RAhead (alts [oneof '' ('', REol])]"

text \<open>\<open>^\<backslash>s*#\<close>\<close>

definition RE_HASH :: regex where
"RE_HASH = seqs [RBol, RStar ws, lit ''#'']"

text \<open>The dictionary lookup \<open>_ALT_TOKEN_REPLACEMENT[token]\<close>\<close>

definition alt_token :: "string \<Rightarrow> string result" where
  "alt_token t = (case map_of ALT_TOKEN_REPLACEMENT t of None \<Rightarrow> Inl KeyError | Some r \<Rightarrow> Inr r)"

definition CheckAltTokens :: "string \<Rightarrow> cleansed_lines \<Rightarrow> nat \<Rightarrow> check" where
  "CheckAltTokens filename clean_lines linenum =
     res_bind (elided_at clean_lines (int linenum)) (\<lambda>line.
       if matches RE_HASH line then Inr []
       else if contains line ''/*'' \<or> contains line ''*/'' then Inr []
       else res_map concat (res_mapM (\<lambda>match.
              res_map (\<lambda>replacement. [report filename (int linenum) ''readability/alt_tokens'' 2
                  (''Use operator '' @ replacement @ '' instead of '' @ grp match 1)])
                (alt_token (grp match 1))) (re_finditer RE_ALT_TOKEN line)))"

section \<open>Strings and static objects\<close>

text \<open>\<open>[;({]\<close>\<close>

definition RE_OPENS :: regex where
"RE_OPENS = oneof '';({''"

text \<open>\<open>((?:|static +)(?:|const +))string +([a-zA-Z0-9_:]+)\<backslash>b(.*)\<close>\<close>

definition RE_GLOBAL_STRING :: regex where
"RE_GLOBAL_STRING = seqs [RGroup 1 (seqs [alts [REmpty, seqs [lit ''static'', RPlus (lit ''
     '')]], alts [REmpty, seqs [lit ''const'', RPlus (lit '' '')]]]), lit ''string'', RPlus (lit
     '' ''), RGroup 2 (RPlus (RChar (\<lambda>c. one_of ''_:'' c \<or> lower_char c \<or>
     upper_char c \<or> digit_char c))), RWordB, RGroup 3 (RStar anyc)]"

text \<open>\<open>\<backslash>bstring\<backslash>b(\<backslash>s+const)?\<backslash>s*\<backslash>*\<backslash>s*(const\<backslash>s+)?\<backslash>w\<close>\<close>

definition RE_STRING_POINTER :: regex where
"RE_STRING_POINTER = seqs [RWordB, lit ''string'', RWordB, ROpt (RGroup 1 (seqs [RPlus ws, lit
     ''const''])), RStar ws, lit ''*'', RStar ws, ROpt (RGroup 2 (seqs [lit ''const'', RPlus
     ws])), wordc]"

text \<open>\<open>\<backslash>boperator\<backslash>W\<close>\<close>

definition RE_OPERATOR_WORD :: regex where
"RE_OPERATOR_WORD = seqs [RWordB, lit ''operator'', RChar (\<lambda>c. \<not> word_char c)]"

text \<open>\<open>\<backslash>s*(<.*>)?(::[a-zA-Z0-9_]+)*\<backslash>s*\<backslash>(([^"]|$)\<close>\<close>

definition RE_STRING_FUNCTION :: regex where
"RE_STRING_FUNCTION = seqs [RStar ws, ROpt (RGroup 1 (seqs [lit ''<'', RStar anyc, lit ''>''])),
     RStar (RGroup 2 (seqs [lit ''::'', RPlus (RChar (\<lambda>c. one_of ''_'' c \<or>
     lower_char c \<or> upper_char c \<or> digit_char c))])), RStar ws, lit ''('', RGroup 3
     (alts [noneof [DQ], REol])]"

text \<open>\<open>\<backslash>b([A-Za-z0-9_]*_)\<backslash>(\<backslash>1\<backslash>)\<close>\<close>

definition RE_SELF_INIT :: regex where
"RE_SELF_INIT = seqs [RWordB, RGroup 1 (seqs [RStar (RChar (\<lambda>c. one_of ''_'' c \<or>
     upper_char c \<or> lower_char c \<or> digit_char c)), lit ''_'']), lit ''('', RBack 1, lit
     '')'']"

definition CheckGlobalStatic :: "string \<Rightarrow> cleansed_lines \<Rightarrow> nat \<Rightarrow> check" where
  "CheckGlobalStatic filename clean_lines linenum =
     res_bind (elided_at clean_lines (int linenum)) (\<lambda>line.
     res_map (\<lambda>line.
       (case re_match RE_GLOBAL_STRING line of
          None \<Rightarrow> []
        | Some m \<Rightarrow>
            if \<not> searches RE_STRING_POINTER line \<and> \<not> searches RE_OPERATOR_WORD line \<and>
               \<not> matches RE_STRING_FUNCTION (grp m 3)
            then [report filename (int linenum) ''runtime/string'' 4
                    (''For a static/global string constant, use a C style string instead: '' @ [DQ] @
                     grp m 1 @ ''char '' @ grp m 2 @ ''[]'' @ [DQ] @ ''.'')]
            else []) @
       (if searches RE_SELF_INIT line
        then [report filename (int linenum) ''runtime/init'' 4
                ''You seem to be initializing a member variable with itself.'']
        else []))
     (if linenum + 1 < NumLines clean_lines \<and> \<not> searches RE_OPENS line
      then res_map (\<lambda>next_line. line @ strip uni_space next_line) (elided_at clean_lines (int (linenum + 1)))
      else Inr line))"

section \<open>printf\<close>

text \<open>\<open>snprintf\<backslash>s*\<backslash>(([^,]*),\<backslash>s*([0-9]*)\<backslash>s*,\<close>\<close>

definition RE_SNPRINTF :: regex where
"RE_SNPRINTF = seqs [lit ''snprintf'', RStar ws, lit ''('', RGroup 1 (RStar (noneof '','')), lit
     '','', RStar ws, RGroup 2 (RStar (RChar (\<lambda>c. digit_char c))), RStar ws, lit '','']"

text \<open>\<open>\<backslash>bsprintf\<backslash>s*\<backslash>(\<close>\<close>

definition RE_SPRINTF :: regex where
"RE_SPRINTF = seqs [RWordB, lit ''sprintf'', RStar ws, lit ''('']"

text \<open>\<open>\<backslash>b(strcpy|strcat)\<backslash>s*\<backslash>(\<close>\<close>

definition RE_STRCPY :: regex where
"RE_STRCPY = seqs [RWordB, RGroup 1 (alts [lit ''strcpy'', lit ''strcat'']), RStar ws, lit
     ''('']"

definition CheckPrintf :: "string \<Rightarrow> cleansed_lines \<Rightarrow> nat \<Rightarrow> check" where
  "CheckPrintf filename clean_lines linenum =
     res_map (\<lambda>line.
       (case re_search RE_SNPRINTF line of
          None \<Rightarrow> []
        | Some match \<Rightarrow>
            if grp match 2 \<noteq> ''0''
            then [report filename (int linenum) ''runtime/printf'' 3
                    (''If you can, use sizeof('' @ grp match 1 @ '') instead of '' @ grp match 2 @
                     '' as the 2nd arg to snprintf.'')]
            else []) @
       (if searches RE_SPRINTF line
        then [report filename (int linenum) ''runtime/printf'' 5 ''Never use sprintf. Use snprintf instead.'']
        else []) @
       (case re_search RE_STRCPY line of
          None \<Rightarrow> []
        | Some match \<Rightarrow> [report filename (int linenum) ''runtime/printf'' 4
            (''Almost always, snprintf is better than '' @ grp match 1)]))
     (elided_at clean_lines (int linenum))"

section \<open>Functions around a line\<close>

text \<open>\<open>^([^()]*\<backslash>w+)\<backslash>(\<close>\<close>

definition RE_FUNCTION_CALL :: regex where
"RE_FUNCTION_CALL = seqs [RBol, RGroup 1 (seqs [RStar (noneof ''()''), RPlus wordc]), lit
     ''('']"

text \<open>\<open>\<backslash>boverride\<backslash>b\<close>\<close>

definition RE_OVERRIDE :: regex where
"RE_OVERRIDE = seqs [RWordB, lit ''override'', RWordB]"

text \<open>\<open>^[^()]*\<backslash>w+::\<backslash>w+\<backslash>(\<close>\<close>

definition RE_OUT_OF_LINE :: regex where
"RE_OUT_OF_LINE = seqs [RBol, RStar (noneof ''()''), RPlus wordc, lit ''::'', RPlus wordc, lit
     ''('']"

text \<open>\<open>xrange(linenum, max(-1, linenum - 10), -1)\<close>: the line and up to nine lines above it.\<close>

definition lines_above :: "nat \<Rightarrow> nat list" where
  "lines_above linenum = rev [(if linenum < 10 then 0 else linenum - 9)..<Suc linenum]"

fun derived_function :: "cleansed_lines \<Rightarrow> nat list \<Rightarrow> bool result" where
  "derived_function clean_lines [] = Inr False"
| "derived_function clean_lines (i # is) =
     res_bind (elided_at clean_lines (int i)) (\<lambda>line.
       case re_match RE_FUNCTION_CALL line of
         None \<Rightarrow> derived_function clean_lines is
       | Some match \<Rightarrow>
           res_map (\<lambda>(line, _, closing_paren). 0 \<le> closing_paren \<and> searches RE_OVERRIDE (py_from line closing_paren))
             (CloseExpression (cl_elided clean_lines) i (length (grp match 1))))"

definition IsDerivedFunction :: "cleansed_lines \<Rightarrow> nat \<Rightarrow> bool result" where
  "IsDerivedFunction clean_lines linenum = derived_function clean_lines (lines_above linenum)"

fun out_of_line :: "cleansed_lines \<Rightarrow> nat list \<Rightarrow> bool result" where
  "out_of_line clean_lines [] = Inr False"
| "out_of_line clean_lines (i # is) =
     res_bind (elided_at clean_lines (int i)) (\<lambda>line.
       if matches RE_FUNCTION_CALL line then Inr (matches RE_OUT_OF_LINE line)
       else out_of_line clean_lines is)"

definition IsOutOfLineMethodDefinition :: "cleansed_lines \<Rightarrow> nat \<Rightarrow> bool result" where
  "IsOutOfLineMethodDefinition clean_lines linenum = out_of_line clean_lines (lines_above linenum)"

text \<open>\<open>^(.*)\<backslash>{\<backslash>s*$\<close>\<close>

definition RE_BODY_BRACE :: regex where
"RE_BODY_BRACE = seqs [RBol, RGroup 1 (RStar anyc), lit ''{'', RStar ws, REol]"

text \<open>\<open>\<backslash>s:\<backslash>s*\<backslash>w+[({]\<close>\<close>

definition RE_LONE_COLON :: regex where
"RE_LONE_COLON = seqs [ws, lit '':'', RStar ws, RPlus wordc, oneof ''({'']"

text \<open>\<open>\<backslash>}\<backslash>s*,\<backslash>s*$\<close>\<close>

definition RE_BRACE_COMMA :: regex where
"RE_BRACE_COMMA = seqs [lit ''}'', RStar ws, lit '','', RStar ws, REol]"

text \<open>\<open>[{};]\<backslash>s*$\<close>\<close>

definition RE_STATEMENT_END :: regex where
"RE_STATEMENT_END = seqs [oneof ''{};'', RStar ws, REol]"

fun initializer_list :: "cleansed_lines \<Rightarrow> nat \<Rightarrow> nat list \<Rightarrow> bool result" where
  "initializer_list clean_lines linenum [] = Inr False"
| "initializer_list clean_lines linenum (i # is) =
     res_bind (elided_at clean_lines (int i)) (\<lambda>line.
       let line = (if i = linenum then (case re_match RE_BODY_BRACE line of Some m \<Rightarrow> grp m 1 | None \<Rightarrow> line) else line)
       in if searches RE_LONE_COLON line then Inr True
          else if searches RE_BRACE_COMMA line then Inr True
          else if searches RE_STATEMENT_END line then Inr False
          else initializer_list clean_lines linenum is)"

text \<open>\<open>xrange(linenum, 1, -1)\<close>\<close>

definition IsInitializerList :: "cleansed_lines \<Rightarrow> nat \<Rightarrow> bool result" where
  "IsInitializerList clean_lines linenum = initializer_list clean_lines linenum (rev [2..<Suc linenum])"

text \<open>\<open>^\<backslash>s*MOCK_(CONST_)?METHOD\<backslash>d+(_T)?\<backslash>(\<close>\<close>

definition RE_MOCK_METHOD :: regex where
"RE_MOCK_METHOD = seqs [RBol, RStar ws, lit ''MOCK_'', ROpt (RGroup 1 (lit ''CONST_'')), lit
     ''METHOD'', RPlus digit, ROpt (RGroup 2 (lit ''_T'')), lit ''('']"

text \<open>\<open>^\<backslash>s*MOCK_(?:CONST_)?METHOD\<backslash>d+(?:_T)?\<backslash>((?:\<backslash>S+,)?\<backslash>s*$\<close>\<close>

definition RE_MOCK_METHOD_1 :: regex where
"RE_MOCK_METHOD_1 = seqs [RBol, RStar ws, lit ''MOCK_'', ROpt (lit ''CONST_''), lit ''METHOD'',
     RPlus digit, ROpt (lit ''_T''), lit ''('', ROpt (seqs [RPlus nonws, lit '','']), RStar ws,
     REol]"

text \<open>\<open>^\<backslash>s*MOCK_(?:CONST_)?METHOD\<backslash>d+(?:_T)?\<backslash>(\<backslash>s*$\<close>\<close>

definition RE_MOCK_METHOD_2 :: regex where
"RE_MOCK_METHOD_2 = seqs [RBol, RStar ws, lit ''MOCK_'', ROpt (lit ''CONST_''), lit ''METHOD'',
     RPlus digit, ROpt (lit ''_T''), lit ''('', RStar ws, REol]"

text \<open>\<open>\<backslash>bstd::m?function\<backslash>s*\<backslash><\<backslash>s*$\<close>\<close>

definition RE_STD_FUNCTION :: regex where
"RE_STD_FUNCTION = seqs [RWordB, lit ''std::'', ROpt (lit ''m''), lit ''function'', RStar ws,
     lit ''<'', RStar ws, REol]"

definition ExpectingFunctionArgs :: "cleansed_lines \<Rightarrow> nat \<Rightarrow> bool result" where
  "ExpectingFunctionArgs clean_lines linenum =
     res_bind (elided_at clean_lines (int linenum)) (\<lambda>line.
       if matches RE_MOCK_METHOD line then Inr True
       else if linenum < 2 then Inr False
       else res_bind (elided_at clean_lines (int linenum - 1)) (\<lambda>prev.
            res_map (\<lambda>prevprev. matches RE_MOCK_METHOD_1 prev \<or> matches RE_MOCK_METHOD_2 prevprev \<or>
                searches RE_STD_FUNCTION prev)
              (elided_at clean_lines (int linenum - 2))))"

section \<open>make_pair and lambdas\<close>

text \<open>\<open>\<backslash>bmake_pair\<backslash>s*<\<close>\<close>

definition RE_MAKEPAIR :: regex where
"RE_MAKEPAIR = seqs [RWordB, lit ''make_pair'', RStar ws, lit ''<'']"

definition CheckMakePairUsesDeduction :: "string \<Rightarrow> cleansed_lines \<Rightarrow> nat \<Rightarrow> check" where
  "CheckMakePairUsesDeduction filename clean_lines linenum =
     res_map (\<lambda>line.
       if searches RE_MAKEPAIR line
       then [report filename (int linenum) ''build/explicit_make_pair'' 4
         (''For C++11-compatibility, omit template arguments from make_pair OR use pair '' @
      ''directly OR if appropriate, construct a pair directly'')]
       else [])
     (elided_at clean_lines (int linenum))"

text \<open>\<open>^(.*)\<backslash>[\<backslash>s*(?:=|&[^\<backslash>w])\<close>\<close>

definition RE_LAMBDA :: regex where
"RE_LAMBDA = seqs [RBol, RGroup 1 (RStar anyc), lit ''['', RStar ws, alts [lit ''='', seqs [lit
     ''&'', RChar (\<lambda>c. \<not> (word_char c))]]]"

text \<open>\<open>^\<backslash>s*[{(]\<close>\<close>

definition RE_LAMBDA_BODY :: regex where
"RE_LAMBDA_BODY = seqs [RBol, RStar ws, oneof ''{('']"

definition CheckDefaultLambdaCaptures :: "string \<Rightarrow> cleansed_lines \<Rightarrow> nat \<Rightarrow> check" where
  "CheckDefaultLambdaCaptures filename clean_lines linenum =
     res_bind (elided_at clean_lines (int linenum)) (\<lambda>line.
       case re_match RE_LAMBDA line of
         None \<Rightarrow> Inr []
       | Some match \<Rightarrow>
           res_map (\<lambda>(line, _, pos).
               if 0 \<le> pos \<and> matches RE_LAMBDA_BODY (py_from line pos)
               then [report filename (int linenum) ''build/c++11'' 4
                       ''Default lambda captures are an unapproved C++ feature.'']
               else [])
             (CloseExpression (cl_elided clean_lines) linenum (length (grp match 1))))"

section \<open>virtual, override and final\<close>

text \<open>\<open>^(.*)(\<backslash>bvirtual\<backslash>b)(.*)$\<close>\<close>

definition RE_VIRTUAL :: regex where
"RE_VIRTUAL = seqs [RBol, RGroup 1 (RStar anyc), RGroup 2 (seqs [RWordB, lit ''virtual'',
     RWordB]), RGroup 3 (RStar anyc), REol]"

text \<open>\<open>\<backslash>b(public|protected|private)\<backslash>s+$\<close>\<close>

definition RE_ACCESS_BEFORE :: regex where
"RE_ACCESS_BEFORE = seqs [RWordB, RGroup 1 (alts [lit ''public'', lit ''protected'', lit
     ''private'']), RPlus ws, REol]"

text \<open>\<open>^\<backslash>s+(public|protected|private)\<backslash>b\<close>\<close>

definition RE_ACCESS_BEHIND :: regex where
"RE_ACCESS_BEHIND = seqs [RBol, RPlus ws, RGroup 1 (alts [lit ''public'', lit ''protected'', lit
     ''private'']), RWordB]"

text \<open>\<open>^.*[^:]:[^:].*$\<close>\<close>

definition RE_LINE_COLON :: regex where
"RE_LINE_COLON = seqs [RBol, RStar anyc, noneof '':'', lit '':'', noneof '':'', RStar anyc,
     REol]"

text \<open>\<open>^([^(]*)\<backslash>(\<close>\<close>

definition RE_UP_TO_PAREN :: regex where
"RE_UP_TO_PAREN = seqs [RBol, RGroup 1 (RStar (noneof ''('')), lit ''('']"

text \<open>\<open>\<backslash>b(override|final)\<backslash>b\<close>\<close>

definition RE_OVERRIDE_FINAL :: regex where
"RE_OVERRIDE_FINAL = seqs [RWordB, RGroup 1 (alts [lit ''override'', lit ''final'']), RWordB]"

text \<open>\<open>[^\<backslash>w]\<backslash>s*$\<close>\<close>

definition RE_ENDS_NOT_WORD :: regex where
"RE_ENDS_NOT_WORD = seqs [RChar (\<lambda>c. \<not> (word_char c)), RStar ws, REol]"

text \<open>The search for the end of the parameter list; -1 when it is not found.\<close>

fun parameter_list_end :: "cleansed_lines \<Rightarrow> nat list \<Rightarrow> nat \<Rightarrow> (int \<times> int) result" where
  "parameter_list_end clean_lines [] start_col = Inr (- 1, - 1)"
| "parameter_list_end clean_lines (start_line # ls) start_col =
     res_bind (elided_at clean_lines (int start_line)) (\<lambda>whole.
       case re_match RE_UP_TO_PAREN (drop start_col whole) of
         None \<Rightarrow> parameter_list_end clean_lines ls 0
       | Some parameter_list \<Rightarrow>
           res_map (\<lambda>(_, end_line, end_col). (int end_line, end_col))
             (CloseExpression (cl_elided clean_lines) start_line (start_col + length (grp parameter_list 1))))"

fun virt_specifiers :: "string \<Rightarrow> cleansed_lines \<Rightarrow> nat \<Rightarrow> nat list \<Rightarrow> nat \<Rightarrow> check" where
  "virt_specifiers filename clean_lines linenum [] end_col = Inr []"
| "virt_specifiers filename clean_lines linenum (i # is) end_col =
     res_bind (elided_at clean_lines (int i)) (\<lambda>whole.
       let line = drop end_col whole;
           rep = (case re_search RE_OVERRIDE_FINAL line of
                    None \<Rightarrow> []
                  | Some match \<Rightarrow> [report filename (int linenum) ''readability/inheritance'' 4
                      ([DQ] @ ''virtual'' @ [DQ] @ '' is redundant since function is already declared as '' @
                       [DQ] @ grp match 1 @ [DQ])])
       in if searches RE_ENDS_NOT_WORD line then Inr rep
          else res_map (\<lambda>rest. rep @ rest) (virt_specifiers filename clean_lines linenum is 0))"

definition CheckRedundantVirtual :: "string \<Rightarrow> cleansed_lines \<Rightarrow> nat \<Rightarrow> check" where
  "CheckRedundantVirtual filename clean_lines linenum =
     res_bind (elided_at clean_lines (int linenum)) (\<lambda>line.
       case re_match RE_VIRTUAL line of
         None \<Rightarrow> Inr []
       | Some virtual \<Rightarrow>
           if searches RE_ACCESS_BEFORE (grp virtual 1) \<or> matches RE_ACCESS_BEHIND (grp virtual 3) then Inr []
           else if matches RE_LINE_COLON line then Inr []
           else res_bind (parameter_list_end clean_lines [linenum..<min (linenum + 3) (NumLines clean_lines)]
                            (length (grp virtual 2))) (\<lambda>(end_line, end_col).
                  if end_col < 0 then Inr []
                  else virt_specifiers filename clean_lines linenum
                         [nat end_line..<min (nat end_line + 3) (NumLines clean_lines)] (nat end_col)))"

text \<open>\<open>\<backslash>bfinal\<backslash>b\<close>\<close>

definition RE_FINAL :: regex where
"RE_FINAL = seqs [RWordB, lit ''final'', RWordB]"

definition CheckRedundantOverrideOrFinal :: "string \<Rightarrow> cleansed_lines \<Rightarrow> nat \<Rightarrow> check" where
  "CheckRedundantOverrideOrFinal filename clean_lines linenum =
     (let check = (\<lambda>fragment.
            if searches RE_OVERRIDE fragment \<and> searches RE_FINAL fragment
            then [report filename (int linenum) ''readability/inheritance'' 4
                    ([DQ] @ ''override'' @ [DQ] @ '' is redundant since function is already declared as '' @
                     [DQ] @ ''final'' @ [DQ])]
            else [])
      in res_bind (elided_at clean_lines (int linenum)) (\<lambda>line.
           case rfind_nat (CHR '')'') line of
             Some declarator_end \<Rightarrow> Inr (check (drop declarator_end line))
           | None \<Rightarrow>
               if 1 < linenum
               then res_map (\<lambda>prev. if rfind_nat (CHR '')'') prev \<noteq> None then check line else [])
                      (elided_at clean_lines (int linenum - 1))
               else Inr []))"

section \<open>C++11\<close>

text \<open>\<open>\<backslash>s*#\<backslash>s*include\<backslash>s+[<"]([^<"]+)[">]\<close>\<close>

definition RE_CXX11_INCLUDE :: regex where
"RE_CXX11_INCLUDE = seqs [RStar ws, lit ''#'', RStar ws, lit ''include'', RPlus ws, oneof [CHR
     ''<'', DQ], RGroup 1 (RPlus (noneof [CHR ''<'', DQ])), oneof [DQ, CHR ''>'']]"

text \<open>\<open>\<backslash>s*#\<close>\<close>

definition RE_HASH_LINE :: regex where
"RE_HASH_LINE = seqs [RStar ws, lit ''#'']"

text \<open>\<open>\<backslash>s*#\<backslash>s*define\<backslash>b\<close>\<close>

definition RE_DEFINE_LINE :: regex where
"RE_DEFINE_LINE = seqs [RStar ws, lit ''#'', RStar ws, lit ''define'', RWordB]"

definition CXX11_HEADERS :: "string list" where
  "CXX11_HEADERS = [''cfenv'', ''condition_variable'', ''fenv.h'', ''future'', ''mutex'', ''thread'', ''chrono'',
     ''ratio'', ''regex'', ''system_error'']"

definition FlagCxx11Features :: "string \<Rightarrow> cleansed_lines \<Rightarrow> nat \<Rightarrow> check" where
  "FlagCxx11Features filename clean_lines linenum =
     res_map (\<lambda>line.
       (case re_match RE_CXX11_INCLUDE line of
          None \<Rightarrow> []
        | Some incl \<Rightarrow>
            if grp incl 1 \<in> set CXX11_HEADERS
            then [report filename (int linenum) ''build/c++11'' 5
                    (''<'' @ grp incl 1 @ ''> is an unapproved C++11 header.'')]
            else []) @
       (if matches RE_HASH_LINE line \<and> \<not> matches RE_DEFINE_LINE line then []
        else concat (map (\<lambda>top_name.
          if searches (seqs [RWordB, lit (''std::'' @ top_name), RWordB]) line
          then [report filename (int linenum) ''build/c++11'' 5
                  (''std::'' @ top_name @ '' is an unapproved C++11 class or function.  Send c-style '' @
                   ''an example of where it would make your code more readable, and they may let you use it.'')]
          else []) [''alignment_of'', ''aligned_union''])))
     (elided_at clean_lines (int linenum))"

section \<open>Categories\<close>

lemma listed_virt_specifiers [listed_intros]: "listedR f (virt_specifiers f cl n is c)"
  by (induction f cl n "is" c rule: virt_specifiers.induct) (auto simp: Let_def intro!: listed_intros split: option.split)

lemma listed_keyword_checks [listed_intros]:
  "listedR f (CheckGlobalStatic f cl n)"
  "listedR f (CheckPrintf f cl n)"
  "listedR f (CheckMakePairUsesDeduction f cl n)"
  "listedR f (CheckDefaultLambdaCaptures f cl n)"
  "listedR f (CheckRedundantVirtual f cl n)"
  "listedR f (CheckRedundantOverrideOrFinal f cl n)"
  "listedR f (FlagCxx11Features f cl n)"
  by (auto simp: CheckGlobalStatic_def CheckPrintf_def CheckMakePairUsesDeduction_def CheckDefaultLambdaCaptures_def
      CheckRedundantVirtual_def CheckRedundantOverrideOrFinal_def FlagCxx11Features_def Let_def
      split: option.split prod.split intro!: listed_intros)

lemma res_mapM_in: "res_mapM f xs = Inr ys \<Longrightarrow> y \<in> set ys \<Longrightarrow> \<exists>x\<in>set xs. f x = Inr y"
  by (induction xs arbitrary: ys) auto

lemma listedR_mapM [listed_intros]: "(\<And>x. x \<in> set xs \<Longrightarrow> listedR f (g x)) \<Longrightarrow> listedR f (res_map concat (res_mapM g xs))"
  by (cases "res_mapM g xs") (auto dest!: res_mapM_in simp: listedR_Inr_iff)

lemma listed_AltTokens [listed_intros]: "listedR f (CheckAltTokens f cl n)"
  unfolding CheckAltTokens_def
  by (rule listed_intros | simp)+

section \<open>No alternative token is missing in the table\<close>

lemma find_from_path:
  "m \<in> set (find_from r adj u v) \<Longrightarrow>
   \<exists>a b u' w cs. rev u @ v = a @ b \<and> ((rev a, b, []), (u', w, cs)) \<in> paths r \<and>
     m = \<lparr>mo_string = rev u @ v, mo_start = length a, mo_end = length u', mo_caps = cs\<rparr>"
proof (induction r adj u v rule: find_from.induct)
  case (1 r adj u v)
  show ?case
  proof (cases "re_at r u v")
    case None
    with 1(4) obtain c v' where "v = c # v'" "m \<in> set (find_from r False (c # u) v')"
      by (subst (asm) find_from.simps) (auto split: list.splits)
    with 1(1)[OF None] show ?thesis by fastforce
  next
    case (Some st)
    obtain u' w cs where st: "st = (u', w, cs)" by (cases st)
    let ?m = "\<lparr>mo_string = rev u @ v, mo_start = length u, mo_end = length u', mo_caps = cs\<rparr>"
    from re_at_paths[OF Some[unfolded st]] have path: "((u, v, []), (u', w, cs)) \<in> paths r" .
    then obtain t where t: "v = t @ w" "u' = rev t @ u" by (rule paths_split)
    have here: ?thesis if "m = ?m"
      using that path by (intro exI[of _ "rev u"] exI[of _ v] exI) (simp (no_asm_simp))
    from 1(4) Some st consider "m = ?m"
      | "shorter w v" "m \<in> set (find_from r True u' w)"
      | c v' where "\<not> shorter w v" "v = c # v'" "m \<in> set (find_from r False (c # u) v')"
      by (subst (asm) find_from.simps) (auto simp: Let_def split: if_splits list.splits)
    then show ?thesis
    proof cases
      case 1
      then show ?thesis by (rule here)
    next
      case 2
      with "1.IH"(2)[OF Some st[symmetric] refl refl] t show ?thesis by simp
    next
      case 3
      with "1.IH"(3)[OF Some st[symmetric] refl refl] show ?thesis by fastforce
    qed
  qed
qed

lemma alt_token_match:
  assumes "m \<in> set (re_finditer RE_ALT_TOKEN s)"
  shows "grp m 1 \<in> set (map fst ALT_TOKEN_REPLACEMENT)"
proof -
  from assms obtain a b u w cs where s: "s = a @ b" and path: "((rev a, b, []), (u, w, cs)) \<in> paths RE_ALT_TOKEN"
    and m: "m = \<lparr>mo_string = s, mo_start = length a, mo_end = length u, mo_caps = cs\<rparr>"
    unfolding re_finditer_def by (auto dest!: find_from_path)
  from path obtain c t where b: "b = c # t @ w" and t: "t \<in> set (map fst ALT_TOKEN_REPLACEMENT)"
    and u: "u = rev t @ c # rev a" and cs: "cs = [(1, length (c # rev a), length u)]"
  proof -
    assume *: "\<And>c t. b = c # t @ w \<Longrightarrow> t \<in> set (map fst ALT_TOKEN_REPLACEMENT) \<Longrightarrow> u = rev t @ c # rev a \<Longrightarrow>
      cs = [(1, length (c # rev a), length u)] \<Longrightarrow> thesis"
    from path obtain c b' where b: "b = c # b'"
      and g: "((c # rev a, b', []), (u, w, cs)) \<in> paths (RGroup 1 (alts (map (\<lambda>(t, r). lit t) ALT_TOKEN_REPLACEMENT)))"
      unfolding RE_ALT_TOKEN_def seqs.simps paths_Seq paths_Char paths_Ahead by blast
    from g obtain ds p where "cs = (1, length (c # rev a), length u) # ds" and p: "p \<in> set ALT_TOKEN_REPLACEMENT"
      and "((c # rev a, b', []), (u, w, ds)) \<in> paths (lit (fst p))"
      unfolding paths_Group paths_alts by (fastforce simp: list_ex_iff)
    then have "cs = [(1, length (c # rev a), length u)]" "b' = fst p @ w" "u = rev (fst p) @ c # rev a"
      unfolding paths_lit by auto
    then show thesis using b p by (intro *[of c "fst p"]) auto
  qed
  have "grp m 1 = t" by (simp add: m cs grp_def mgroup_def s b u)
  with t show ?thesis by simp
qed

lemma alt_tokens_total: "total_check (CheckAltTokens f)"
proof (rule total_checkI)
  fix cl n assume inside: "aligned cl" "n < cl_num_lines cl"
  have "\<exists>r. alt_token (grp m 1) = Inr r" if "m \<in> set (re_finditer RE_ALT_TOKEN l)" for m l
    using alt_token_match[OF that] by (auto simp: alt_token_def map_of_eq_None_iff split: option.split)
  then obtain R where "\<And>m l. m \<in> set (re_finditer RE_ALT_TOKEN l) \<Longrightarrow> alt_token (grp m 1) = Inr (R m)"
    by metis
  then have "res_mapM (\<lambda>m. res_map (\<lambda>r. g r m) (alt_token (grp m 1))) (re_finditer RE_ALT_TOKEN l) =
      Inr (map (\<lambda>m. g (R m) m) (re_finditer RE_ALT_TOKEN l))" for g :: "string \<Rightarrow> mobj \<Rightarrow> report list" and l
    by (intro res_mapM_total) simp
  then show "\<exists>rs. CheckAltTokens f cl n = Inr rs" using inside by (simp add: CheckAltTokens_def)
qed

text \<open>\<open>CheckAltTokens\<close> looks up every token that its pattern finds; the lookup never fails, so the check
  returns on every line of the file.\<close>

theorem CheckAltTokens_returns:
  assumes "aligned cl" "n < cl_num_lines cl"
  shows "\<exists>rs. CheckAltTokens f cl n = Inr rs"
  using total_checkD[OF alt_tokens_total assms] .

section \<open>The checks return\<close>

lemma RE_FUNCTION_CALL_head: "re_match RE_FUNCTION_CALL s = Some m \<Longrightarrow> length (grp m 1) < length s"
  unfolding RE_FUNCTION_CALL_def seqs.simps by (erule match_head_group) (auto simp: rx_simps)

lemma RE_LAMBDA_head: "re_match RE_LAMBDA s = Some m \<Longrightarrow> length (grp m 1) < length s"
  unfolding RE_LAMBDA_def seqs.simps by (erule match_head_group) (auto simp: rx_simps)

lemma RE_UP_TO_PAREN_head: "re_match RE_UP_TO_PAREN s = Some m \<Longrightarrow> length (grp m 1) < length s"
  unfolding RE_UP_TO_PAREN_def seqs.simps by (erule match_head_group) (auto simp: rx_simps)

lemma derived_function_returns:
  "aligned cl \<Longrightarrow> \<forall>i\<in>set is. i < cl_num_lines cl \<Longrightarrow> \<exists>b. derived_function cl is = Inr b"
proof (induction "is")
  case Nil
  then show ?case by auto
next
  case (Cons i "is")
  show ?case
  proof (cases "re_match RE_FUNCTION_CALL (cl_elided cl ! i)")
    case None
    with Cons show ?thesis by simp
  next
    case (Some m)
    then have "length (grp m 1) < length (cl_elided cl ! i)" by (rule RE_FUNCTION_CALL_head)
    with CloseExpression_returns[of i "cl_elided cl"] Cons.prems obtain l k q where
      "CloseExpression (cl_elided cl) i (length (grp m 1)) = Inr (l, k, q)"
      by (fastforce simp: aligned_def)
    with Some Cons.prems show ?thesis by auto
  qed
qed

lemma out_of_line_returns:
  "aligned cl \<Longrightarrow> \<forall>i\<in>set is. i < cl_num_lines cl \<Longrightarrow> \<exists>b. out_of_line cl is = Inr b"
  by (induction "is") auto

lemma initializer_list_returns:
  "aligned cl \<Longrightarrow> \<forall>i\<in>set is. i < cl_num_lines cl \<Longrightarrow> \<exists>b. initializer_list cl n is = Inr b"
  by (induction "is") (auto simp: Let_def)

lemma lines_above_le: "i \<in> set (lines_above n) \<Longrightarrow> i \<le> n"
  by (auto simp: lines_above_def split: if_splits)

lemma line_predicates_return:
  assumes "aligned cl" "n < cl_num_lines cl"
  shows "\<exists>b. IsDerivedFunction cl n = Inr b" "\<exists>b. IsOutOfLineMethodDefinition cl n = Inr b"
    "\<exists>b. IsInitializerList cl n = Inr b" "\<exists>b. ExpectingFunctionArgs cl n = Inr b"
proof -
  show "\<exists>b. IsDerivedFunction cl n = Inr b" "\<exists>b. IsOutOfLineMethodDefinition cl n = Inr b"
    using lines_above_le assms
    by (auto simp: IsDerivedFunction_def IsOutOfLineMethodDefinition_def
        intro!: derived_function_returns out_of_line_returns dest!: lines_above_le)
  show "\<exists>b. IsInitializerList cl n = Inr b"
    unfolding IsInitializerList_def using assms by (intro initializer_list_returns) auto
  show "\<exists>b. ExpectingFunctionArgs cl n = Inr b"
    using assms elided_at_minus[OF assms, of 1] elided_at_minus[OF assms, of 2]
    by (auto simp: ExpectingFunctionArgs_def)
qed

lemma parameter_list_end_returns:
  "aligned cl \<Longrightarrow> \<forall>i\<in>set ls. i < cl_num_lines cl \<Longrightarrow> \<exists>e c. parameter_list_end cl ls k = Inr (e, c)"
proof (induction ls arbitrary: k)
  case Nil
  then show ?case by simp
next
  case (Cons i ls)
  show ?case
  proof (cases "re_match RE_UP_TO_PAREN (drop k (cl_elided cl ! i))")
    case None
    with Cons show ?thesis by simp
  next
    case (Some m)
    then have "length (grp m 1) < length (drop k (cl_elided cl ! i))" by (rule RE_UP_TO_PAREN_head)
    with CloseExpression_returns[of i "cl_elided cl" "k + length (grp m 1)"] Cons.prems obtain l j q where
      "CloseExpression (cl_elided cl) i (k + length (grp m 1)) = Inr (l, j, q)"
      by (fastforce simp: aligned_def)
    with Some Cons.prems show ?thesis by simp
  qed
qed

lemma virt_specifiers_returns:
  "aligned cl \<Longrightarrow> \<forall>i\<in>set is. i < cl_num_lines cl \<Longrightarrow> \<exists>rs. virt_specifiers f cl n is k = Inr rs"
proof (induction "is" arbitrary: k)
  case Nil
  then show ?case by simp
next
  case (Cons i "is")
  then obtain rs where "virt_specifiers f cl n is 0 = Inr rs" by fastforce
  with Cons.prems show ?case by (simp add: Let_def)
qed

lemma total_virtual: "total_check (CheckRedundantVirtual f)"
proof (rule total_checkI)
  fix cl n assume inside: "aligned cl" "n < cl_num_lines cl"
  show "\<exists>rs. CheckRedundantVirtual f cl n = Inr rs"
  proof (cases "re_match RE_VIRTUAL (cl_elided cl ! n)")
    case None
    with inside show ?thesis by (simp add: CheckRedundantVirtual_def)
  next
    case (Some m)
    have "\<exists>e c. parameter_list_end cl [n..<min (n + 3) (NumLines cl)] (length (grp m 2)) = Inr (e, c)"
      using inside by (intro parameter_list_end_returns) (auto simp: NumLines_def)
    then obtain e c where pl: "parameter_list_end cl [n..<min (n + 3) (NumLines cl)] (length (grp m 2)) = Inr (e, c)"
      by blast
    have "\<exists>rs. virt_specifiers f cl n [nat e..<min (nat e + 3) (NumLines cl)] (nat c) = Inr rs"
      using inside by (intro virt_specifiers_returns) (auto simp: NumLines_def)
    then show ?thesis using Some inside pl by (auto simp: CheckRedundantVirtual_def)
  qed
qed

lemma total_lambda: "total_check (CheckDefaultLambdaCaptures f)"
proof (rule total_checkI)
  fix cl n assume inside: "aligned cl" "n < cl_num_lines cl"
  show "\<exists>rs. CheckDefaultLambdaCaptures f cl n = Inr rs"
  proof (cases "re_match RE_LAMBDA (cl_elided cl ! n)")
    case None
    with inside show ?thesis by (simp add: CheckDefaultLambdaCaptures_def)
  next
    case (Some m)
    from RE_LAMBDA_head[OF this] CloseExpression_returns[of n "cl_elided cl" "length (grp m 1)"] inside
    obtain l j q where "CloseExpression (cl_elided cl) n (length (grp m 1)) = Inr (l, j, q)"
      by (fastforce simp: aligned_def)
    with Some inside show ?thesis by (simp add: CheckDefaultLambdaCaptures_def)
  qed
qed

lemma total_keyword_checks [total_checks]:
  "total_check (CheckAltTokens f)"
  "total_check (CheckGlobalStatic f)"
  "total_check (CheckPrintf f)"
  "total_check (CheckMakePairUsesDeduction f)"
  "total_check (CheckDefaultLambdaCaptures f)"
  "total_check (CheckRedundantVirtual f)"
  "total_check (CheckRedundantOverrideOrFinal f)"
  "total_check (FlagCxx11Features f)"
  using alt_tokens_total total_lambda total_virtual elided_at_minus[where k = 1] elided_at_in[of _ "Suc _"]
  by (auto simp: total_check_def CheckGlobalStatic_def CheckPrintf_def CheckMakePairUsesDeduction_def
      CheckRedundantOverrideOrFinal_def FlagCxx11Features_def NumLines_def split: option.split)

section \<open>The contract\<close>

interpretation alt_tokens: line_check CheckAltTokens
  by (rule line_checkI) (rule listed_intros total_checks)+

interpretation global_static: line_check CheckGlobalStatic
  by (rule line_checkI) (rule listed_intros total_checks)+

interpretation printf_check: line_check CheckPrintf
  by (rule line_checkI) (rule listed_intros total_checks)+

interpretation make_pair: line_check CheckMakePairUsesDeduction
  by (rule line_checkI) (rule listed_intros total_checks)+

interpretation lambda_captures: line_check CheckDefaultLambdaCaptures
  by (rule line_checkI) (rule listed_intros total_checks)+

interpretation redundant_virtual: line_check CheckRedundantVirtual
  by (rule line_checkI) (rule listed_intros total_checks)+

interpretation redundant_override: line_check CheckRedundantOverrideOrFinal
  by (rule line_checkI) (rule listed_intros total_checks)+

interpretation cxx11: line_check FlagCxx11Features
  by (rule line_checkI) (rule listed_intros total_checks)+

end
