(* ===== verification/Braces.thy ===== *)
theory Braces
  imports LineChecks
begin

text \<open>
  Braces and block bodies (\<open>cpplint.py\<close>: \<open>CheckBraces\<close>, \<open>CheckTrailingSemicolon\<close>,
  \<open>CheckEmptyBlockBody\<close>).

  The loop of \<open>CheckBraces\<close> that looks for the end of a body without braces is \<open>semicolon_line\<close>; it stops
  at the first semicolon or at the end of the file.  The lemmas show what it finds, and that the checks
  return on every line of the file, although they read lines behind and before it.
\<close>

section \<open>Misplaced braces\<close>

text \<open>\<open>\<backslash>s*{\<backslash>s*$\<close>\<close>

definition RE_LONE_BRACE :: regex where
"RE_LONE_BRACE = seqs [RStar ws, lit ''{'', RStar ws, REol]"

text \<open>\<open>[,;:}{(]\<backslash>s*$\<close>\<close>

definition RE_BEFORE_BLOCK :: regex where
"RE_BEFORE_BLOCK = seqs [oneof '',;:}{('', RStar ws, REol]"

text \<open>\<open>\<backslash>s*#\<close>\<close>

definition RE_PREPROCESSOR_LINE :: regex where
"RE_PREPROCESSOR_LINE = seqs [RStar ws, lit ''#'']"

text \<open>\<open>\<backslash>s*else\<backslash>b\<backslash>s*(?:if\<backslash>b|\<backslash>{|$)\<close>\<close>

definition RE_ELSE_LINE :: regex where
"RE_ELSE_LINE = seqs [RStar ws, lit ''else'', RWordB, RStar ws, alts [seqs [lit ''if'', RWordB],
     lit ''{'', REol]]"

text \<open>\<open>\<backslash>s*}\<backslash>s*$\<close>\<close>

definition RE_LONE_CLOSE :: regex where
"RE_LONE_CLOSE = seqs [RStar ws, lit ''}'', RStar ws, REol]"

text \<open>\<open>else if\<backslash>s*\<backslash>(\<close>\<close>

definition RE_ELSE_IF_PAREN :: regex where
"RE_ELSE_IF_PAREN = seqs [lit ''else if'', RStar ws, lit ''('']"

text \<open>\<open>}\<backslash>s*else if\<backslash>s*\<backslash>(\<close>\<close>

definition RE_CLOSE_ELSE_IF :: regex where
"RE_CLOSE_ELSE_IF = seqs [lit ''}'', RStar ws, lit ''else if'', RStar ws, lit ''('']"

text \<open>\<open>}\<backslash>s*else[^{]*$\<close>\<close>

definition RE_CLOSE_ELSE :: regex where
"RE_CLOSE_ELSE = seqs [lit ''}'', RStar ws, lit ''else'', RStar (noneof ''{''), REol]"

text \<open>\<open>[^}]*else\<backslash>s*{\<close>\<close>

definition RE_ELSE_OPEN :: regex where
"RE_ELSE_OPEN = seqs [RStar (noneof ''}''), lit ''else'', RStar ws, lit ''{'']"

text \<open>\<open>\<backslash>belse [^\<backslash>s{]\<close>\<close>

definition RE_ELSE_BODY :: regex where
"RE_ELSE_BODY = seqs [RWordB, lit ''else '', RChar (\<lambda>c. \<not> (one_of ''{'' c \<or>
     ascii_space c))]"

text \<open>\<open>\<backslash>belse if\<backslash>b\<close>\<close>

definition RE_ELSE_IF :: regex where
"RE_ELSE_IF = seqs [RWordB, lit ''else if'', RWordB]"

text \<open>\<open>\<backslash>s*do [^\<backslash>s{]\<close>\<close>

definition RE_DO_BODY :: regex where
"RE_DO_BODY = seqs [RStar ws, lit ''do '', RChar (\<lambda>c. \<not> (one_of ''{'' c \<or>
     ascii_space c))]"

text \<open>The brace at the beginning of a line and the \<open>else\<close> below a closing brace.\<close>

definition check_line_start :: "string \<Rightarrow> cleansed_lines \<Rightarrow> nat \<Rightarrow> string \<Rightarrow> check" where
  "check_line_start filename clean_lines linenum line =
     res_bind (if matches RE_LONE_BRACE line
               then res_map (\<lambda>(prevline, _).
                      if \<not> searches RE_BEFORE_BLOCK prevline \<and> \<not> matches RE_PREPROCESSOR_LINE prevline
                      then [report filename (int linenum) ''whitespace/braces'' 4
                              ''{ should almost always be at the end of the previous line'']
                      else [])
                    (GetPreviousNonBlankLine clean_lines linenum)
               else Inr []) (\<lambda>braces.
     res_map (\<lambda>newline. braces @ newline)
       (if matches RE_ELSE_LINE line
        then res_map (\<lambda>(prevline, _).
               if matches RE_LONE_CLOSE prevline
               then [report filename (int linenum) ''whitespace/newline'' 4
                       ''An else should appear on the same line as the preceding }'']
               else [])
             (GetPreviousNonBlankLine clean_lines linenum)
        else Inr []))"

text \<open>Braces on one side of an \<open>else\<close>.\<close>

definition check_else_sides :: "string \<Rightarrow> cleansed_lines \<Rightarrow> nat \<Rightarrow> string \<Rightarrow> check" where
  "check_else_sides filename clean_lines linenum line =
     (let rep = [report filename (int linenum) ''readability/braces'' 5
                   ''If an else has a brace on one side, it should have it on both'']
      in if searches RE_ELSE_IF_PAREN line then
           (let brace_on_left = searches RE_CLOSE_ELSE_IF line;
                pos = py_find_from line ''('' (nat (py_find line ''else if''))
            in if 0 < pos then
                 res_map (\<lambda>(endline, _, endpos).
                     if brace_on_left \<noteq> (py_find (py_from endline endpos) ''{'' \<noteq> - 1) then rep else [])
                   (CloseExpression (cl_elided clean_lines) linenum (nat pos))
               else Inr [])
         else Inr (if searches RE_CLOSE_ELSE line \<or> matches RE_ELSE_OPEN line then rep else []))"

definition check_same_line :: "string \<Rightarrow> nat \<Rightarrow> string \<Rightarrow> report list" where
  "check_same_line filename linenum line =
     (if searches RE_ELSE_BODY line \<and> \<not> searches RE_ELSE_IF line
      then [report filename (int linenum) ''whitespace/newline'' 4
              ''Else clause should never be on same line as else (use 2 lines)'']
      else []) @
     (if matches RE_DO_BODY line
      then [report filename (int linenum) ''whitespace/newline'' 4
              ''do/while clauses should not be on a single line'']
      else [])"

section \<open>Bodies without braces\<close>

text \<open>\<open>\<backslash>b(if\<backslash>s*\<backslash>(|else\<backslash>b)\<close>\<close>

definition RE_IF_OR_ELSE :: regex where
"RE_IF_OR_ELSE = seqs [RWordB, RGroup 1 (alts [seqs [lit ''if'', RStar ws, lit ''(''], seqs [lit
     ''else'', RWordB]])]"

text \<open>\<open>\<backslash>bif\<backslash>s*\<backslash>(\<close>\<close>

definition RE_IF_HEAD :: regex where
"RE_IF_HEAD = seqs [RWordB, lit ''if'', RStar ws, lit ''('']"

text \<open>\<open>\<backslash>s*{\<close>\<close>

definition RE_STARTS_BRACE :: regex where
"RE_STARTS_BRACE = seqs [RStar ws, lit ''{'']"

text \<open>\<open>;[\<backslash>s}]*(\<backslash>\<backslash>?)$\<close>\<close>

definition RE_BODY_END :: regex where
"RE_BODY_END = seqs [lit '';'', RStar (RChar (\<lambda>c. one_of ''}'' c \<or> ascii_space
     c)), RGroup 1 (ROpt (lit [BS])), REol]"

text \<open>\<open>^[^{};]*\<backslash>[[^\<backslash>[\<backslash>]]*\<backslash>][^{}]*\<backslash>{[^{}]*\<backslash>}\<backslash>s*\<backslash>)*[;,]\<backslash>s*$\<close>\<close>

definition RE_LAMBDA_STATEMENT :: regex where
"RE_LAMBDA_STATEMENT = seqs [RBol, RStar (noneof ''{};''), lit ''['', RStar (noneof ''[]''), lit
     '']'', RStar (noneof ''{}''), lit ''{'', RStar (noneof ''{}''), lit ''}'', RStar ws, RStar
     (lit '')''), oneof '';,'', RStar ws, REol]"

text \<open>\<open>\<backslash>s*else\<backslash>b\<close>\<close>

definition RE_STARTS_ELSE :: regex where
"RE_STARTS_ELSE = seqs [RStar ws, lit ''else'', RWordB]"

text \<open>The loop over the lines of the body: the line of its first semicolon, or the number of lines.\<close>

function semicolon_line :: "string list \<Rightarrow> nat \<Rightarrow> int \<Rightarrow> nat" where
  "semicolon_line elided endlinenum endpos =
     (if endlinenum < length elided \<and> CHR '';'' \<notin> set (py_from (elided ! endlinenum) endpos)
      then semicolon_line elided (endlinenum + 1) 0
      else endlinenum)"
  by pat_completeness auto
termination
  by (relation "measure (\<lambda>(E, n, p). length E - n)") auto

declare semicolon_line.simps [simp del]

text \<open>The body ends at the first semicolon; \<open>if_found\<close> says whether the line has an \<open>if\<close>.\<close>

definition check_body_end :: "string \<Rightarrow> string list \<Rightarrow> nat \<Rightarrow> nat \<Rightarrow> bool \<Rightarrow> nat \<Rightarrow> report list" where
  "check_body_end filename elided linenum if_indent if_found endlinenum =
     (if endlinenum < length elided then
        (let endline = elided ! endlinenum;
             endpos = py_find endline '';'';
             rep = (\<lambda>msg. [report filename (int linenum) ''readability/braces'' 4 msg])
         in if \<not> matches RE_BODY_END (py_from endline endpos) then
              (if \<not> matches RE_LAMBDA_STATEMENT endline
               then rep ''If/else bodies with multiple statements require braces'' else [])
            else if int endlinenum < int (length elided) - 1 then
              (let next_line = elided ! (endlinenum + 1); next_indent = GetIndentLevel next_line
               in if if_found \<and> matches RE_STARTS_ELSE next_line \<and> next_indent \<noteq> if_indent
                  then rep (''Else clause should be indented at the same level as if. Ambiguous nested if/else '' @
      ''chains require braces.'')
                  else if if_indent < next_indent
                  then rep ''If/else bodies with multiple statements require braces'' else [])
            else [])
      else [])"

definition check_single_statement :: "string \<Rightarrow> cleansed_lines \<Rightarrow> nat \<Rightarrow> string \<Rightarrow> check" where
  "check_single_statement filename clean_lines linenum line =
     (case re_search RE_IF_OR_ELSE line of
        None \<Rightarrow> Inr []
      | Some if_else_match \<Rightarrow>
          if matches RE_PREPROCESSOR_LINE line then Inr []
          else
            res_map (\<lambda>(endline, endlinenum, endpos).
              let elided = cl_elided clean_lines in
              if \<not> matches RE_STARTS_BRACE (py_from endline endpos) \<and>
                 \<not> (matches RE_BLANK (py_from endline endpos) \<and> int endlinenum < int (length elided) - 1 \<and>
                    matches RE_STARTS_BRACE (elided ! (endlinenum + 1)))
              then check_body_end filename elided linenum (GetIndentLevel line) (searches RE_IF_HEAD line)
                     (semicolon_line elided endlinenum endpos)
              else [])
            (case re_search RE_IF_HEAD line of
               Some if_match \<Rightarrow> CloseExpression (cl_elided clean_lines) linenum (mo_end if_match - 1)
             | None \<Rightarrow> Inr (line, linenum, int (mo_end if_else_match))))"

definition CheckBraces :: "string \<Rightarrow> cleansed_lines \<Rightarrow> nat \<Rightarrow> check" where
  "CheckBraces filename clean_lines linenum =
     res_bind (elided_at clean_lines (int linenum)) (\<lambda>line.
     res_bind (check_line_start filename clean_lines linenum line) (\<lambda>start.
     res_bind (check_else_sides filename clean_lines linenum line) (\<lambda>sides.
     res_map (\<lambda>body. start @ sides @ check_same_line filename linenum line @ body)
       (check_single_statement filename clean_lines linenum line))))"

section \<open>Trailing semicolons\<close>

text \<open>\<open>^(.*\<backslash>)\<backslash>s*)\<backslash>{\<close>\<close>

definition RE_PAREN_BLOCK :: regex where
"RE_PAREN_BLOCK = seqs [RBol, RGroup 1 (seqs [RStar anyc, lit '')'', RStar ws]), lit ''{'']"

text \<open>\<open>\<backslash>b([A-Z_]+)\<backslash>s*$\<close>\<close>

definition RE_MACRO_WORD :: regex where
"RE_MACRO_WORD = seqs [RWordB, RGroup 1 (RPlus (RChar (\<lambda>c. one_of ''_'' c \<or>
     upper_char c))), RStar ws, REol]"

text \<open>\<open>^(.*\<backslash>])\<backslash>s*$\<close>\<close>

definition RE_BRACKET_END :: regex where
"RE_BRACKET_END = seqs [RBol, RGroup 1 (seqs [RStar anyc, lit '']'']), RStar ws, REol]"

text \<open>\<open>\<backslash>boperator\<backslash>s*\<backslash>[\<backslash>s*\<backslash>]\<close>\<close>

definition RE_OPERATOR_INDEX :: regex where
"RE_OPERATOR_INDEX = seqs [RWordB, lit ''operator'', RStar ws, lit ''['', RStar ws, lit '']'']"

text \<open>\<open>\<backslash>b(?:struct|union)\<backslash>s+alignas\<backslash>s*$\<close>\<close>

definition RE_ALIGNAS :: regex where
"RE_ALIGNAS = seqs [RWordB, alts [lit ''struct'', lit ''union''], RPlus ws, lit ''alignas'',
     RStar ws, REol]"

text \<open>\<open>\<backslash>s+=\<backslash>s*$\<close>\<close>

definition RE_ASSIGNED :: regex where
"RE_ASSIGNED = seqs [RPlus ws, lit ''='', RStar ws, REol]"

text \<open>\<open>\<backslash>]\<backslash>s*$\<close>\<close>

definition RE_LAMBDA_ABOVE :: regex where
"RE_LAMBDA_ABOVE = seqs [lit '']'', RStar ws, REol]"

text \<open>\<open>^(.*(?:else|\<backslash>)\<backslash>s*const)\<backslash>s*)\<backslash>{\<close>\<close>

definition RE_ELSE_BLOCK :: regex where
"RE_ELSE_BLOCK = seqs [RBol, RGroup 1 (seqs [RStar anyc, alts [lit ''else'', seqs [lit '')'',
     RStar ws, lit ''const'']], RStar ws]), lit ''{'']"

text \<open>\<open>[;{}]\<backslash>s*$\<close>\<close>

definition RE_STATEMENT_ABOVE :: regex where
"RE_STATEMENT_ABOVE = seqs [oneof '';{}'', RStar ws, REol]"

text \<open>\<open>^(\<backslash>s*)\<backslash>{\<close>\<close>

definition RE_INDENTED_BRACE :: regex where
"RE_INDENTED_BRACE = seqs [RBol, RGroup 1 (RStar ws), lit ''{'']"

text \<open>\<open>^\<backslash>s*;\<close>\<close>

definition RE_SEMICOLON_NEXT :: regex where
"RE_SEMICOLON_NEXT = seqs [RBol, RStar ws, lit '';'']"

definition SAFE_MACROS :: "string list" where
  "SAFE_MACROS = [''TEST'', ''TEST_F'', ''MATCHER'', ''MATCHER_P'', ''TYPED_TEST'', ''EXCLUSIVE_LOCKS_REQUIRED'',
     ''SHARED_LOCKS_REQUIRED'', ''LOCKS_EXCLUDED'', ''INTERFACE_DEF'']"

text \<open>What stands before the parentheses tells that the braces are no block.\<close>

definition not_a_block :: "string \<Rightarrow> bool" where
  "not_a_block line_prefix \<longleftrightarrow>
     (case re_search RE_MACRO_WORD line_prefix of Some macro \<Rightarrow> grp macro 1 \<notin> set SAFE_MACROS | None \<Rightarrow> False) \<or>
     (case re_match RE_BRACKET_END line_prefix of Some func \<Rightarrow> \<not> searches RE_OPERATOR_INDEX (grp func 1) | None \<Rightarrow> False) \<or>
     searches RE_ALIGNAS line_prefix \<or> searches RE_ASSIGNED line_prefix"

text \<open>The column of the brace that opens a block, in the order of the cases of the source.\<close>

definition block_brace :: "cleansed_lines \<Rightarrow> nat \<Rightarrow> string \<Rightarrow> nat option result" where
  "block_brace clean_lines linenum line =
     (case re_match RE_PAREN_BLOCK line of
        Some match \<Rightarrow>
          res_bind (ReverseCloseExpression (cl_elided clean_lines) linenum (nat (py_rfind (grp match 1) CHR '')'')))
            (\<lambda>(open_line, open_num, open_pos).
              if - 1 < open_pos \<and> not_a_block (take (nat open_pos) open_line) then Inr None
              else if 1 < open_num then
                res_map (\<lambda>above. if searches RE_LAMBDA_ABOVE above then None else Some (length (grp match 1)))
                  (elided_at clean_lines (int open_num - 1))
              else Inr (Some (length (grp match 1))))
      | None \<Rightarrow>
          (case re_match RE_ELSE_BLOCK line of
             Some match \<Rightarrow> Inr (Some (length (grp match 1)))
           | None \<Rightarrow>
               res_map (\<lambda>(prevline, _).
                   if prevline \<noteq> [] \<and> searches RE_STATEMENT_ABOVE prevline
                   then map_option (\<lambda>match. length (grp match 1)) (re_match RE_INDENTED_BRACE line)
                   else None)
                 (GetPreviousNonBlankLine clean_lines linenum)))"

definition CheckTrailingSemicolon :: "string \<Rightarrow> cleansed_lines \<Rightarrow> nat \<Rightarrow> check" where
  "CheckTrailingSemicolon filename clean_lines linenum =
     res_bind (elided_at clean_lines (int linenum)) (\<lambda>line.
     res_bind (block_brace clean_lines linenum line) (\<lambda>brace.
       case brace of
         None \<Rightarrow> Inr []
       | Some pos \<Rightarrow>
           res_map (\<lambda>(endline, endlinenum, endpos).
               if - 1 < endpos \<and> matches RE_SEMICOLON_NEXT (py_from endline endpos)
               then [report filename (int endlinenum) ''readability/braces'' 4 (''You don'' @ [SQ] @ ''t need a ; after a }'')]
               else [])
             (CloseExpression (cl_elided clean_lines) linenum pos)))"

section \<open>Empty bodies\<close>

text \<open>\<open>\<backslash>s*(for|while|if)\<backslash>s*\<backslash>(\<close>\<close>

definition RE_LOOP_OR_IF :: regex where
"RE_LOOP_OR_IF = seqs [RStar ws, RGroup 1 (alts [lit ''for'', lit ''while'', lit ''if'']), RStar
     ws, lit ''('']"

text \<open>\<open>;\<close>\<close>

definition RE_EMPTY_BODY :: regex where
"RE_EMPTY_BODY = lit '';''"

definition CheckEmptyBlockBody :: "string \<Rightarrow> cleansed_lines \<Rightarrow> nat \<Rightarrow> check" where
  "CheckEmptyBlockBody filename clean_lines linenum =
     res_bind (elided_at clean_lines (int linenum)) (\<lambda>line.
       case re_match RE_LOOP_OR_IF line of
         None \<Rightarrow> Inr []
       | Some matched \<Rightarrow>
           res_map (\<lambda>(end_line, end_linenum, end_pos).
               if 0 \<le> end_pos \<and> matches RE_EMPTY_BODY (py_from end_line end_pos)
               then (if grp matched 1 = ''if''
                     then [report filename (int end_linenum) ''whitespace/empty_conditional_body'' 5
                             ''Empty conditional bodies should use {}'']
                     else [report filename (int end_linenum) ''whitespace/empty_loop_body'' 5
                             ''Empty loop bodies should use {} or continue''])
               else [])
             (CloseExpression (cl_elided clean_lines) linenum (nat (py_find line ''(''))))"

section \<open>Lemmas\<close>

text \<open>The loop over a body stops at the first semicolon, or at the end of the file.\<close>

lemma semicolon_line_spec:
  assumes "n \<le> length E"
  shows "n \<le> semicolon_line E n p \<and> semicolon_line E n p \<le> length E \<and>
    (semicolon_line E n p < length E \<longrightarrow> CHR '';'' \<in> set (E ! semicolon_line E n p)) \<and>
    (\<forall>k. n < k \<and> k < semicolon_line E n p \<longrightarrow> CHR '';'' \<notin> set (E ! k))"
  using assms
proof (induction E n p rule: semicolon_line.induct)
  case (1 E n p)
  show ?case
  proof (cases "n < length E \<and> CHR '';'' \<notin> set (py_from (E ! n) p)")
    case True
    then have "semicolon_line E n p = semicolon_line E (n + 1) 0" by (subst semicolon_line.simps) simp
    moreover have "CHR '';'' \<notin> set (E ! (n + 1))" if "n + 1 < semicolon_line E (n + 1) 0"
    proof
      assume "CHR '';'' \<in> set (E ! (n + 1))"
      then have "semicolon_line E (n + 1) 0 = n + 1"
        by (subst semicolon_line.simps) (simp add: py_from_nat[of _ 0, simplified])
      with that show False by simp
    qed
    moreover have "CHR '';'' \<notin> set (E ! k)" if "n < k" "k < semicolon_line E (n + 1) 0" for k
      using that calculation(2) "1.IH"[OF True] True by (cases "k = n + 1") auto
    ultimately show ?thesis using "1.IH"[OF True] True by (auto simp del: One_nat_def)
  next
    case False
    then have "semicolon_line E n p = n" by (subst semicolon_line.simps) auto
    with False "1.prems" show ?thesis
      by (auto simp: py_from_def dest: in_set_dropD)
  qed
qed

lemma RE_IF_HEAD_end: "re_search RE_IF_HEAD s = Some m \<Longrightarrow> mo_end m - 1 < length s"
proof -
  assume m: "re_search RE_IF_HEAD s = Some m"
  from m have "s \<noteq> []" by (rule re_search_path) (auto simp: RE_IF_HEAD_def rx_simps)
  with re_search_Some[OF m] show ?thesis by (cases s) auto
qed

lemma RE_LOOP_OR_IF_not_Nil: "re_match RE_LOOP_OR_IF s = Some m \<Longrightarrow> s \<noteq> []"
  by (erule re_match_path) (auto simp: RE_LOOP_OR_IF_def rx_simps)

lemma block_heads:
  "re_match RE_PAREN_BLOCK s = Some m \<Longrightarrow> length (grp m 1) < length s"
  "re_match RE_ELSE_BLOCK s = Some m \<Longrightarrow> length (grp m 1) < length s"
  "re_match RE_INDENTED_BRACE s = Some m \<Longrightarrow> length (grp m 1) < length s"
  unfolding RE_PAREN_BLOCK_def RE_ELSE_BLOCK_def RE_INDENTED_BRACE_def seqs.simps
  by (erule match_head_group; auto simp: rx_simps)+

lemma find_in_bounds:
  "s \<noteq> [] \<Longrightarrow> nat (py_find s [c]) < length s"
  "0 < py_find_from s [c] k \<Longrightarrow> nat (py_find_from s [c] k) < length s"
  "s \<noteq> [] \<Longrightarrow> length t \<le> length s \<Longrightarrow> nat (py_rfind t c) < length s"
  using py_find_le[of s "[c]"] py_find_ge[of s "[c]"] rfind_nat_Some[of c t]
  by (auto simp: py_find_from_def py_find_def py_rfind_def nat_less_iff split: if_splits option.splits dest!: find_nat_Some)

lemma total_CheckBraces: "total_check (CheckBraces f)"
  unfolding total_check_returns
proof (intro allI impI)
  fix cl n assume inside: "aligned cl" "n < cl_num_lines cl"
  let ?line = "cl_elided cl ! n"
  obtain p i where previous: "GetPreviousNonBlankLine cl n = Inr (p, i)"
    using previous_non_blank_returns[of n "cl_elided cl"] inside
    by (auto simp: GetPreviousNonBlankLine_def aligned_def)
  have start: "returns (check_line_start f cl n ?line)"
    by (simp add: check_line_start_def previous)
  have sides: "returns (check_else_sides f cl n ?line)"
    using inside find_in_bounds(2) by (simp add: check_else_sides_def Let_def)
  have body: "returns (check_single_statement f cl n ?line)"
    using inside RE_IF_HEAD_end by (simp add: check_single_statement_def)
  show "returns (CheckBraces f cl n)"
    using inside start sides body by (auto simp: CheckBraces_def returns_iff)
qed

lemma total_CheckTrailingSemicolon: "total_check (CheckTrailingSemicolon f)"
  unfolding total_check_returns
proof (intro allI impI)
  fix cl n assume inside: "aligned cl" "n < cl_num_lines cl"
  let ?line = "cl_elided cl ! n"
  obtain p i where previous: "GetPreviousNonBlankLine cl n = Inr (p, i)"
    using previous_non_blank_returns[of n "cl_elided cl"] inside
    by (auto simp: GetPreviousNonBlankLine_def aligned_def)
  have "\<exists>b. block_brace cl n ?line = Inr b \<and> (\<forall>q. b = Some q \<longrightarrow> q < length ?line)"
  proof (cases "re_match RE_PAREN_BLOCK ?line")
    case None
    then show ?thesis using previous block_heads by (auto simp: block_brace_def split: option.split)
  next
    case (Some m)
    let ?p = "nat (py_rfind (grp m 1) CHR '')'')"
    from block_heads(1)[OF Some] have p: "?p < length ?line" by (intro find_in_bounds(3)) auto
    with ReverseCloseExpression_returns[of n "cl_elided cl" ?p] inside obtain l k q where
      r: "ReverseCloseExpression (cl_elided cl) n ?p = Inr (l, k, q)" by (auto simp: aligned_def)
    from reverse_close_line[OF inside p r] inside have "k < cl_num_lines cl" by simp
    with elided_at_minus[of cl k 1] inside(1) have "1 < k \<Longrightarrow> elided_at cl (int k - 1) = Inr (cl_elided cl ! (k - 1))"
      by simp
    with Some r block_heads(1)[OF Some] show ?thesis by (auto simp: block_brace_def)
  qed
  then obtain b where "block_brace cl n ?line = Inr b" "\<forall>q. b = Some q \<longrightarrow> q < length ?line" by blast
  with inside show "returns (CheckTrailingSemicolon f cl n)" by (simp add: CheckTrailingSemicolon_def)
qed

lemma total_brace_checks [total_checks]:
  "total_check (CheckBraces f)"
  "total_check (CheckTrailingSemicolon f)"
  "total_check (CheckEmptyBlockBody f)"
  using total_CheckBraces total_CheckTrailingSemicolon RE_LOOP_OR_IF_not_Nil
  by (simp_all add: total_check_returns CheckEmptyBlockBody_def find_in_bounds(1))

lemma listed_brace_checks [listed_intros]:
  "listedR f (check_line_start f cl n l)"
  "listedR f (check_else_sides f cl n l)"
  "listed f (check_same_line f n l)"
  "listedR f (check_single_statement f cl n l)"
  "listedR f (CheckTrailingSemicolon f cl n)"
  "listedR f (CheckEmptyBlockBody f cl n)"
  unfolding check_line_start_def check_else_sides_def check_same_line_def check_single_statement_def
    check_body_end_def CheckTrailingSemicolon_def CheckEmptyBlockBody_def Let_def
  by (rule listed_acc listed_intros conjI allI impI | simp)+

lemma listed_CheckBraces [listed_intros]: "listedR f (CheckBraces f cl n)"
  unfolding CheckBraces_def
  by (rule listed_acc listed_intros conjI allI impI | simp)+

section \<open>The contract\<close>

interpretation brace_style: line_check CheckBraces
  by (rule line_checkI) (rule listed_intros total_checks)+

interpretation trailing_semicolon: line_check CheckTrailingSemicolon
  by (rule line_checkI) (rule listed_intros total_checks)+

interpretation empty_body: line_check CheckEmptyBlockBody
  by (rule line_checkI) (rule listed_intros total_checks)+

end
