(* ===== verification/Style.thy ===== *)
theory Style
  imports FileChecks Spacing RValue CheckMacros KeywordChecks Braces
begin

text \<open>
  Style of a line (\<open>cpplint.py\<close>: \<open>GetLineWidth\<close>, \<open>CheckStyle\<close>).

  \<open>CheckStyle\<close> looks at tabs, indentation and length of a line and then calls the checks of the other
  theories in the order of the source; \<open>run_checks\<close> is that sequence, in which the first check that
  raises or does not return decides.  The lemmas show which lines are too long, that everything
  \<open>CheckStyle\<close> reports has a listed category, and when it returns.
\<close>

section \<open>Width and length of a line\<close>

text \<open>None of the characters of the model, those of Latin-1, is wide or combining for
  \<open>unicodedata\<close>, and their normal form NFC is themselves.\<close>

definition east_asian_wide :: "char \<Rightarrow> bool" where
  "east_asian_wide uc = False"

definition combining :: "char \<Rightarrow> bool" where
  "combining uc = False"

fun GetLineWidth :: "string \<Rightarrow> nat" where
  "GetLineWidth [] = 0"
| "GetLineWidth (uc # line) =
     (if east_asian_wide uc then 2 else if \<not> combining uc then 1 else 0) + GetLineWidth line"

lemma GetLineWidth_length [simp]: "GetLineWidth line = length line"
  by (induction line) (simp_all add: east_asian_wide_def combining_def)

text \<open>\<open>int(_line_length * 1.25)\<close>; the float is exact for lengths below \<open>2 ^ 50\<close>.\<close>

definition extended_length :: "int \<Rightarrow> int" where
  "extended_length line_length =
     (if 0 \<le> line_length then line_length * 5 div 4 else - (- line_length * 5 div 4))"

text \<open>\<open>^\<backslash>s*//.*http(s?)://\<backslash>S*$\<close>\<close>

definition RE_URL_COMMENT :: regex where
"RE_URL_COMMENT = seqs [RBol, RStar ws, lit ''//'', RStar anyc, lit ''http'', RGroup 1 (ROpt
     (lit ''s'')), lit ''://'', RStar nonws, REol]"

text \<open>\<open>^// \<backslash>$Id:.*#[0-9]+ \<backslash>$$\<close>\<close>

definition RE_ID_COMMENT :: regex where
"RE_ID_COMMENT = seqs [RBol, lit ''// $Id:'', RStar anyc, lit ''#'', RPlus (RChar (\<lambda>c.
     digit_char c)), lit '' $'', REol]"

text \<open>Is the line part of the header guard of the file?\<close>

definition header_guard_line :: "file_system \<Rightarrow> regex option \<Rightarrow> string \<Rightarrow> string \<Rightarrow> string \<Rightarrow> bool option" where
  "header_guard_line fs root filename file_extension line =
     (if file_extension = ''h''
      then map_option (\<lambda>cppvar. startswith line (''#ifndef '' @ cppvar) \<or> startswith line (''#define '' @ cppvar) \<or>
               startswith line (''#endif  // '' @ cppvar))
             (GetHeaderGuardCPPVariable fs root filename)
      else Some False)"

definition may_be_long :: "bool \<Rightarrow> string \<Rightarrow> bool" where
  "may_be_long is_header_guard line \<longleftrightarrow>
     startswith line ''#include'' \<or> is_header_guard \<or> matches RE_URL_COMMENT line \<or> matches RE_ID_COMMENT line"

definition check_line_length :: "string \<Rightarrow> nat \<Rightarrow> int \<Rightarrow> bool \<Rightarrow> string \<Rightarrow> report list" where
  "check_line_length filename linenum line_length is_header_guard line =
     (if \<not> may_be_long is_header_guard line then
        (let line_width = int (GetLineWidth line)
         in if extended_length line_length < line_width
            then [report filename (int linenum) ''whitespace/line_length'' 4
                    (''Lines should very rarely be longer than '' @ show_int (extended_length line_length) @ '' characters'')]
            else if line_length < line_width
            then [report filename (int linenum) ''whitespace/line_length'' 2
                    (''Lines should be <= '' @ show_int line_length @ '' characters long'')]
            else [])
      else [])"

section \<open>White space of a line\<close>

text \<open>\<open>\<backslash>s*\<backslash>w+\<backslash>s*:\<backslash>s*\<backslash>\<backslash>?$\<close>\<close>

definition RE_SCOPE_OR_LABEL :: regex where
"RE_SCOPE_OR_LABEL = seqs [RStar ws, RPlus wordc, RStar ws, lit '':'', RStar ws, ROpt (lit
     [BS]), REol]"

text \<open>\<open>^\<backslash>s*""\<close>\<close>

definition RE_RAW_STRING_LINE :: regex where
"RE_RAW_STRING_LINE = seqs [RBol, RStar ws, lit [DQ, DQ]]"

definition check_blanks :: "string \<Rightarrow> nat \<Rightarrow> string \<Rightarrow> string \<Rightarrow> string \<Rightarrow> report list" where
  "check_blanks filename linenum line cleansed_line raw =
     (let initial_spaces = length (takeWhile ((=) CHR '' '') line)
      in (if CHR 0x09 \<in> set line
          then [report filename (int linenum) ''whitespace/tab'' 1 ''Tab found; better to use spaces''] else []) @
         (if line \<noteq> [] \<and> uni_space (last line)
          then [report filename (int linenum) ''whitespace/end_of_line'' 4
                  ''Line ends in whitespace.  Consider deleting these extra spaces.'']
          else if (initial_spaces = 1 \<or> initial_spaces = 3) \<and> \<not> matches RE_SCOPE_OR_LABEL cleansed_line \<and>
             \<not> (raw \<noteq> line \<and> matches RE_RAW_STRING_LINE line)
          then [report filename (int linenum) ''whitespace/indent'' 3 ''Weird number of spaces at line-start.  Are you using a 2-space indent?'']
          else []))"

definition check_one_command :: "string \<Rightarrow> cleansed_lines \<Rightarrow> nat \<Rightarrow> string \<Rightarrow> check" where
  "check_one_command filename clean_lines linenum cleansed_line =
     (if 1 < py_count '';'' cleansed_line \<and> \<not> contains cleansed_line ''for'' then
        res_map (\<lambda>(prevline, _).
          if (\<not> contains prevline ''for'' \<or> contains prevline '';'') \<and>
             \<not> ((contains cleansed_line ''case '' \<or> contains cleansed_line ''default:'') \<and> contains cleansed_line ''break;'')
          then [report filename (int linenum) ''whitespace/newline'' 0 ''More than one command on the same line'']
          else [])
        (GetPreviousNonBlankLine clean_lines linenum)
      else Inr [])"

section \<open>All checks of a line\<close>

fun run_checks :: "check option list \<Rightarrow> check option" where
  "run_checks [] = Some (Inr [])"
| "run_checks (c # cs) =
     (case c of
        None \<Rightarrow> None
      | Some (Inl e) \<Rightarrow> Some (Inl e)
      | Some (Inr rs) \<Rightarrow> map_option (res_map (\<lambda>qs. rs @ qs)) (run_checks cs))"

definition style_checks :: "string \<Rightarrow> cleansed_lines \<Rightarrow> nat \<Rightarrow> nesting \<Rightarrow> check option list" where
  "style_checks filename clean_lines linenum nesting_state =
     [Some (CheckBraces filename clean_lines linenum),
      Some (CheckTrailingSemicolon filename clean_lines linenum),
      Some (CheckEmptyBlockBody filename clean_lines linenum),
      Some (CheckAccess filename clean_lines linenum nesting_state),
      Some (CheckSpacing filename clean_lines linenum nesting_state),
      Some (CheckOperatorSpacing filename clean_lines linenum),
      Some (CheckParenthesisSpacing filename clean_lines linenum),
      Some (CheckCommaSpacing filename clean_lines linenum),
      Some (CheckBracesSpacing filename clean_lines linenum),
      Some (CheckSpacingForFunctionCall filename clean_lines linenum),
      CheckRValueReference filename clean_lines linenum nesting_state,
      Some (CheckCheck filename clean_lines linenum),
      Some (CheckAltTokens filename clean_lines linenum),
      Some (case InnermostClass nesting_state of
              Some classinfo \<Rightarrow> CheckSectionSpacing filename clean_lines classinfo linenum
            | None \<Rightarrow> Inr [])]"

definition CheckStyle ::
  "file_system \<Rightarrow> regex option \<Rightarrow> int \<Rightarrow> string \<Rightarrow> cleansed_lines \<Rightarrow> nat \<Rightarrow> string \<Rightarrow> nesting \<Rightarrow> check option" where
  "CheckStyle fs root line_length filename clean_lines linenum file_extension nesting_state =
     (case py_get (cl_lines_without_raw_strings clean_lines) (int linenum) of
        Inl e \<Rightarrow> Some (Inl e)
      | Inr line \<Rightarrow>
      case elided_at clean_lines (int linenum) of
        Inl e \<Rightarrow> Some (Inl e)
      | Inr cleansed_line \<Rightarrow>
          run_checks
            (Some (res_map (check_blanks filename linenum line cleansed_line) (raw_at clean_lines (int linenum))) #
             map_option (\<lambda>is_header_guard. Inr (check_line_length filename linenum line_length is_header_guard line))
               (header_guard_line fs root filename file_extension line) #
             Some (check_one_command filename clean_lines linenum cleansed_line) #
             style_checks filename clean_lines linenum nesting_state))"

section \<open>Lemmas\<close>



lemma run_checks_all:
  "(\<And>c. c \<in> set cs \<Longrightarrow> opt_all (listedR f) c) \<Longrightarrow> opt_all (listedR f) (run_checks cs)"
proof (induction cs)
  case (Cons c cs)
  then have "opt_all (listedR f) c" "opt_all (listedR f) (run_checks cs)" by simp_all
  then show ?case by (cases c; cases "run_checks cs") (auto simp: listedR_Inr_iff split: sum.split)
qed simp

lemma run_checks_returns:
  "(\<And>c. c \<in> set cs \<Longrightarrow> \<exists>rs. c = Some (Inr rs)) \<Longrightarrow> \<exists>rs. run_checks cs = Some (Inr rs)"
proof (induction cs)
  case (Cons c cs)
  then obtain rs qs where "c = Some (Inr rs)" "run_checks cs = Some (Inr qs)" by (metis list.set_intros)
  then show ?case by simp
qed simp

lemma listed_style_parts [listed_intros, simp]:
  "listed f (check_line_length f n k b l)"
  "listed f (check_blanks f n l c r)"
  "listedR f (check_one_command f cl n l)"
  by (auto simp: check_line_length_def check_blanks_def check_one_command_def Let_def listedR_Inr_iff)

lemma listed_style_checks: "c \<in> set (style_checks f cl n s) \<Longrightarrow> opt_all (listedR f) c"
  unfolding style_checks_def list.set insert_iff empty_iff
  by (elim disjE FalseE; hypsubst)
     (simp_all add: listed_intros split: option.split, cases "CheckRValueReference f cl n s", simp_all add: listed_RValueReference)

lemma listed_CheckStyle: "opt_all (listedR f) (CheckStyle fs root k f cl n e s)"
proof -
  have guard: "opt_all (listedR f) (map_option (\<lambda>g. Inr (check_line_length f n k g l)) (header_guard_line fs root f e l))" for l
    by (rule opt_all_map) simp
  have blanks: "listedR f (res_map (check_blanks f n l c) (raw_at cl (int n)))" for l c
    by (rule listedR_map) simp
  have "opt_all (listedR f) (run_checks (Some (res_map (check_blanks f n l c) (raw_at cl (int n))) #
      map_option (\<lambda>g. Inr (check_line_length f n k g l)) (header_guard_line fs root f e l) #
      Some (check_one_command f cl n c) # style_checks f cl n s))" for l c
    using guard blanks listed_style_checks by (intro run_checks_all) auto
  then show ?thesis by (simp add: CheckStyle_def del: run_checks.simps)
qed

lemmas total_check_at = total_checks[THEN total_checkD]

lemma style_checks_return:
  assumes inside: "aligned cl" "n < cl_num_lines cl"
    and rvalue: "\<exists>rs. CheckRValueReference f cl n s = Some (Inr rs)"
    and c: "c \<in> set (style_checks f cl n s)"
  shows "\<exists>rs. c = Some (Inr rs)"
  using c unfolding style_checks_def list.set insert_iff empty_iff
  by (elim disjE FalseE; hypsubst)
     (simp_all add: rvalue total_check_at[OF inside] split: option.split)

lemma CheckStyle_returns:
  assumes inside: "aligned cl" "n < cl_num_lines cl"
    and guard: "header_guard_line fs root f e (cl_lines_without_raw_strings cl ! n) \<noteq> None"
    and rvalue: "\<exists>rs. CheckRValueReference f cl n s = Some (Inr rs)"
  shows "\<exists>rs. CheckStyle fs root k f cl n e s = Some (Inr rs)"
proof -
  let ?raw = "cl_lines_without_raw_strings cl ! n"
  obtain g where g: "header_guard_line fs root f e ?raw = Some g" using guard by blast
  obtain p i where "GetPreviousNonBlankLine cl n = Inr (p, i)"
    using previous_non_blank_returns[of n "cl_elided cl"] inside by (auto simp: GetPreviousNonBlankLine_def aligned_def)
  then have one: "\<exists>rs. check_one_command f cl n l = Inr rs" for l by (simp add: check_one_command_def)
  show ?thesis
    using inside g one unfolding CheckStyle_def
    by (auto simp del: run_checks.simps intro!: run_checks_returns dest: style_checks_return[OF inside rvalue])
qed

end
