(* ===== verification/References.thy ===== *)
theory References
  imports KeywordChecks
begin

text \<open>
  Non-const references (\<open>cpplint.py\<close>: \<open>_RE_PATTERN_REF_PARAM\<close> and its parts,
  \<open>CheckForNonConstReference\<close>).

  The check looks for reasons not to complain in the order of the source, here as a list of steps that
  either give up or go on with the line, joined with a line above it when a type is split.  The lemmas
  show that it returns on every line of the file.
\<close>

section \<open>Patterns of parameters\<close>

text \<open>\<open>[_a-zA-Z]\<backslash>w*\<close>\<close>

definition RE_PATTERN_IDENT :: regex where
  "RE_PATTERN_IDENT = seqs [RChar (\<lambda>c. c = CHR ''_'' \<or> alpha_char c), RStar wordc]"

text \<open>\<open>(?:const\<backslash>s+)?(?:typename\<backslash>s+|class\<backslash>s+|struct\<backslash>s+|union\<backslash>s+|enum\<backslash>s+)?\<close> and one or more word characters,
  \<open>::\<close>, or templates \<open>\<backslash>s*<(?:<(?:<[^<>]*>|[^<>])*>|[^<>])*>\<close>\<close>

definition RE_PATTERN_TYPE :: regex where
  "RE_PATTERN_TYPE =
     (let plain = RChar (\<lambda>c. \<not> one_of ''<>'' c);
          innermost = seqs [lit ''<'', RStar plain, lit ''>''];
          inner = seqs [lit ''<'', RStar (alts [innermost, plain]), lit ''>'']
      in seqs [ROpt (seqs [lit ''const'', RPlus ws]),
           ROpt (alts [seqs [lit ''typename'', RPlus ws], seqs [lit ''class'', RPlus ws], seqs [lit ''struct'', RPlus ws],
             seqs [lit ''union'', RPlus ws], seqs [lit ''enum'', RPlus ws]]),
           RPlus (alts [wordc, seqs [RStar ws, lit ''<'', RStar (alts [inner, plain]), lit ''>''], lit ''::''])])"

text \<open>A call-by-reference parameter ends with \<open>& identifier\<close>:
  \<open>(TYPE(?:\<backslash>s*(?:\<backslash>bconst\<backslash>b|[*]))*\<backslash>s*&\<backslash>s*IDENT)\<backslash>s*(?:=[^,()]+)?[,)]\<close>\<close>

definition RE_PATTERN_REF_PARAM :: regex where
  "RE_PATTERN_REF_PARAM =
     seqs [RGroup 1 (seqs [RE_PATTERN_TYPE, RStar (seqs [RStar ws, alts [seqs [RWordB, lit ''const'', RWordB], lit ''*'']]),
         RStar ws, lit ''&'', RStar ws, RE_PATTERN_IDENT]),
       RStar ws, ROpt (seqs [lit ''='', RPlus (noneof '',()'')]), oneof '',)'']"

text \<open>\<open>(?:.*\<backslash>s*\<backslash>bconst\<backslash>s*&\<backslash>s*IDENT|const\<backslash>s+TYPE\<backslash>s*&\<backslash>s*IDENT)\<close>\<close>

definition RE_PATTERN_CONST_REF_PARAM :: regex where
  "RE_PATTERN_CONST_REF_PARAM =
     alts [seqs [RStar anyc, RStar ws, RWordB, lit ''const'', RStar ws, lit ''&'', RStar ws, RE_PATTERN_IDENT],
           seqs [lit ''const'', RPlus ws, RE_PATTERN_TYPE, RStar ws, lit ''&'', RStar ws, RE_PATTERN_IDENT]]"

section \<open>Types split over lines\<close>

text \<open>\<open>\<backslash>s*::(?:[\<backslash>w<>]|::)+\<backslash>s*&\<backslash>s*\<backslash>S\<close>\<close>

definition RE_CONTINUED_SCOPE :: regex where
"RE_CONTINUED_SCOPE = seqs [RStar ws, lit ''::'', RPlus (alts [RChar (\<lambda>c. one_of ''<>''
     c \<or> word_char c), lit ''::'']), RStar ws, lit ''&'', RStar ws, nonws]"

text \<open>\<open>\<backslash>b((?:const\<backslash>s*)?(?:[\<backslash>w<>]|::)+[\<backslash>w<>])\<backslash>s*$\<close>\<close>

definition RE_SCOPE_BEFORE :: regex where
"RE_SCOPE_BEFORE = seqs [RWordB, RGroup 1 (seqs [ROpt (seqs [lit ''const'', RStar ws]), RPlus
     (alts [RChar (\<lambda>c. one_of ''<>'' c \<or> word_char c), lit ''::'']), RChar
     (\<lambda>c. one_of ''<>'' c \<or> word_char c)]), RStar ws, REol]"

text \<open>\<open>\<backslash>s*[a-zA-Z_]([\<backslash>w<>]|::)+\<backslash>s*&\<backslash>s*\<backslash>S\<close>\<close>

definition RE_CONTINUED_NAME :: regex where
"RE_CONTINUED_NAME = seqs [RStar ws, RChar (\<lambda>c. one_of ''_'' c \<or> lower_char c \<or>
     upper_char c), RPlus (RGroup 1 (alts [RChar (\<lambda>c. one_of ''<>'' c \<or> word_char
     c), lit ''::''])), RStar ws, lit ''&'', RStar ws, nonws]"

text \<open>\<open>\<backslash>b((?:const\<backslash>s*)?(?:[\<backslash>w<>]|::)+::)\<backslash>s*$\<close>\<close>

definition RE_SCOPE_ENDS :: regex where
"RE_SCOPE_ENDS = seqs [RWordB, RGroup 1 (seqs [ROpt (seqs [lit ''const'', RStar ws]), RPlus
     (alts [RChar (\<lambda>c. one_of ''<>'' c \<or> word_char c), lit ''::'']), lit ''::'']),
     RStar ws, REol]"

text \<open>The line with the line above it when a type name continues.\<close>

definition previous_type :: "cleansed_lines \<Rightarrow> nat \<Rightarrow> string \<Rightarrow> mobj option result" where
  "previous_type clean_lines linenum line =
     (if matches RE_CONTINUED_SCOPE line then res_map (re_search RE_SCOPE_BEFORE) (elided_at clean_lines (int linenum - 1))
      else if matches RE_CONTINUED_NAME line then res_map (re_search RE_SCOPE_ENDS) (elided_at clean_lines (int linenum - 1))
      else Inr None)"

text \<open>The pieces of a template parameter that is split across lines.\<close>

definition split_template :: "cleansed_lines \<Rightarrow> nat \<Rightarrow> string \<Rightarrow> string result" where
  "split_template clean_lines linenum line =
     (case rfind_nat CHR ''>'' line of
        None \<Rightarrow> Inr line
      | Some endpos \<Rightarrow>
          res_bind (ReverseCloseExpression (cl_elided clean_lines) linenum endpos) (\<lambda>(_, startline, startpos).
            if - 1 < startpos \<and> startline < linenum
            then res_map (\<lambda>ls. concat (map (strip uni_space) ls))
                   (res_mapM (\<lambda>i. elided_at clean_lines (int i)) [startline..<linenum + 1])
            else Inr line))"

definition join_type :: "cleansed_lines \<Rightarrow> nat \<Rightarrow> string \<Rightarrow> string result" where
  "join_type clean_lines linenum line =
     (if 1 < linenum
      then res_bind (previous_type clean_lines linenum line) (\<lambda>previous.
             case previous of
               Some m \<Rightarrow> Inr (grp m 1 @ lstrip uni_space line)
             | None \<Rightarrow> split_template clean_lines linenum line)
      else Inr line)"

section \<open>The check\<close>

text \<open>\<open>[),]\<backslash>s*$\<close>\<close>

definition RE_LIST_CONTINUES :: regex where
"RE_LIST_CONTINUES = seqs [oneof ''),'', RStar ws, REol]"

text \<open>\<open>^\<backslash>s*:\<backslash>s+\<backslash>S\<close>\<close>

definition RE_LIST_STARTS :: regex where
"RE_LIST_STARTS = seqs [RBol, RStar ws, lit '':'', RPlus ws, nonws]"

text \<open>\<open>xrange(linenum - 1, max(0, linenum - 10), -1)\<close>\<close>

fun above_is_initializer :: "cleansed_lines \<Rightarrow> nat list \<Rightarrow> bool result" where
  "above_is_initializer clean_lines [] = Inr False"
| "above_is_initializer clean_lines (i # is) =
     res_bind (elided_at clean_lines (int i)) (\<lambda>previous_line.
       if \<not> searches RE_LIST_CONTINUES previous_line then Inr False
       else if matches RE_LIST_STARTS previous_line then Inr True
       else above_is_initializer clean_lines is)"

text \<open>\<open>\<backslash>\<backslash>\<backslash>s*$\<close>\<close>

definition RE_BACKSLASH_END :: regex where
"RE_BACKSLASH_END = seqs [lit [BS], RStar ws, REol]"

text \<open>\<open>(?:[sS]wap(?:<\<backslash>w:+>)?|operator\<backslash>s*[<>][<>]|static_assert|COMPILE_ASSERT)\<backslash>s*\<backslash>(\<close>\<close>

definition RE_WHITELISTED_FUNCTIONS :: regex where
"RE_WHITELISTED_FUNCTIONS = seqs [alts [seqs [oneof ''sS'', lit ''wap'', ROpt (seqs [lit ''<'',
     wordc, RPlus (lit '':''), lit ''>''])], seqs [lit ''operator'', RStar ws, oneof ''<>'',
     oneof ''<>''], lit ''static_assert'', lit ''COMPILE_ASSERT''], RStar ws, lit ''('']"

text \<open>\<open>\<backslash>S+\<backslash>([^)]*$\<close>\<close>

definition RE_FUNCTION_OPEN :: regex where
"RE_FUNCTION_OPEN = seqs [RPlus nonws, lit ''('', RStar (noneof '')''), REol]"

text \<open>No function on the line: the two lines above are looked at as well.\<close>

definition whitelisted :: "cleansed_lines \<Rightarrow> nat \<Rightarrow> string \<Rightarrow> bool result" where
  "whitelisted clean_lines linenum line =
     (if searches RE_WHITELISTED_FUNCTIONS line then Inr True
      else if \<not> searches RE_FUNCTION_OPEN line then
        res_map (\<lambda>above. \<exists>l\<in>set above. searches RE_WHITELISTED_FUNCTIONS l)
          (res_mapM (\<lambda>i. elided_at clean_lines (int linenum - int i - 1)) (filter (\<lambda>i. i < linenum) [0, 1]))
      else Inr False)"

text \<open>\<open>{[^}]*}\<close>\<close>

definition RE_BRACED :: regex where
"RE_BRACED = seqs [lit ''{'', RStar (noneof ''}''), lit ''}'']"

text \<open>\<open> *<\<close>\<close>

definition RE_SPACES_TEMPLATE :: regex where
"RE_SPACES_TEMPLATE = seqs [RStar (lit '' ''), lit ''<'']"

definition report_references :: "string \<Rightarrow> nat \<Rightarrow> string \<Rightarrow> report list" where
  "report_references filename linenum line =
     (let decls = re_sub RE_BRACED '' '' line
      in concat (map (\<lambda>m. let parameter = grp m 1
           in if \<not> matches RE_PATTERN_CONST_REF_PARAM parameter
              then [report filename (int linenum) ''runtime/references'' 2
                      (''Is this a non-const reference? If so, make const or use a pointer: '' @
                       re_sub RE_SPACES_TEMPLATE ''<'' parameter)]
              else [])
         (re_finditer RE_PATTERN_REF_PARAM decls)))"

definition CheckForNonConstReference :: "string \<Rightarrow> cleansed_lines \<Rightarrow> nat \<Rightarrow> nesting \<Rightarrow> check" where
  "CheckForNonConstReference filename clean_lines linenum nesting_state =
     res_bind (elided_at clean_lines (int linenum)) (\<lambda>line.
     if CHR ''&'' \<notin> set line then Inr []
     else res_bind (IsDerivedFunction clean_lines linenum) (\<lambda>derived.
     if derived then Inr []
     else res_bind (IsOutOfLineMethodDefinition clean_lines linenum) (\<lambda>out_of_line.
     if out_of_line then Inr []
     else res_bind (join_type clean_lines linenum line) (\<lambda>line.
     if (case previous_stack_top nesting_state of None \<Rightarrow> False
         | Some b \<Rightarrow> \<not> (is_class (kind b) \<or> is_namespace (kind b))) then Inr []
     else res_bind (above_is_initializer clean_lines (rev [linenum - 10 + 1..<linenum])) (\<lambda>initializer.
     if initializer then Inr []
     else if searches RE_BACKSLASH_END line then Inr []
     else res_bind (IsInitializerList clean_lines linenum) (\<lambda>initializer.
     if initializer then Inr []
     else res_map (\<lambda>white. if white then [] else report_references filename linenum line)
            (whitelisted clean_lines linenum line)))))))"

section \<open>Lemmas\<close>

lemma join_type_returns:
  assumes inside: "aligned cl" "n < cl_num_lines cl"
  shows "returns (join_type cl n (cl_elided cl ! n))"
proof -
  let ?line = "cl_elided cl ! n"
  obtain l where above: "elided_at cl (int n - 1) = Inr l" using elided_before[OF inside] by blast
  have "returns (split_template cl n ?line)"
  proof (cases "rfind_nat CHR ''>'' ?line")
    case None
    then show ?thesis by (simp add: split_template_def)
  next
    case (Some p)
    then have p: "p < length ?line" using rfind_nat_Some by blast
    then obtain l k q where r: "ReverseCloseExpression (cl_elided cl) n p = Inr (l, k, q)"
      using ReverseCloseExpression_returns[of n "cl_elided cl" p] inside by (auto simp: aligned_def)
    have "res_mapM (\<lambda>i. elided_at cl (int i)) [k..<n + 1] = Inr (map (\<lambda>i. cl_elided cl ! i) [k..<n + 1])"
      using inside by (intro res_mapM_total) auto
    with Some r show ?thesis by (simp add: split_template_def del: upt_Suc)
  qed
  then show ?thesis using above by (simp add: join_type_def previous_type_def)
qed

lemma above_is_initializer_returns:
  "aligned cl \<Longrightarrow> \<forall>i\<in>set is. i < cl_num_lines cl \<Longrightarrow> \<exists>b. above_is_initializer cl is = Inr b"
  by (induction "is") auto

lemma whitelisted_returns:
  assumes "aligned cl" "n < cl_num_lines cl"
  shows "\<exists>b. whitelisted cl n l = Inr b"
proof -
  have "elided_at cl (int n - int i - 1) = Inr (cl_elided cl ! (n - Suc i))" if "i < n" for i
    using that elided_at_minus[OF assms, of "Suc i"] by (simp add: algebra_simps)
  then have "res_mapM (\<lambda>i. elided_at cl (int n - int i - 1)) (filter (\<lambda>i. i < n) [0, 1]) =
      Inr (map (\<lambda>i. cl_elided cl ! (n - Suc i)) (filter (\<lambda>i. i < n) [0, 1]))"
    by (intro res_mapM_total) (simp only: set_filter mem_Collect_eq)
  then have "returns (whitelisted cl n l)" unfolding whitelisted_def by (simp only: returns_splits returns.simps returns_map simp_thms)
  then show ?thesis by (simp add: returns_iff)
qed

lemma total_references [total_checks]: "total_check (\<lambda>cl n. CheckForNonConstReference f cl n s)"
  unfolding total_check_returns
proof (intro allI impI)
  fix cl n assume inside: "aligned cl" "n < cl_num_lines cl"
  obtain a b c l d where
    "IsDerivedFunction cl n = Inr a" "IsOutOfLineMethodDefinition cl n = Inr b" "IsInitializerList cl n = Inr c"
    "join_type cl n (cl_elided cl ! n) = Inr l" "above_is_initializer cl (rev [n - 10 + 1..<n]) = Inr d"
    using line_predicates_return[OF inside] join_type_returns[OF inside] above_is_initializer_returns[of cl "rev [n - 10 + 1..<n]"] inside
    by (auto simp: returns_iff)
  moreover obtain w where "whitelisted cl n l = Inr w" using whitelisted_returns[OF inside] by blast
  ultimately show "returns (CheckForNonConstReference f cl n s)"
    using inside by (simp add: CheckForNonConstReference_def)
qed

lemma listed_report_references [simp]: "listed f (report_references f n l)"
  by (auto simp: report_references_def Let_def)

lemma listed_references [listed_intros]: "listedR f (CheckForNonConstReference f cl n s)"
  unfolding CheckForNonConstReference_def
  by (rule listed_intros conjI allI impI | simp)+

section \<open>The contract\<close>

interpretation reference_parameters: line_check "\<lambda>f cl n. CheckForNonConstReference f cl n s" for s
  by (rule line_checkI) (rule listed_intros total_checks)+

end
