(* ===== verification/Constructors.thy ===== *)
theory Constructors
  imports CheckBase
begin

text \<open>
  Non-standard constructs and constructors (\<open>cpplint.py\<close>: \<open>CheckForNonStandardConstructs\<close>).

  The loop that puts the arguments of a constructor together again after \<open>split(',')\<close> is
  \<open>collapse_args\<close>.  The lemmas show that it keeps the text, that what it returns are balanced arguments,
  and when it runs over the end of the list: a comparison in a default argument is enough.
\<close>

section \<open>Constructs of old compilers\<close>

text \<open>\<open>printf\<backslash>s*\<backslash>(.*".*%[-+ ]?\<backslash>d*q\<close>\<close>

definition RE_PRINTF_Q :: regex where
"RE_PRINTF_Q = seqs [lit ''printf'', RStar ws, lit ''('', RStar anyc, lit [DQ], RStar anyc, lit
     ''%'', ROpt (oneof ''-+ ''), RStar digit, lit ''q'']"

text \<open>\<open>printf\<backslash>s*\<backslash>(.*".*%\<backslash>d+\<backslash>$\<close>\<close>

definition RE_PRINTF_N :: regex where
"RE_PRINTF_N = seqs [lit ''printf'', RStar ws, lit ''('', RStar anyc, lit [DQ], RStar anyc, lit
     ''%'', RPlus digit, lit ''$'']"

text \<open>\<open>("|\<backslash>').*\<backslash>\<backslash>(%|\<backslash>[|\<backslash>(|{)\<close>\<close>

definition RE_BAD_ESCAPE :: regex where
"RE_BAD_ESCAPE = seqs [RGroup 1 (alts [lit [DQ], lit [SQ]]), RStar anyc, lit [BS], RGroup 2
     (alts [lit ''%'', lit ''['', lit ''('', lit ''{''])]"

text \<open>\<open>\<backslash>b(const|volatile|void|char|short|int|long|float|double|signed|unsigned|schar|u?int8|u?int16|u?int32|u?int64)\<backslash>s+(register|static|extern|typedef)\<backslash>b\<close>\<close>

definition RE_STORAGE_CLASS :: regex where
"RE_STORAGE_CLASS = seqs [RWordB, RGroup 1 (alts [lit ''const'', lit ''volatile'', lit ''void'',
     lit ''char'', lit ''short'', lit ''int'', lit ''long'', lit ''float'', lit ''double'', lit
     ''signed'', lit ''unsigned'', lit ''schar'', seqs [ROpt (lit ''u''), lit ''int8''], seqs
     [ROpt (lit ''u''), lit ''int16''], seqs [ROpt (lit ''u''), lit ''int32''], seqs [ROpt (lit
     ''u''), lit ''int64'']]), RPlus ws, RGroup 2 (alts [lit ''register'', lit ''static'', lit
     ''extern'', lit ''typedef'']), RWordB]"

text \<open>\<open>\<backslash>s*#\<backslash>s*endif\<backslash>s*[^/\<backslash>s]+\<close>\<close>

definition RE_ENDIF_TEXT :: regex where
"RE_ENDIF_TEXT = seqs [RStar ws, lit ''#'', RStar ws, lit ''endif'', RStar ws, RPlus (RChar
     (\<lambda>c. \<not> (one_of ''/'' c \<or> ascii_space c)))]"

text \<open>\<open>\<backslash>s*class\<backslash>s+(\<backslash>w+\<backslash>s*::\<backslash>s*)+\<backslash>w+\<backslash>s*;\<close>\<close>

definition RE_INNER_FORWARD :: regex where
"RE_INNER_FORWARD = seqs [RStar ws, lit ''class'', RPlus ws, RPlus (RGroup 1 (seqs [RPlus wordc,
     RStar ws, lit ''::'', RStar ws])), RPlus wordc, RStar ws, lit '';'']"

text \<open>\<open>(\<backslash>w+|[+-]?\<backslash>d+(\<backslash>.\<backslash>d*)?)\<backslash>s*(<|>)\<backslash>?=?\<backslash>s*(\<backslash>w+|[+-]?\<backslash>d+)(\<backslash>.\<backslash>d*)?\<close>\<close>

definition RE_MIN_MAX :: regex where
"RE_MIN_MAX = seqs [RGroup 1 (alts [RPlus wordc, seqs [ROpt (oneof ''+-''), RPlus digit, ROpt
     (RGroup 2 (seqs [lit ''.'', RStar digit]))]]), RStar ws, RGroup 3 (alts [lit ''<'', lit
     ''>'']), lit ''?'', ROpt (lit ''=''), RStar ws, RGroup 4 (alts [RPlus wordc, seqs [ROpt
     (oneof ''+-''), RPlus digit]]), ROpt (RGroup 5 (seqs [lit ''.'', RStar digit]))]"

text \<open>\<open>^\<backslash>s*const\<backslash>s*string\<backslash>s*&\<backslash>s*\<backslash>w+\<backslash>s*;\<close>\<close>

definition RE_STRING_MEMBER :: regex where
"RE_STRING_MEMBER = seqs [RBol, RStar ws, lit ''const'', RStar ws, lit ''string'', RStar ws, lit
     ''&'', RStar ws, RPlus wordc, RStar ws, lit '';'']"

definition check_formats :: "string \<Rightarrow> nat \<Rightarrow> string \<Rightarrow> report list" where
  "check_formats filename linenum line =
     (if searches RE_PRINTF_Q line
      then [report filename (int linenum) ''runtime/printf_format'' 3
              ''%q in format strings is deprecated.  Use %ll instead.'']
      else []) @
     (if searches RE_PRINTF_N line
      then [report filename (int linenum) ''runtime/printf_format'' 2
              ''%N$ formats are unconventional.  Try rewriting to avoid them.'']
      else []) @
     (if searches RE_BAD_ESCAPE (py_replace [BS, BS] [] line)
      then [report filename (int linenum) ''build/printf_format'' 3
              ''%, [, (, and { are undefined character escapes.  Unescape them.'']
      else [])"

definition check_old_constructs :: "string \<Rightarrow> nat \<Rightarrow> string \<Rightarrow> report list" where
  "check_old_constructs filename linenum line =
     (if searches RE_STORAGE_CLASS line
      then [report filename (int linenum) ''build/storage_class'' 5
              ''Storage class (static, extern, typedef, etc) should be first.'']
      else []) @
     (if matches RE_ENDIF_TEXT line
      then [report filename (int linenum) ''build/endif_comment'' 5
              ''Uncommented text after #endif is non-standard.  Use a comment.'']
      else []) @
     (if matches RE_INNER_FORWARD line
      then [report filename (int linenum) ''build/forward_decl'' 5
              ''Inner-style forward declarations are invalid.  Remove this line.'']
      else []) @
     (if searches RE_MIN_MAX line
      then [report filename (int linenum) ''build/deprecated'' 3
              ''>? and <? (max and min) operators are non-standard and deprecated.'']
      else []) @
     (if searches RE_STRING_MEMBER line
      then [report filename (int linenum) ''runtime/member_string_references'' 2 (''const string& members are dangerous. It is much better to use alternatives, '' @
      ''such as pointers or simple constants.'')]
      else [])"

section \<open>Constructor arguments\<close>

text \<open>\<open>\<backslash>s+(?:inline\<backslash>s+)?(explicit\<backslash>s+)?(?:inline\<backslash>s+)?NAME\<backslash>s*\<backslash>(((?:[^()]|\<backslash>([^()]*\<backslash>))*)\<backslash>)\<close>; the name is escaped and
  stands for itself.\<close>

definition RE_CONSTRUCTOR :: "string \<Rightarrow> regex" where
  "RE_CONSTRUCTOR base_classname =
     seqs [RPlus ws, ROpt (seqs [lit ''inline'', RPlus ws]), ROpt (RGroup 1 (seqs [lit ''explicit'', RPlus ws])),
       ROpt (seqs [lit ''inline'', RPlus ws]), lit base_classname, RStar ws, lit ''('',
       RGroup 2 (RStar (alts [noneof ''()'', seqs [lit ''('', RStar (noneof ''()''), lit '')'']])), lit '')'']"

definition unbalanced_arg :: "string \<Rightarrow> bool" where
  "unbalanced_arg a \<longleftrightarrow> py_count ''>'' a < py_count ''<'' a \<or> py_count '')'' a < py_count ''('' a"

text \<open>The two nested \<open>while\<close> loops: an argument and what is behind it in the list.\<close>

fun collapse_args :: "string \<Rightarrow> string list \<Rightarrow> string list result" where
  "collapse_args constructor_arg [] = (if unbalanced_arg constructor_arg then Inl IndexError else Inr [constructor_arg])"
| "collapse_args constructor_arg (a # args) =
     (if unbalanced_arg constructor_arg then collapse_args (constructor_arg @ '','' @ a) args
      else res_map (\<lambda>as. constructor_arg # as) (collapse_args a args))"

definition constructor_args :: "string \<Rightarrow> string list result" where
  "constructor_args arguments =
     (case (if arguments = [] then [] else split_char CHR '','' arguments) of
        [] \<Rightarrow> Inr []
      | a # args \<Rightarrow> collapse_args a args)"

definition noarg_constructor :: "string list \<Rightarrow> bool" where
  "noarg_constructor args \<longleftrightarrow> args = [] \<or> (length args = 1 \<and> strip uni_space (hd args) = ''void'')"

definition defaulted_args :: "string list \<Rightarrow> string list" where
  "defaulted_args args = filter (\<lambda>arg. CHR ''='' \<in> set arg) args"

definition onearg_constructor :: "string list \<Rightarrow> bool" where
  "onearg_constructor args \<longleftrightarrow>
     (length args = 1 \<and> \<not> noarg_constructor args) \<or>
     (1 \<le> length args \<and> \<not> noarg_constructor args \<and> int (length args) - 1 \<le> int (length (defaulted_args args)))"

text \<open>\<open>\<backslash>bstd\<backslash>s*::\<backslash>s*initializer_list\<backslash>b\<close>\<close>

definition RE_INITIALIZER_LIST_ARG :: regex where
"RE_INITIALIZER_LIST_ARG = seqs [RWordB, lit ''std'', RStar ws, lit ''::'', RStar ws, lit
     ''initializer_list'', RWordB]"

text \<open>\<open>(const\<backslash>s+)?NAME(\<backslash>s*<[^>]*>)?(\<backslash>s+const)?\<backslash>s*(?:<\<backslash>w+>\<backslash>s*)?&\<close>\<close>

definition RE_COPY_ARG :: "string \<Rightarrow> regex" where
  "RE_COPY_ARG base_classname =
     seqs [ROpt (RGroup 1 (seqs [lit ''const'', RPlus ws])), lit base_classname,
       ROpt (RGroup 2 (seqs [RStar ws, lit ''<'', RStar (noneof ''>''), lit ''>''])),
       ROpt (RGroup 3 (seqs [RPlus ws, lit ''const''])), RStar ws,
       ROpt (seqs [lit ''<'', RPlus wordc, lit ''>'', RStar ws]), lit ''&'']"

definition check_explicit :: "string \<Rightarrow> nat \<Rightarrow> string \<Rightarrow> bool \<Rightarrow> string list \<Rightarrow> report list" where
  "check_explicit filename linenum base_classname is_marked_explicit args =
     (let onearg = onearg_constructor args;
          initializer_list_constructor = (onearg \<and> searches RE_INITIALIZER_LIST_ARG (hd args));
          copy_constructor = (onearg \<and> matches (RE_COPY_ARG base_classname) (strip uni_space (hd args)));
          rep = (\<lambda>k msg. [report filename (int linenum) ''runtime/explicit'' k msg])
      in if \<not> is_marked_explicit \<and> onearg \<and> \<not> initializer_list_constructor \<and> \<not> copy_constructor then
           (if defaulted_args args \<noteq> []
            then rep 5 ''Constructors callable with one argument should be marked explicit.''
            else rep 5 ''Single-parameter constructors should be marked explicit.'')
         else if is_marked_explicit \<and> \<not> onearg then
           (if noarg_constructor args
            then rep 5 ''Zero-parameter constructors should not be marked explicit.''
            else rep 0 ''Constructors that require multiple arguments should not be marked explicit.'')
         else [])"

text \<open>The innermost class on the stack, with its block, and the last part of its name.\<close>

fun innermost_class_block :: "block list \<Rightarrow> (block \<times> class_info) option" where
  "innermost_class_block [] = None"
| "innermost_class_block (b # bs) = (case kind b of Class ci \<Rightarrow> Some (b, ci) | _ \<Rightarrow> innermost_class_block bs)"

lemma InnermostClass_block: "InnermostClass s = map_option snd (innermost_class_block (stack_of s))"
proof -
  have "innermost_class bs = map_option snd (innermost_class_block bs)" for bs
    by (induction bs) (auto split: block_kind.split)
  then show ?thesis by (simp add: InnermostClass_def)
qed

text \<open>\<open>classinfo.name.split('::')[-1]\<close>: what follows the last \<open>::\<close>.\<close>

function after_last_scope :: "string \<Rightarrow> string" where
  "after_last_scope name =
     (case find_nat ''::'' name of None \<Rightarrow> name | Some i \<Rightarrow> after_last_scope (drop (i + 2) name))"
  by pat_completeness auto
termination
  by (relation "measure length") (auto dest: find_nat_Some)

declare after_last_scope.simps [simp del]

definition check_constructor :: "string \<Rightarrow> nat \<Rightarrow> string \<Rightarrow> class_info \<Rightarrow> check" where
  "check_constructor filename linenum line classinfo =
     (let base_classname = after_last_scope (ci_name classinfo)
      in case re_match (RE_CONSTRUCTOR base_classname) line of
           None \<Rightarrow> Inr []
         | Some m \<Rightarrow> res_map (check_explicit filename linenum base_classname (grp m 1 \<noteq> [])) (constructor_args (grp m 2)))"

definition CheckForNonStandardConstructs :: "string \<Rightarrow> cleansed_lines \<Rightarrow> nat \<Rightarrow> nesting \<Rightarrow> check" where
  "CheckForNonStandardConstructs filename clean_lines linenum nesting_state =
     res_bind (line_at clean_lines (int linenum)) (\<lambda>line.
     res_bind (elided_at clean_lines (int linenum)) (\<lambda>elided.
     res_map (\<lambda>constructor. check_formats filename linenum line @ check_old_constructs filename linenum elided @ constructor)
       (case innermost_class_block (stack_of nesting_state) of
          None \<Rightarrow> Inr []
        | Some (b, classinfo) \<Rightarrow>
            if \<not> seen_open_brace b then Inr [] else check_constructor filename linenum elided classinfo)))"

section \<open>Lemmas\<close>

lemma collapse_args_not_Nil: "collapse_args a as \<noteq> Inr []"
  by (induction a as rule: collapse_args.induct) auto

text \<open>Putting arguments together again keeps the text, and every argument has at least as many closing as
  opening brackets.\<close>

lemma collapse_args_sound:
  "res_all (\<lambda>out. join_char CHR '','' out = join_char CHR '','' (a # args) \<and> list_all (\<lambda>b. \<not> unbalanced_arg b) out)
     (collapse_args a args)"
proof (induction a args rule: collapse_args.induct)
  case (1 a)
  then show ?case by simp
next
  case (2 a b args)
  have join: "join_char CHR '','' ((a @ '','' @ b) # args) = join_char CHR '','' (a # b # args)"
    by (cases args) auto
  show ?case
  proof (cases "unbalanced_arg a")
    case True
    with 2(1)[OF True] join show ?thesis by simp
  next
    case False
    show ?thesis
    proof (cases "collapse_args b args")
      case (Inr out)
      with collapse_args_not_Nil[of b args] obtain o1 out' where "out = o1 # out'" by (cases out) auto
      with 2(2)[OF False] False Inr show ?thesis by simp
    qed (use False in simp)
  qed
qed

lemma res_map_Inl: "res_map g r = Inl e \<longleftrightarrow> r = Inl e"
  by (cases r) auto

lemma py_count_join: "c \<noteq> sep \<Longrightarrow> py_count [c] (join_char sep ps) = sum_list (map (py_count [c]) ps)"
  by (induction sep ps rule: join_char.induct) (simp_all add: py_count_single del: py_count.simps)

lemma balanced_join: "list_all (\<lambda>b. \<not> unbalanced_arg b) out \<Longrightarrow> \<not> unbalanced_arg (join_char CHR '','' out)"
  unfolding unbalanced_arg_def
  by (induction out) (auto simp: py_count_join simp del: py_count.simps(2))

text \<open>C29. When the arguments of a constructor have more opening than closing brackets, as with a
  comparison in a default argument, the source reads behind the end of its list of arguments.\<close>

theorem constructor_args_raises:
  assumes "unbalanced_arg arguments"
  shows "constructor_args arguments = Inl IndexError"
proof -
  have "arguments \<noteq> []" using assms by (auto simp: unbalanced_arg_def)
  obtain a args where split: "split_char CHR '','' arguments = a # args" by (cases "split_char CHR '','' arguments") auto
  have join: "join_char CHR '','' (a # args) = arguments" using join_split_char[of "CHR '',''" arguments] split by simp
  show ?thesis
  proof (cases "collapse_args a args")
    case (Inl e)
    moreover have "collapse_args a args = Inl e \<Longrightarrow> e = IndexError" for a args
      by (induction a args rule: collapse_args.induct) (auto simp: res_map_Inl split: if_splits)
    ultimately show ?thesis using split \<open>arguments \<noteq> []\<close> by (simp add: constructor_args_def)
  next
    case (Inr out)
    from res_allD[OF collapse_args_sound Inr] assms join have False
      using balanced_join[of out] by auto
    then show ?thesis ..
  qed
qed

theorem constructor_args_raises_witness: "constructor_args ''int x = a < b'' = Inl IndexError"
  by (rule constructor_args_raises) code_simp


text \<open>A comparison in a default argument, met inside a class.\<close>

lemma comparison_in_default_argument:
  "CheckForNonStandardConstructs ''a.h'' (plain_lines [''class Foo {'', '' explicit Foo(bool x = a < b);'', ''};'']) 1
     (init_nesting\<lparr>stack_of := [(new_BlockInfo 0 True)\<lparr>kind := Class \<lparr>ci_name = ''Foo'', ci_starting_linenum = 0,
        ci_is_derived = False, ci_access = ''private'', ci_is_struct = False, ci_class_indent = 0, ci_last_line = 2\<rparr>\<rparr>]\<rparr>)
   = Inl IndexError"
  by code_simp

lemma listed_constructor_parts [listed_intros, simp]:
  "listed f (check_formats f n l)"
  "listed f (check_old_constructs f n l)"
  "listed f (check_explicit f n c b args)"
  by (simp_all add: check_formats_def check_old_constructs_def check_explicit_def Let_def)

lemma listed_check_constructor [listed_intros]: "listedR f (check_constructor f n l ci)"
  unfolding check_constructor_def Let_def by (rule listed_intros conjI allI impI | simp)+

lemma listed_constructs [listed_intros]: "listedR f (CheckForNonStandardConstructs f cl n s)"
  unfolding CheckForNonStandardConstructs_def
  by (rule listed_acc listed_intros conjI allI impI | simp)+

text \<open>The arguments are the only thing that can raise.\<close>

lemma CheckForNonStandardConstructs_returns:
  assumes "aligned cl" "n < cl_num_lines cl"
    and "\<And>b ci m. innermost_class_block (stack_of s) = Some (b, ci) \<Longrightarrow>
      re_match (RE_CONSTRUCTOR (after_last_scope (ci_name ci))) (cl_elided cl ! n) = Some m \<Longrightarrow>
      returns (constructor_args (grp m 2))"
  shows "returns (CheckForNonStandardConstructs f cl n s)"
  using assms by (simp add: CheckForNonStandardConstructs_def check_constructor_def Let_def)

section \<open>The contract\<close>

text \<open>Lines on which the arguments of every constructor can be found.\<close>

definition constructors_safe :: "cleansed_lines \<Rightarrow> nat \<Rightarrow> bool" where
  "constructors_safe cl n \<longleftrightarrow>
     (\<forall>name m. re_match (RE_CONSTRUCTOR name) (cl_elided cl ! n) = Some m \<longrightarrow> returns (constructor_args (grp m 2)))"

interpretation constructs: partial_check "\<lambda>f cl n. CheckForNonStandardConstructs f cl n s" constructors_safe for s
  by unfold_locales (auto simp: constructors_safe_def intro: listed_constructs CheckForNonStandardConstructs_returns)

end
