(* ===== verification/Casts.thy ===== *)
theory Casts
  imports KeywordChecks
begin

text \<open>
  Casts (\<open>cpplint.py\<close>: \<open>CheckCStyleCast\<close>, \<open>CheckCasts\<close>).

  \<open>CheckCStyleCast\<close> returns whether it reported something, which decides whether \<open>CheckCasts\<close> looks for
  another kind of cast.  The lemmas show that it reports at most once, that its answer says whether it
  did, and where \<open>CheckCasts\<close> raises: when the type of a cast whose address is taken ends its line, the
  source reads the character behind the end.
\<close>

section \<open>C style casts\<close>

text \<open>\<open>match.start(k)\<close>\<close>

definition group_start :: "mobj \<Rightarrow> nat \<Rightarrow> int" where
  "group_start m k = (case map_of (mo_caps m) k of Some (b, e) \<Rightarrow> int b | None \<Rightarrow> - 1)"

text \<open>\<open>.*\<backslash>b(?:sizeof|alignof|alignas|[_A-Z][_A-Z0-9]*)\<backslash>s*$\<close>\<close>

definition RE_LOOKS_LIKE_CAST :: regex where
"RE_LOOKS_LIKE_CAST = seqs [RStar anyc, RWordB, alts [lit ''sizeof'', lit ''alignof'', lit
     ''alignas'', seqs [RChar (\<lambda>c. one_of ''_'' c \<or> upper_char c), RStar (RChar
     (\<lambda>c. one_of ''_'' c \<or> upper_char c \<or> digit_char c))]], RStar ws, REol]"

text \<open>\<open>.*\<backslash>b[_A-Z][_A-Z0-9]*\<backslash>s*\<backslash>((?:\<backslash>([^()]*\<backslash>)|[^()])*$\<close>\<close>

definition RE_INSIDE_MACRO :: regex where
"RE_INSIDE_MACRO = seqs [RStar anyc, RWordB, RChar (\<lambda>c. one_of ''_'' c \<or> upper_char
     c), RStar (RChar (\<lambda>c. one_of ''_'' c \<or> upper_char c \<or> digit_char c)), RStar
     ws, lit ''('', RStar (alts [seqs [lit ''('', RStar (noneof ''()''), lit '')''], noneof
     ''()'']), REol]"

text \<open>\<open>^\<backslash>s*(?:;|const\<backslash>b|throw\<backslash>b|final\<backslash>b|override\<backslash>b|[=>{),]|->)\<close>\<close>

definition RE_UNNAMED_PARAMETER :: regex where
"RE_UNNAMED_PARAMETER = seqs [RBol, RStar ws, alts [lit '';'', seqs [lit ''const'', RWordB],
     seqs [lit ''throw'', RWordB], seqs [lit ''final'', RWordB], seqs [lit ''override'',
     RWordB], oneof ''=>{),'', lit ''->'']]"

text \<open>\<open>^\<backslash>s*>\<close>\<close>

definition RE_TEMPLATE_END :: regex where
"RE_TEMPLATE_END = seqs [RBol, RStar ws, lit ''>'']"

text \<open>\<open>^\<backslash>s=\<backslash>s*(\<backslash>S+)\<backslash>s*;\<close>\<close>

definition RE_ASSIGNED_VALUE :: regex where
"RE_ASSIGNED_VALUE = seqs [RBol, ws, lit ''='', RStar ws, RGroup 1 (RPlus nonws), RStar ws, lit
     '';'']"

text \<open>\<open>.*\<backslash>)\<backslash>s*$\<close>\<close>

definition RE_AFTER_PARENS :: regex where
"RE_AFTER_PARENS = seqs [RStar anyc, lit '')'', RStar ws, REol]"

text \<open>\<open>for i in xrange(linenum - 1, max(0, linenum - 5), -1): context = elided[i] + context\<close>\<close>

definition expand_context :: "cleansed_lines \<Rightarrow> nat \<Rightarrow> string \<Rightarrow> string result" where
  "expand_context clean_lines linenum context =
     res_map (\<lambda>ls. concat ls @ context)
       (res_mapM (\<lambda>i. elided_at clean_lines (int i)) [linenum - 5 + 1..<linenum])"

text \<open>An unnamed parameter is reported unless one of the exceptions applies.\<close>

definition check_unnamed_parameter :: "string \<Rightarrow> nat \<Rightarrow> string \<Rightarrow> string \<Rightarrow> string \<Rightarrow> report list \<times> bool" where
  "check_unnamed_parameter filename linenum before remainder raw =
     (if matches RE_TEMPLATE_END remainder then ([], False)
      else if (case re_match RE_ASSIGNED_VALUE remainder of Some m \<Rightarrow> grp m 1 \<noteq> ''0'' | None \<Rightarrow> False) then ([], False)
      else if matches RE_AFTER_PARENS before then ([], False)
      else if contains raw ''/*'' then ([], False)
      else ([report filename (int linenum) ''readability/function'' 3
               ''All parameters should be named in a function''], True))"

definition CheckCStyleCast ::
  "string \<Rightarrow> cleansed_lines \<Rightarrow> nat \<Rightarrow> string \<Rightarrow> regex \<Rightarrow> (report list \<times> bool) result" where
  "CheckCStyleCast filename clean_lines linenum cast_type pattern =
     res_bind (elided_at clean_lines (int linenum)) (\<lambda>line.
       case re_search pattern line of
         None \<Rightarrow> Inr ([], False)
       | Some match \<Rightarrow>
           (let context = py_slice line 0 (group_start match 1 - 1)
            in if matches RE_LOOKS_LIKE_CAST context then Inr ([], False)
               else res_bind (expand_context clean_lines linenum context) (\<lambda>context.
                 if matches RE_INSIDE_MACRO context then Inr ([], False)
                 else if endswith context '' operator++'' \<or> endswith context '' operator--'' then Inr ([], False)
                 else
                   (let remainder = drop (mo_end match) line
                    in if matches RE_UNNAMED_PARAMETER remainder
                       then res_map (check_unnamed_parameter filename linenum (take (mo_start match) line) remainder)
                              (raw_at clean_lines (int linenum))
                       else Inr ([report filename (int linenum) ''readability/casting'' 4
                                    (''Using C-style cast.  Use '' @ cast_type @ ''<'' @ grp match 1 @ ''>(...) instead'')],
                                 True)))))"

section \<open>All casts\<close>

text \<open>\<open>(\<backslash>bnew\<backslash>s+|\<backslash>S<\<backslash>s*(?:const\<backslash>s+)?)?\<backslash>b(int|float|double|bool|char|int32|uint32|int64|uint64)(\<backslash>([^)].*)\<close>\<close>

definition RE_FUNCTION_CAST :: regex where
"RE_FUNCTION_CAST = seqs [ROpt (RGroup 1 (alts [seqs [RWordB, lit ''new'', RPlus ws], seqs
     [nonws, lit ''<'', RStar ws, ROpt (seqs [lit ''const'', RPlus ws])]])), RWordB, RGroup 2
     (alts [lit ''int'', lit ''float'', lit ''double'', lit ''bool'', lit ''char'', lit
     ''int32'', lit ''uint32'', lit ''int64'', lit ''uint64'']), RGroup 3 (seqs [lit ''('',
     noneof '')'', RStar anyc])]"

text \<open>\<open>\<backslash>([^()]+\<backslash>)\<backslash>s*\<backslash>[\<close>\<close>

definition RE_ARRAY_AFTER :: regex where
"RE_ARRAY_AFTER = seqs [lit ''('', RPlus (noneof ''()''), lit '')'', RStar ws, lit ''['']"

text \<open>\<open>\<backslash>((?:[^() ]+::\<backslash>s*\<backslash>*\<backslash>s*)?[^() ]+\<backslash>)\<backslash>s*\<backslash>(\<close>\<close>

definition RE_FUNCTION_POINTER_CAST :: regex where
"RE_FUNCTION_POINTER_CAST = seqs [lit ''('', ROpt (seqs [RPlus (noneof ''() ''), lit ''::'',
     RStar ws, lit ''*'', RStar ws]), RPlus (noneof ''() ''), lit '')'', RStar ws, lit ''('']"

text \<open>\<open>\<backslash>s*using\<backslash>s+\<backslash>S+\<backslash>s*=\<backslash>s*\<close> followed by the type, and \<open>new\<backslash>(\<backslash>S+\<backslash>)\<backslash>s*\<close> followed by the type; a type is
  a word, which stands for itself in a pattern.\<close>

definition RE_USING_TYPE :: "string \<Rightarrow> regex" where
  "RE_USING_TYPE matched_type = seqs [RStar ws, lit ''using'', RPlus ws, RPlus nonws, RStar ws, lit ''='', RStar ws,
     lit matched_type]"

definition RE_PLACEMENT_NEW :: "string \<Rightarrow> regex" where
  "RE_PLACEMENT_NEW matched_type = seqs [lit ''new('', RPlus nonws, lit '')'', RStar ws, lit matched_type]"

text \<open>\<open>\<backslash>((int|float|double|bool|char|u?int(16|32|64))\<backslash>)\<close>\<close>

definition RE_BASIC_CAST :: regex where
"RE_BASIC_CAST = seqs [lit ''('', RGroup 1 (alts [lit ''int'', lit ''float'', lit ''double'',
     lit ''bool'', lit ''char'', seqs [ROpt (lit ''u''), lit ''int'', RGroup 2 (alts [lit
     ''16'', lit ''32'', lit ''64''])]]), lit '')'']"

text \<open>\<open>\<backslash>((char\<backslash>s?\<backslash>*+\<backslash>s?)\<backslash>)\<backslash>s*"\<close>\<close>

definition RE_STRING_CAST :: regex where
"RE_STRING_CAST = seqs [lit ''('', RGroup 1 (seqs [lit ''char'', ROpt ws, RPlus (lit ''*''),
     ROpt ws]), lit '')'', RStar ws, lit [DQ]]"

text \<open>\<open>\<backslash>((\<backslash>w+\<backslash>s?\<backslash>*+\<backslash>s?)\<backslash>)\<close>\<close>

definition RE_POINTER_CAST :: regex where
"RE_POINTER_CAST = seqs [lit ''('', RGroup 1 (seqs [RPlus wordc, ROpt ws, RPlus (lit ''*''),
     ROpt ws]), lit '')'']"

text \<open>\<open>(?:[^\<backslash>w]&\<backslash>(([^)*][^)]*)\<backslash>)[\<backslash>w(])|(?:[^\<backslash>w]&(static|dynamic|down|reinterpret)_cast\<backslash>b)\<close>\<close>

definition RE_ADDRESS_OF_CAST :: regex where
"RE_ADDRESS_OF_CAST = alts [seqs [RChar (\<lambda>c. \<not> (word_char c)), lit ''&('', RGroup 1
     (seqs [noneof '')*'', RStar (noneof '')'')]), lit '')'', RChar (\<lambda>c. one_of ''('' c
     \<or> word_char c)], seqs [RChar (\<lambda>c. \<not> (word_char c)), lit ''&'', RGroup 2
     (alts [lit ''static'', lit ''dynamic'', lit ''down'', lit ''reinterpret'']), lit ''_cast'',
     RWordB]]"

text \<open>\<open>^(.*&(?:static|dynamic|down|reinterpret)_cast\<backslash>b)<\<close>\<close>

definition RE_NAMED_CAST :: regex where
"RE_NAMED_CAST = seqs [RBol, RGroup 1 (seqs [RStar anyc, lit ''&'', alts [lit ''static'', lit
     ''dynamic'', lit ''down'', lit ''reinterpret''], lit ''_cast'', RWordB]), lit ''<'']"

text \<open>\<open>\<backslash>s*(?:->|\<backslash>[)\<close>\<close>

definition RE_DEREFERENCED :: regex where
"RE_DEREFERENCED = seqs [RStar ws, alts [lit ''->'', lit ''['']]"

text \<open>\<open>new_or_template is None and not (...) and not ... and not ...\<close>\<close>

definition deprecated_cast :: "string \<Rightarrow> mobj \<Rightarrow> bool" where
  "deprecated_cast line match \<longleftrightarrow>
     mgroup match 1 = None \<and>
     \<not> (grp match 3 \<noteq> [] \<and> (matches RE_FUNCTION_POINTER_CAST (grp match 3) \<or> startswith (grp match 3) ''(*)'')) \<and>
     \<not> matches (RE_USING_TYPE (grp match 2)) line \<and>
     \<not> searches (RE_PLACEMENT_NEW (grp match 2)) line"

text \<open>Is the \<open>&\<close> bound to something dereferenced by the casted pointer?\<close>

definition dereferenced :: "cleansed_lines \<Rightarrow> nat \<Rightarrow> string \<Rightarrow> bool result" where
  "dereferenced clean_lines linenum line =
     (let E = cl_elided clean_lines
      in case re_match RE_NAMED_CAST line of
           None \<Rightarrow> Inr False
         | Some match \<Rightarrow>
             res_bind (CloseExpression E linenum (length (grp match 1))) (\<lambda>(_, y1, x1).
               if x1 < 0 then Inr False
               else res_bind (elided_at clean_lines (int y1)) (\<lambda>line1.
                    res_bind (py_get line1 x1) (\<lambda>c.
                      if c \<noteq> CHR ''('' then Inr False
                      else res_bind (CloseExpression E y1 (nat x1)) (\<lambda>(_, y2, x2).
                        if x2 < 0 then Inr False
                        else res_bind (elided_at clean_lines (int y2)) (\<lambda>line2.
                             res_map (\<lambda>below. matches RE_DEREFERENCED (py_from line2 x2 @ below))
                               (if int y2 < int (NumLines clean_lines) - 1
                                then elided_at clean_lines (int y2 + 1) else Inr [])))))))"

definition check_address_of_cast :: "string \<Rightarrow> cleansed_lines \<Rightarrow> nat \<Rightarrow> string \<Rightarrow> check" where
  "check_address_of_cast filename clean_lines linenum line =
     (if searches RE_ADDRESS_OF_CAST line
      then res_map (\<lambda>parenthesis_error.
             if parenthesis_error
             then [report filename (int linenum) ''readability/casting'' 4 (''Are you taking an address of something dereferenced from a cast?  Wrapping '' @
      ''the dereferenced expression in parentheses will make the binding more obvious'')]
             else [report filename (int linenum) ''runtime/casting'' 4 (''Are you taking an address of a cast?  This is dangerous: could be a temp var. '' @
      '' Take the address before doing the cast, rather than after'')])
           (dereferenced clean_lines linenum line)
      else Inr [])"

text \<open>From \<open>if not expecting_function: CheckCStyleCast(...)\<close> on.\<close>

definition check_c_style_casts :: "string \<Rightarrow> cleansed_lines \<Rightarrow> nat \<Rightarrow> bool \<Rightarrow> check" where
  "check_c_style_casts filename clean_lines linenum expecting_function =
     res_bind (if \<not> expecting_function
               then CheckCStyleCast filename clean_lines linenum ''static_cast'' RE_BASIC_CAST
               else Inr ([], False)) (\<lambda>(basic, _).
     res_bind (CheckCStyleCast filename clean_lines linenum ''const_cast'' RE_STRING_CAST) (\<lambda>(const, found).
     res_map (\<lambda>(pointer, _). basic @ const @ pointer)
       (if found then Inr ([], True)
        else CheckCStyleCast filename clean_lines linenum ''reinterpret_cast'' RE_POINTER_CAST)))"

definition CheckCasts :: "string \<Rightarrow> cleansed_lines \<Rightarrow> nat \<Rightarrow> check" where
  "CheckCasts filename clean_lines linenum =
     res_bind (elided_at clean_lines (int linenum)) (\<lambda>line.
     res_bind (ExpectingFunctionArgs clean_lines linenum) (\<lambda>expecting_function.
       let match = (if expecting_function then None else re_search RE_FUNCTION_CAST line)
       in if (case match of Some m \<Rightarrow> matches RE_ARRAY_AFTER (grp m 3) | None \<Rightarrow> False) then Inr []
          else
            (let deprecated = (case match of
                   Some m \<Rightarrow> if deprecated_cast line m
                     then [report filename (int linenum) ''readability/casting'' 4
                             (''Using deprecated casting style.  Use static_cast<'' @ grp m 2 @ ''>(...) instead'')]
                     else []
                 | None \<Rightarrow> [])
             in res_bind (check_c_style_casts filename clean_lines linenum expecting_function) (\<lambda>c_style.
                res_map (\<lambda>address. deprecated @ c_style @ address)
                  (check_address_of_cast filename clean_lines linenum line)))))"

section \<open>Lemmas\<close>

text \<open>\<open>CheckCStyleCast\<close> reports at most once, and its answer says whether it did.\<close>

definition cast_answer :: "string \<Rightarrow> report list \<times> bool \<Rightarrow> bool" where
  "cast_answer f = (\<lambda>(rs, b). listed f rs \<and> length rs \<le> 1 \<and> (b \<longleftrightarrow> rs \<noteq> []))"

lemma cast_answer_cases [simp]:
  "cast_answer f ([], False)"
  "cast_answer f ([r], True) \<longleftrightarrow> listed f [r]"
  by (simp_all add: cast_answer_def)

lemma check_unnamed_parameter_answer [simp]: "cast_answer f (check_unnamed_parameter f n l r raw)"
  unfolding check_unnamed_parameter_def by simp

lemma CheckCStyleCast_all: "res_all (cast_answer f) (CheckCStyleCast f cl n t r)"
  unfolding CheckCStyleCast_def Let_def
  by (rule res_all_intros conjI allI impI | simp)+

lemmas CheckCStyleCast_answer = res_allD[OF CheckCStyleCast_all, of f cl n t r "(rs, b)", unfolded cast_answer_def prod.case] for f cl n t r rs b

lemma CheckCStyleCast_returns:
  assumes inside: "aligned cl" "n < cl_num_lines cl"
  shows "returns (CheckCStyleCast f cl n t r)"
proof -
  have "res_mapM (\<lambda>i. elided_at cl (int i)) [n - 5 + 1..<n] = Inr (map (\<lambda>i. cl_elided cl ! i) [n - 5 + 1..<n])"
    using inside by (intro res_mapM_total) auto
  then have "expand_context cl n c = Inr (concat (map (\<lambda>i. cl_elided cl ! i) [n - 5 + 1..<n]) @ c)" for c
    by (simp add: expand_context_def)
  then show ?thesis using inside by (simp add: CheckCStyleCast_def Let_def)
qed

lemma listed_cast_parts [listed_intros]:
  "listedR f (check_address_of_cast f cl n l)"
  "listedR f (check_c_style_casts f cl n b)"
  unfolding check_address_of_cast_def check_c_style_casts_def
  by (auto simp: listedR_Inr_iff split: if_splits dest: CheckCStyleCast_answer)

lemma listed_CheckCasts [listed_intros]: "listedR f (CheckCasts f cl n)"
  unfolding CheckCasts_def Let_def
  by (rule listed_acc listed_intros conjI allI impI | simp split: option.splits)+

lemma RE_NAMED_CAST_head: "re_match RE_NAMED_CAST s = Some m \<Longrightarrow> length (grp m 1) < length s"
  unfolding RE_NAMED_CAST_def seqs.simps by (erule match_head_group) (auto simp: rx_simps)

text \<open>The only exception: the type of a cast whose address is taken is the last thing on its line.\<close>

lemma dereferenced_raises:
  assumes inside: "aligned cl" "n < cl_num_lines cl" and raises: "dereferenced cl n (cl_elided cl ! n) = Inl e"
  shows "e = IndexError \<and> (\<exists>m k. re_match RE_NAMED_CAST (cl_elided cl ! n) = Some m \<and> n \<le> k \<and>
    CloseExpression (cl_elided cl) n (length (grp m 1)) = Inr (cl_elided cl ! k, k, int (length (cl_elided cl ! k))))"
proof -
  from raises obtain m where m: "re_match RE_NAMED_CAST (cl_elided cl ! n) = Some m"
    by (auto simp: dereferenced_def Let_def split: option.splits)
  have E: "n < length (cl_elided cl)" using inside by (simp add: aligned_def)
  from E RE_NAMED_CAST_head[OF m] show ?thesis
  proof (cases rule: CloseExpression_cases)
    case (none l)
    with raises m show ?thesis by (simp add: dereferenced_def Let_def)
  next
    case (found k q)
    have k: "k < cl_num_lines cl" using found inside by (simp add: aligned_def)
    show ?thesis
    proof (cases "q = length (cl_elided cl ! k)")
      case True
      with raises m found k inside show ?thesis by (auto simp: dereferenced_def Let_def)
    next
      case False
      with found have q: "q < length (cl_elided cl ! k)" by simp
      from found(3) q obtain l2 y2 x2 where c: "CloseExpression (cl_elided cl) k q = Inr (l2, y2, x2)"
        and y2: "x2 < 0 \<or> y2 < cl_num_lines cl"
        using CloseExpression_returns[of k "cl_elided cl" q] inside by (auto simp: aligned_def)
      have "elided_at cl (int y2 + 1) = Inr (cl_elided cl ! (y2 + 1))" if "int y2 < int (NumLines cl) - 1"
        using that elided_at_in[of cl "y2 + 1"] inside by (simp add: NumLines_def add.commute)
      then have "returns (dereferenced cl n (cl_elided cl ! n))"
        using m found(1) k q c y2 inside by (auto simp: dereferenced_def Let_def)
      with raises show ?thesis by simp
    qed
  qed
qed

text \<open>It happens when a cast is continued on the next line.\<close>

lemma CheckCasts_index_error:
  "CheckCasts ''a.cc'' (plain_lines [''  p = &static_cast<T*>'', ''      (q);'']) 0 = Inl IndexError"
  by code_simp

lemma CheckCasts_returns:
  assumes "aligned cl" "n < cl_num_lines cl" "returns (dereferenced cl n (cl_elided cl ! n))"
  shows "returns (CheckCasts f cl n)"
proof -
  let ?l = "cl_elided cl ! n"
  define g where "g t r = projr (CheckCStyleCast f cl n t r)" for t r
  have g: "CheckCStyleCast f cl n t r = Inr (g t r)" for t r
    using CheckCStyleCast_returns[OF assms(1,2), of f t r] by (auto simp: g_def returns_iff)
  have "returns (check_c_style_casts f cl n b)" for b
    by (auto simp: check_c_style_casts_def g split: prod.split intro: exI[of _ False])
  moreover obtain e where "ExpectingFunctionArgs cl n = Inr e" using line_predicates_return(4)[OF assms(1,2)] by blast
  moreover have "returns (check_address_of_cast f cl n ?l)" using assms(3) by (simp add: check_address_of_cast_def)
  then obtain a where "check_address_of_cast f cl n ?l = Inr a" by (auto simp: returns_iff)
  ultimately show ?thesis using assms(1,2) by (simp add: CheckCasts_def Let_def returns_iff)
qed

section \<open>The contract\<close>

interpretation cast_check: partial_check CheckCasts "\<lambda>cl n. returns (dereferenced cl n (cl_elided cl ! n))"
  by unfold_locales (auto intro: listed_CheckCasts CheckCasts_returns)

end
