(* ===== verification/Language.thy ===== *)
theory Language
  imports Includes Casts
begin

text \<open>
  Language rules (\<open>cpplint.py\<close>: \<open>_GetTextInside\<close>, \<open>CheckLanguage\<close>).

  \<open>_GetTextInside\<close> reads the text between an opening bracket and the bracket that closes it.  The grammar
  of texts with matching brackets is \<open>well_bracketed\<close>; the lemmas show that the function finds exactly the
  well_bracketed text behind the pattern.  \<open>CheckLanguage\<close> threads the include state, whose list of sections
  is shown to stay non-empty.
\<close>

section \<open>Text between brackets\<close>

fun matching_punctuation :: "char \<Rightarrow> char option" where
  "matching_punctuation c =
     (if c = CHR ''('' then Some CHR '')'' else if c = CHR ''{'' then Some CHR ''}''
      else if c = CHR ''['' then Some CHR '']'' else None)"

definition closing_punctuation :: "char set" where
  "closing_punctuation = {CHR '')'', CHR ''}'', CHR '']''}"

text \<open>The loop: the text from \<open>position\<close> on, with the stack of the brackets that are expected.  It returns
  the position behind the last of them.\<close>

fun scan_punctuation :: "string \<Rightarrow> char list \<Rightarrow> nat \<Rightarrow> nat option" where
  "scan_punctuation cs [] position = Some position"
| "scan_punctuation [] (d # ds) position = None"
| "scan_punctuation (c # cs) (d # ds) position =
     (if c = d then scan_punctuation cs ds (position + 1)
      else if c \<in> closing_punctuation then None
      else case matching_punctuation c of
             Some e \<Rightarrow> scan_punctuation cs (e # d # ds) (position + 1)
           | None \<Rightarrow> scan_punctuation cs (d # ds) (position + 1))"

definition GetTextInside :: "string \<Rightarrow> regex \<Rightarrow> string option result" where
  "GetTextInside str start_pattern =
     (case re_search start_pattern str of
        None \<Rightarrow> Inr None
      | Some match \<Rightarrow>
          (let start_position = mo_end match
           in if start_position = 0 then Inl AssertionError
              else case matching_punctuation (str ! (start_position - 1)) of
                None \<Rightarrow> Inl AssertionError
              | Some d \<Rightarrow>
                  Inr (map_option (\<lambda>position. take (position - 1 - start_position) (drop start_position str))
                    (scan_punctuation (drop start_position str) [d] start_position))))"

text \<open>Texts whose brackets match.\<close>

inductive well_bracketed :: "string \<Rightarrow> bool" where
  empty: "well_bracketed []"
| other: "c \<notin> closing_punctuation \<Longrightarrow> matching_punctuation c = None \<Longrightarrow> well_bracketed s \<Longrightarrow> well_bracketed (c # s)"
| group: "matching_punctuation c = Some d \<Longrightarrow> well_bracketed s \<Longrightarrow> well_bracketed t \<Longrightarrow> well_bracketed (c # s @ d # t)"

text \<open>Texts that close the brackets of a stack.\<close>

inductive closes_all :: "char list \<Rightarrow> string \<Rightarrow> bool" where
  none: "closes_all [] []"
| next_one: "well_bracketed s \<Longrightarrow> closes_all ds u \<Longrightarrow> closes_all (d # ds) (s @ d # u)"

inductive_cases closes_all_NilE: "closes_all [] u"
inductive_cases closes_all_ConsE: "closes_all (d # ds) u"

lemma matching_closing: "matching_punctuation c = Some d \<Longrightarrow> d \<in> closing_punctuation \<and> c \<notin> closing_punctuation"
  by (auto simp: closing_punctuation_def split: if_splits)

lemma scan_balanced:
  assumes "well_bracketed s" "d \<in> closing_punctuation"
  shows "scan_punctuation (s @ rest) (d # ds) p = scan_punctuation rest (d # ds) (p + length s)"
  using assms
proof (induction s arbitrary: rest d ds p rule: well_bracketed.induct)
  case (group c e s t)
  then have e: "e \<in> closing_punctuation" "c \<noteq> d" "c \<notin> closing_punctuation" using matching_closing by blast+
  have "scan_punctuation (c # s @ e # t @ rest) (d # ds) p = scan_punctuation (s @ e # t @ rest) (e # d # ds) (p + 1)"
    using group.hyps(1) e by (simp del: matching_punctuation.simps)
  also have "\<dots> = scan_punctuation (t @ rest) (d # ds) (p + 1 + length s + 1)"
    using group.IH(1)[OF e(1)] by simp
  also have "\<dots> = scan_punctuation rest (d # ds) (p + length (c # s @ e # t))"
    using group.IH(2)[OF group.prems] by (simp add: algebra_simps)
  finally show ?case by simp
qed (auto simp del: matching_punctuation.simps)

lemma scan_closes:
  "closes_all ds u \<Longrightarrow> set ds \<subseteq> closing_punctuation \<Longrightarrow> scan_punctuation (u @ rest) ds p = Some (p + length u)"
proof (induction ds u arbitrary: p rule: closes_all.induct)
  case (next_one s ds u d)
  then have "scan_punctuation (s @ d # u @ rest) (d # ds) p = scan_punctuation (u @ rest) ds (p + length s + 1)"
    using scan_balanced[OF next_one.hyps(1)] by simp
  with next_one.IH[of "p + length s + 1"] next_one.prems show ?case by simp
qed simp

lemma scan_Some:
  "scan_punctuation cs ds p = Some q \<Longrightarrow> set ds \<subseteq> closing_punctuation \<Longrightarrow>
   \<exists>u t. cs = u @ t \<and> closes_all ds u \<and> q = p + length u"
proof (induction cs ds p rule: scan_punctuation.induct)
  case (1 cs p)
  then show ?case by (auto intro!: exI[of _ "[]"] closes_all.none)
next
  case (3 c cs d ds p)
  show ?case
  proof (cases "c = d")
    case True
    with 3 obtain u t where "cs = u @ t" "closes_all ds u" "q = p + 1 + length u" by auto
    with True show ?thesis using closes_all.next_one[OF well_bracketed.empty, of ds u d] by (intro exI[of _ "c # u"] exI[of _ t]) auto
  next
    case False
    with 3(4) have c: "c \<notin> closing_punctuation" by (auto split: if_splits)
    show ?thesis
    proof (cases "matching_punctuation c")
      case None
      have "scan_punctuation cs (d # ds) (p + 1) = Some q" using 3(4) False c None by simp
      from 3(2)[OF False c None this 3(5)] obtain u t where
        u: "cs = u @ t" "closes_all (d # ds) u" "q = p + 1 + length u" by auto
      from u(2) obtain s v where "u = s @ d # v" "well_bracketed s" "closes_all ds v" by (rule closes_all_ConsE)
      with u None c show ?thesis using closes_all.next_one[OF well_bracketed.other[OF c None], of s ds v d]
        by (intro exI[of _ "c # u"] exI[of _ t]) auto
    next
      case (Some e)
      have "scan_punctuation cs (e # d # ds) (p + 1) = Some q" using 3(4) False c Some by (simp del: matching_punctuation.simps)
      moreover have "set (e # d # ds) \<subseteq> closing_punctuation" using 3(5) matching_closing[OF Some] by simp
      ultimately obtain u t where u: "cs = u @ t" "closes_all (e # d # ds) u" "q = p + 1 + length u"
        using 3(3)[OF False c Some] by auto
      from u(2) obtain s v where s: "u = s @ e # v" "well_bracketed s" "closes_all (d # ds) v" by (rule closes_all_ConsE)
      from s(3) obtain s' v' where s': "v = s' @ d # v'" "well_bracketed s'" "closes_all ds v'" by (rule closes_all_ConsE)
      have "closes_all (d # ds) ((c # s @ e # s') @ d # v')"
        using s' well_bracketed.group[OF Some s(2) s'(2)] by (intro closes_all.next_one)
      with u s s' show ?thesis by (intro exI[of _ "c # u"] exI[of _ t]) auto
    qed
  qed
qed simp

text \<open>C13. \<open>_GetTextInside\<close> returns a text exactly when the pattern's last bracket is followed by a text
  whose brackets match and by the bracket that closes it; and it returns that text.\<close>

theorem GetTextInside_iff:
  assumes "re_search pat str = Some m" "0 < mo_end m" "matching_punctuation (str ! (mo_end m - 1)) = Some d"
  shows "GetTextInside str pat = Inr (Some t) \<longleftrightarrow> well_bracketed t \<and> (\<exists>rest. drop (mo_end m) str = t @ d # rest)"
proof -
  let ?cs = "drop (mo_end m) str"
  have d: "d \<in> closing_punctuation" using matching_closing[OF assms(3)] by simp
  have inside: "GetTextInside str pat =
      Inr (map_option (\<lambda>q. take (q - 1 - mo_end m) ?cs) (scan_punctuation ?cs [d] (mo_end m)))"
    using assms by (simp add: GetTextInside_def Let_def del: matching_punctuation.simps)
  show ?thesis
  proof
    assume "GetTextInside str pat = Inr (Some t)"
    then obtain q where q: "scan_punctuation ?cs [d] (mo_end m) = Some q" "t = take (q - 1 - mo_end m) ?cs"
      by (auto simp: inside)
    from scan_Some[OF q(1)] d obtain u r where u: "?cs = u @ r" "closes_all [d] u" "q = mo_end m + length u" by auto
    from u(2) obtain s v where "u = s @ d # v" "well_bracketed s" "closes_all [] v" by (rule closes_all_ConsE)
    moreover from this(3) have "v = []" by (rule closes_all_NilE)
    ultimately show "well_bracketed t \<and> (\<exists>rest. ?cs = t @ d # rest)" using u q(2) by simp
  next
    assume "well_bracketed t \<and> (\<exists>rest. ?cs = t @ d # rest)"
    then obtain rest where t: "well_bracketed t" "?cs = t @ d # rest" by blast
    from closes_all.next_one[OF t(1) closes_all.none, of d] d
    have "scan_punctuation ((t @ [d]) @ rest) [d] (mo_end m) = Some (mo_end m + length (t @ [d]))"
      by (intro scan_closes) auto
    then show "GetTextInside str pat = Inr (Some t)" by (simp add: inside t(2))
  qed
qed

theorem GetTextInside_iff_witness:
  "GetTextInside ''f(a(b), c);'' (lit ''f('') = Inr (Some ''a(b), c'')"
proof (rule GetTextInside_iff[THEN iffD2])
  show "re_search (lit ''f('') ''f(a(b), c);'' =
      Some \<lparr>mo_string = ''f(a(b), c);'', mo_start = 0, mo_end = 2, mo_caps = []\<rparr>"
    by code_simp
  have "well_bracketed (CHR ''a'' # CHR ''('' # ''b'' @ CHR '')'' # '', c'')"
    by (intro well_bracketed.intros) (simp_all add: closing_punctuation_def)
  then show "well_bracketed ''a(b), c'' \<and> (\<exists>rest. drop (mo_end \<lparr>mo_string = ''f(a(b), c);'', mo_start = 0, mo_end = 2, mo_caps = []\<rparr>)
      ''f(a(b), c);'' = ''a(b), c'' @ CHR '')'' # rest)" by simp
qed simp_all

section \<open>Language rules\<close>

text \<open>\<open>^\<backslash>s*#\<backslash>s*(if|ifdef|ifndef|elif|else|endif)\<backslash>b\<close>\<close>

definition RE_CONDITIONAL_DIRECTIVE :: regex where
"RE_CONDITIONAL_DIRECTIVE = seqs [RBol, RStar ws, lit ''#'', RStar ws, RGroup 1 (alts [lit
     ''if'', lit ''ifdef'', lit ''ifndef'', lit ''elif'', lit ''else'', lit ''endif'']),
     RWordB]"

text \<open>\<open>\<backslash>bshort port\<backslash>b\<close>\<close>

definition RE_SHORT_PORT :: regex where
"RE_SHORT_PORT = seqs [RWordB, lit ''short port'', RWordB]"

text \<open>\<open>\<backslash>bunsigned short port\<backslash>b\<close>\<close>

definition RE_UNSIGNED_SHORT_PORT :: regex where
"RE_UNSIGNED_SHORT_PORT = seqs [RWordB, lit ''unsigned short port'', RWordB]"

text \<open>\<open>\<backslash>b(short|long(?! +double)|long long)\<backslash>b\<close>\<close>

definition RE_BASIC_INT :: regex where
"RE_BASIC_INT = seqs [RWordB, RGroup 1 (alts [lit ''short'', seqs [lit ''long'', RNotAhead (seqs
     [RPlus (lit '' ''), lit ''double''])], lit ''long long'']), RWordB]"

text \<open>\<open>\<backslash>boperator\<backslash>s*&\<backslash>s*\<backslash>(\<backslash>s*\<backslash>)\<close>\<close>

definition RE_UNARY_AND :: regex where
"RE_UNARY_AND = seqs [RWordB, lit ''operator'', RStar ws, lit ''&'', RStar ws, lit ''('', RStar
     ws, lit '')'']"

text \<open>\<open>\<backslash>}\<backslash>s*if\<backslash>s*\<backslash>(\<close>\<close>

definition RE_CLOSE_IF :: regex where
"RE_CLOSE_IF = seqs [lit ''}'', RStar ws, lit ''if'', RStar ws, lit ''('']"

text \<open>\<open>\<backslash>b(string)?printf\<backslash>s*\<backslash>(\<close>, ignoring case\<close>

definition RE_PRINTF_OPEN :: regex where
"RE_PRINTF_OPEN = seqs [RWordB, ROpt (RGroup 1 (seqs [oneof ''Ss'', oneof ''Tt'', oneof ''Rr'',
     oneof ''Ii'', oneof ''Nn'', oneof ''Gg''])), oneof ''Pp'', oneof ''Rr'', oneof ''Ii'',
     oneof ''Nn'', oneof ''Tt'', oneof ''Ff'', RStar ws, lit ''('']"

text \<open>\<open>([\<backslash>w.\<backslash>->()]+)$\<close>\<close>

definition RE_PRINTF_ARGS :: regex where
"RE_PRINTF_ARGS = seqs [RGroup 1 (RPlus (RChar (\<lambda>c. one_of ''.->()'' c \<or> word_char
     c))), REol]"

text \<open>\<open>\<backslash>b((?:string)?printf)\<backslash>s*\<backslash>(\<close>, ignoring case\<close>

definition RE_PRINTF_NAME :: regex where
"RE_PRINTF_NAME = seqs [RWordB, RGroup 1 (seqs [ROpt (seqs [oneof ''Ss'', oneof ''Tt'', oneof
     ''Rr'', oneof ''Ii'', oneof ''Nn'', oneof ''Gg'']), oneof ''Pp'', oneof ''Rr'', oneof
     ''Ii'', oneof ''Nn'', oneof ''Tt'', oneof ''Ff'']), RStar ws, lit ''('']"

text \<open>\<open>memset\<backslash>s*\<backslash>(([^,]*),\<backslash>s*([^,]*),\<backslash>s*0\<backslash>s*\<backslash>)\<close>\<close>

definition RE_MEMSET :: regex where
"RE_MEMSET = seqs [lit ''memset'', RStar ws, lit ''('', RGroup 1 (RStar (noneof '','')), lit
     '','', RStar ws, RGroup 2 (RStar (noneof '','')), lit '','', RStar ws, lit ''0'', RStar ws,
     lit '')'']"

text \<open>\<open>^''|-?[0-9]+|0x[0-9A-Fa-f]$\<close>\<close>

definition RE_MEMSET_OK :: regex where
"RE_MEMSET_OK = alts [seqs [RBol, lit [SQ, SQ]], seqs [ROpt (lit ''-''), RPlus (RChar
     (\<lambda>c. digit_char c))], seqs [lit ''0x'', RChar (\<lambda>c. digit_char c \<or>
     between (CHR ''A'') (CHR ''F'') c \<or> between (CHR ''a'') (CHR ''f'') c), REol]]"

text \<open>\<open>\<backslash>busing namespace\<backslash>b\<close>\<close>

definition RE_USING_NAMESPACE :: regex where
"RE_USING_NAMESPACE = seqs [RWordB, lit ''using namespace'', RWordB]"

definition check_types :: "string \<Rightarrow> nat \<Rightarrow> string \<Rightarrow> report list" where
  "check_types filename linenum line =
     (if searches RE_SHORT_PORT line
      then (if \<not> searches RE_UNSIGNED_SHORT_PORT line
            then [report filename (int linenum) ''runtime/int'' 4 (''Use '' @ [DQ] @ ''unsigned short'' @ [DQ] @ '' for ports, not '' @ [DQ] @
      ''short'' @ [DQ])]
            else [])
      else (case re_search RE_BASIC_INT line of
              Some m \<Rightarrow> [report filename (int linenum) ''runtime/int'' 4
                           (''Use int16/int64/etc, rather than the C type '' @ grp m 1)]
            | None \<Rightarrow> [])) @
     (if searches RE_UNARY_AND line
      then [report filename (int linenum) ''runtime/operator'' 4 ''Unary operator& is dangerous.  Do not use it.'']
      else []) @
     (if searches RE_CLOSE_IF line
      then [report filename (int linenum) ''readability/braces'' 4 (''Did you mean '' @ [DQ] @ ''else if'' @ [DQ] @ ''? If not, start a new line for '' @
      [DQ] @ ''if'' @ [DQ] @ ''.'')]
      else [])"

text \<open>Format string bugs like \<open>printf(foo)\<close>.\<close>

definition check_printf_args :: "string \<Rightarrow> nat \<Rightarrow> string \<Rightarrow> check" where
  "check_printf_args filename linenum line =
     res_bind (GetTextInside line RE_PRINTF_OPEN) (\<lambda>printf_args.
       case printf_args of
         None \<Rightarrow> Inr []
       | Some args \<Rightarrow>
           if args = [] then Inr []
           else case re_match RE_PRINTF_ARGS args of
             None \<Rightarrow> Inr []
           | Some match \<Rightarrow>
               if grp match 1 = ''__VA_ARGS__'' then Inr []
               else case re_search RE_PRINTF_NAME line of
                 None \<Rightarrow> Inl AttributeError
               | Some m \<Rightarrow> Inr [report filename (int linenum) ''runtime/printf'' 4
                   (''Potential format string bug. Do '' @ grp m 1 @ ''('' @ [DQ] @ ''%s'' @ [DQ] @ '', '' @ grp match 1 @ '') instead.'')])"

definition check_memset :: "string \<Rightarrow> nat \<Rightarrow> string \<Rightarrow> report list" where
  "check_memset filename linenum line =
     (case re_search RE_MEMSET line of
        None \<Rightarrow> []
      | Some m \<Rightarrow>
          if matches RE_MEMSET_OK (grp m 2) then []
          else [report filename (int linenum) ''runtime/memset'' 4
                  (''Did you mean '' @ [DQ] @ ''memset('' @ grp m 1 @ '', 0, '' @ grp m 2 @ '')'' @ [DQ, CHR ''?''])]) @
     (if searches RE_USING_NAMESPACE line
      then [report filename (int linenum) ''build/namespaces'' 5
              (''Do not use namespace using-directives.  '' @ ''Use using-declarations instead.'')]
      else [])"

section \<open>Variable-length arrays\<close>

text \<open>\<open>\<backslash>s*(.+::)?(\<backslash>w+) [a-z]\<backslash>w*\<backslash>[(.+)];\<close>\<close>

definition RE_ARRAY_DECLARATION :: regex where
"RE_ARRAY_DECLARATION = seqs [RStar ws, ROpt (RGroup 1 (seqs [RPlus anyc, lit ''::''])), RGroup
     2 (RPlus wordc), lit '' '', RChar (\<lambda>c. lower_char c), RStar wordc, lit ''['',
     RGroup 3 (RPlus anyc), lit ''];'']"

text \<open>\<open>\<backslash>s|\<backslash>+|\<backslash>-|\<backslash>*|\<backslash>/|<<|>>]\<close>\<close>

definition RE_ARITHMETIC :: regex where
"RE_ARITHMETIC = alts [ws, lit ''+'', lit ''-'', lit ''*'', lit ''/'', lit ''<<'', lit ''>>]'']"

text \<open>\<open>sizeof\<backslash>(.+\<backslash>)\<close>\<close>

definition RE_SIZEOF_CALL :: regex where
"RE_SIZEOF_CALL = seqs [lit ''sizeof('', RPlus anyc, lit '')'']"

text \<open>\<open>arraysize\<backslash>(\<backslash>w+\<backslash>)\<close>\<close>

definition RE_ARRAYSIZE_CALL :: regex where
"RE_ARRAYSIZE_CALL = seqs [lit ''arraysize('', RPlus wordc, lit '')'']"

text \<open>\<open>\<backslash>d+\<close>\<close>

definition RE_DECIMAL :: regex where
"RE_DECIMAL = RPlus digit"

text \<open>\<open>0[xX][0-9a-fA-F]+\<close>\<close>

definition RE_HEXADECIMAL :: regex where
"RE_HEXADECIMAL = seqs [lit ''0'', oneof ''xX'', RPlus (RChar (\<lambda>c. digit_char c \<or>
     between (CHR ''a'') (CHR ''f'') c \<or> between (CHR ''A'') (CHR ''F'') c))]"

text \<open>\<open>k[A-Z0-9]\<backslash>w*\<close>\<close>

definition RE_K_CONSTANT :: regex where
"RE_K_CONSTANT = seqs [lit ''k'', RChar (\<lambda>c. upper_char c \<or> digit_char c), RStar
     wordc]"

text \<open>\<open>(.+::)?k[A-Z0-9]\<backslash>w*\<close>\<close>

definition RE_SCOPED_K_CONSTANT :: regex where
"RE_SCOPED_K_CONSTANT = seqs [ROpt (RGroup 1 (seqs [RPlus anyc, lit ''::''])), lit ''k'', RChar
     (\<lambda>c. upper_char c \<or> digit_char c), RStar wordc]"

text \<open>\<open>(.+::)?[A-Z][A-Z0-9_]*\<close>\<close>

definition RE_CAPITAL_CONSTANT :: regex where
"RE_CAPITAL_CONSTANT = seqs [ROpt (RGroup 1 (seqs [RPlus anyc, lit ''::''])), RChar (\<lambda>c.
     upper_char c), RStar (RChar (\<lambda>c. one_of ''_'' c \<or> upper_char c \<or> digit_char
     c))]"

text \<open>\<open>re.split(pattern, s)\<close> for a pattern that does not match the empty string\<close>

fun split_pieces :: "string \<Rightarrow> nat \<Rightarrow> (nat \<times> nat) list \<Rightarrow> string list" where
  "split_pieces s p [] = [drop p s]"
| "split_pieces s p ((b, e) # ms) = take (b - p) (drop p s) # split_pieces s e ms"

definition re_split :: "regex \<Rightarrow> string \<Rightarrow> string list" where
  "re_split r s = split_pieces s 0 (map (\<lambda>m. (mo_start m, mo_end m)) (re_finditer r s))"

text \<open>The loop over the tokens, with \<open>skip_next\<close>: are they all compile time constants?\<close>

fun const_tokens :: "string list \<Rightarrow> bool \<Rightarrow> bool" where
  "const_tokens [] skip_next = True"
| "const_tokens (tok # toks) skip_next =
     (if skip_next then const_tokens toks False
      else if searches RE_SIZEOF_CALL tok \<or> searches RE_ARRAYSIZE_CALL tok then const_tokens toks False
      else let tok = rstrip ((=) CHR '')'') (lstrip ((=) CHR ''('') tok)
           in if tok = [] \<or> matches RE_DECIMAL tok \<or> matches RE_HEXADECIMAL tok \<or> matches RE_K_CONSTANT tok \<or>
                 matches RE_SCOPED_K_CONSTANT tok \<or> matches RE_CAPITAL_CONSTANT tok
              then const_tokens toks False
              else if startswith tok ''sizeof'' then const_tokens toks True
              else False)"

definition check_arrays :: "string \<Rightarrow> nat \<Rightarrow> string \<Rightarrow> report list" where
  "check_arrays filename linenum line =
     (case re_match RE_ARRAY_DECLARATION line of
        None \<Rightarrow> []
      | Some m \<Rightarrow>
          if grp m 2 \<noteq> ''return'' \<and> grp m 2 \<noteq> ''delete'' \<and> \<not> contains (grp m 3) '']'' \<and>
             \<not> const_tokens (re_split RE_ARITHMETIC (grp m 3)) False
          then [report filename (int linenum) ''runtime/arrays'' 1 (''Do not use variable-length arrays.  Use an appropriately named ('' @ [SQ] @ ''k'' @
      [SQ] @ '' followed by CamelCase) compile-time constant for the size.'')]
          else [])"

section \<open>The check\<close>

text \<open>\<open>\<backslash>bnamespace\<backslash>s*{\<close>\<close>

definition RE_UNNAMED_NAMESPACE :: regex where
"RE_UNNAMED_NAMESPACE = seqs [RWordB, lit ''namespace'', RStar ws, lit ''{'']"

definition check_unnamed_namespace :: "string \<Rightarrow> nat \<Rightarrow> string \<Rightarrow> string \<Rightarrow> check" where
  "check_unnamed_namespace filename linenum file_extension line =
     (if file_extension = ''h'' \<and> searches RE_UNNAMED_NAMESPACE line
      then res_map (\<lambda>c. if c \<noteq> BS
                then [report filename (int linenum) ''build/namespaces'' 4 (''Do not use unnamed namespaces in header files.  See http://google-styleguide.googlecode.com/svn/trunk/cppguide.xml#Namespaces '' @
      ''for more information.'')]
                else [])
             (py_get line (- 1))
      else Inr [])"

text \<open>The checks of a line that is no include directive.\<close>

definition check_language_rules :: "string \<Rightarrow> cleansed_lines \<Rightarrow> nat \<Rightarrow> string \<Rightarrow> string \<Rightarrow> check" where
  "check_language_rules filename clean_lines linenum file_extension line =
     res_bind (CheckCasts filename clean_lines linenum) (\<lambda>casts.
     res_bind (CheckGlobalStatic filename clean_lines linenum) (\<lambda>statics.
     res_bind (CheckPrintf filename clean_lines linenum) (\<lambda>printf.
     res_bind (check_printf_args filename linenum line) (\<lambda>args.
     res_map (\<lambda>unnamed. casts @ statics @ printf @ check_types filename linenum line @ args @
           check_memset filename linenum line @ check_arrays filename linenum line @ unnamed)
       (check_unnamed_namespace filename linenum file_extension line)))))"

definition CheckLanguage ::
  "file_system \<Rightarrow> string \<Rightarrow> cleansed_lines \<Rightarrow> nat \<Rightarrow> string \<Rightarrow> include_state \<Rightarrow> (report list \<times> include_state) result option" where
  "CheckLanguage fs filename clean_lines linenum file_extension st =
     (case elided_at clean_lines (int linenum) of
        Inl e \<Rightarrow> Some (Inl e)
      | Inr line \<Rightarrow>
          if line = [] then Some (Inr ([], st))
          else if searches RE_INCLUDE line then CheckIncludeLine fs filename clean_lines linenum st
          else Some (res_bind (case re_match RE_CONDITIONAL_DIRECTIVE line of
                   Some m \<Rightarrow> ResetSection (grp m 1) st | None \<Rightarrow> Inr st) (\<lambda>st.
                 res_map (\<lambda>rs. (rs, st)) (check_language_rules filename clean_lines linenum file_extension line))))"

section \<open>Lemmas\<close>

text \<open>The state of the includes keeps at least one section, and what is reported is listed.\<close>

definition include_outcome :: "string \<Rightarrow> report list \<times> include_state \<Rightarrow> bool" where
  "include_outcome f = (\<lambda>(rs, st). listed f rs \<and> include_list st \<noteq> [])"

lemma include_outcome_Pair [simp]: "include_outcome f (rs, st) \<longleftrightarrow> listed f rs \<and> include_list st \<noteq> []"
  by (simp add: include_outcome_def)

lemma CheckNextIncludeOrder_same_list [simp]:
  "include_list (snd (CheckNextIncludeOrder t st)) = include_list st"
  by (cases t) (auto simp: CheckNextIncludeOrder_def SetLastHeader_def Let_def)

lemma ResetSection_outcome: "include_list st \<noteq> [] \<Longrightarrow> \<exists>st'. ResetSection d st = Inr st' \<and> include_list st' \<noteq> []"
  by (simp add: ResetSection_def Let_def)

lemma check_new_include_outcome [res_all_intros]:
  assumes "include_list st \<noteq> []"
  shows "res_all (include_outcome f) (check_new_include f b t E n i st)"
  using assms unfolding check_new_include_def record_include_def Let_def
  by (auto simp: SetLastHeader_def case_prod_beta intro!: res_all_map)

lemma CheckIncludeLine_outcome:
  assumes "include_list st \<noteq> []"
  shows "opt_all (res_all (include_outcome f)) (CheckIncludeLine fs f cl n st)"
proof -
  have new: "listed f rs \<and> include_list st' \<noteq> []" if "check_new_include f b t E n i st = Inr (rs, st')" for b t E i rs st'
    using res_allD[OF check_new_include_outcome[OF assms] that] by simp
  show ?thesis
    using assms unfolding CheckIncludeLine_def Let_def
    by (auto intro!: res_all_intros dest!: new)
qed

lemma CheckIncludeLine_returns:
  assumes "include_list st \<noteq> []" "aligned cl" "n < cl_num_lines cl"
  shows "opt_all returns (CheckIncludeLine fs f cl n st)"
proof -
  have "\<exists>l. py_get (cl_elided cl) (int n - 1) = Inr l" using elided_before[OF assms(2,3)] by (simp add: elided_at_def)
  then have "returns (IsInAlphabeticalOrder (cl_elided cl) n h st')" for h st'
    by (auto simp: IsInAlphabeticalOrder_def)
  then have "returns (check_new_include f b t (cl_elided cl) n i st)" for b t i
    using assms(1) by (simp add: check_new_include_def record_include_def Let_def)
  moreover have "py_get (cl_lines cl) (int n) = Inr (cl_lines cl ! n)" using assms by (simp add: aligned_def)
  ultimately show ?thesis unfolding CheckIncludeLine_def Let_def by (auto intro!: res_all_intros)
qed

text \<open>The pattern of \<open>printf(\<close> ends with the bracket that \<open>_GetTextInside\<close> asserts.\<close>

lemma RE_PRINTF_OPEN_end:
  assumes "re_search RE_PRINTF_OPEN s = Some m"
  shows "0 < mo_end m \<and> s ! (mo_end m - 1) = CHR ''(''"
proof -
  have open_paren: "one_of ''('' c \<longleftrightarrow> c = CHR ''(''" for c by (simp add: one_of_def)
  from assms obtain a u v cs b where s: "s = a @ b" and path: "((rev a, b, []), (u, v, cs)) \<in> paths RE_PRINTF_OPEN"
    and m: "m = \<lparr>mo_string = s, mo_start = length a, mo_end = length u, mo_caps = cs\<rparr>" by (rule re_search_path)
  from path obtain t where t: "b = t @ v" "u = rev t @ rev a" by (rule paths_split)
  from path obtain u' where "u = CHR ''('' # u'" 
    by (auto simp: RE_PRINTF_OPEN_def rx_simps open_paren)
  with t have "a @ t = rev u' @ [CHR ''('']" by (metis rev.simps(2) rev_append rev_rev_ident)
  with s t have "s = rev u' @ CHR ''('' # v" by (metis append.assoc append_Cons append_Nil)
  then show ?thesis using \<open>u = CHR ''('' # u'\<close> by (simp add: m nth_append)
qed

lemma printf_inside_returns: "returns (GetTextInside line RE_PRINTF_OPEN)"
  using RE_PRINTF_OPEN_end[of line] by (simp add: GetTextInside_def Let_def)

lemma check_printf_args_returns: "returns (check_printf_args f n line)"
proof -
  obtain a where a: "GetTextInside line RE_PRINTF_OPEN = Inr a" using printf_inside_returns by (auto simp: returns_iff)
  have "re_search RE_PRINTF_NAME line \<noteq> None" if "a \<noteq> None"
  proof -
    from that a have "searches RE_PRINTF_OPEN line" by (auto simp: GetTextInside_def searches_def split: option.splits)
    then have "searches RE_PRINTF_NAME line"
      by (fastforce simp: searches_iff RE_PRINTF_OPEN_def RE_PRINTF_NAME_def rx_simps)
    then show ?thesis by (simp add: searches_def)
  qed
  with a show ?thesis by (auto simp: check_printf_args_def split: option.split)
qed

lemma check_unnamed_namespace_returns: "line \<noteq> [] \<Longrightarrow> returns (check_unnamed_namespace f n e line)"
  by (simp add: check_unnamed_namespace_def)

lemma listed_language_parts [simp]:
  "listed f (check_types f n l)"
  "listed f (check_memset f n l)"
  "listed f (check_arrays f n l)"
  by (simp_all add: check_types_def check_memset_def check_arrays_def)

lemma listed_language_rules [listed_intros]:
  "listedR f (check_printf_args f n l)"
  "listedR f (check_unnamed_namespace f n e l)"
  unfolding check_printf_args_def check_unnamed_namespace_def
  by (rule listed_intros conjI allI impI | simp)+

lemma listed_check_language_rules [listed_intros]: "listedR f (check_language_rules f cl n e l)"
  unfolding check_language_rules_def
  by (rule listed_acc listed_intros conjI allI impI | simp)+

text \<open>\<open>CheckLanguage\<close> keeps a section in the include state, and everything it reports has a category of
  the documented list and a confidence between 0 and 5.\<close>

lemma CheckLanguage_outcome:
  assumes "include_list st \<noteq> []"
  shows "opt_all (res_all (include_outcome f)) (CheckLanguage fs f cl n e st)"
proof -
  have rules: "listed f rs" if "check_language_rules f cl n e line = Inr rs" for line rs
    using listed_check_language_rules[of f cl n e line] that by simp
  have reset: "include_list st' \<noteq> []" if "ResetSection d st = Inr st'" for d st'
    using ResetSection_outcome[OF assms, of d] that by auto
  show ?thesis
    using assms CheckIncludeLine_outcome[OF assms] unfolding CheckLanguage_def
    by (auto intro!: res_all_intros dest: rules reset split: option.splits)
qed

lemma CheckLanguage_returns:
  assumes "include_list st \<noteq> []" "aligned cl" "n < cl_num_lines cl"
    and casts: "returns (CheckCasts f cl n)"
  shows "opt_all returns (CheckLanguage fs f cl n e st)"
proof -
  let ?l = "cl_elided cl ! n"
  obtain a b c d where parts: "CheckCasts f cl n = Inr a" "CheckGlobalStatic f cl n = Inr b" "CheckPrintf f cl n = Inr c"
      "check_printf_args f n ?l = Inr d"
    using casts global_static.total[OF assms(2,3), of f] printf_check.total[OF assms(2,3), of f]
      check_printf_args_returns[of f n ?l]
    by (auto simp: returns_iff)
  have "returns (check_language_rules f cl n e ?l)" if "?l \<noteq> []"
    using parts check_unnamed_namespace_returns[OF that] by (simp add: check_language_rules_def)
  moreover have "\<exists>st'. ResetSection d st = Inr st'" for d using ResetSection_outcome[OF assms(1)] by blast
  ultimately show ?thesis
    using assms CheckIncludeLine_returns[OF assms(1-3)] by (auto simp: CheckLanguage_def split: option.split)
qed

end
