(* ===== verification/LineDriver.thy ===== *)
theory LineDriver
  imports FunctionState FileChecks WhatYouUse Style References Constructors Language
begin

text \<open>
  The lines of a file (\<open>cpplint.py\<close>: \<open>ProcessLine\<close>, \<open>ProcessFileData\<close>).

  \<open>ProcessLine\<close> runs the checks of one line and threads the three states of a file: includes, function,
  nesting.  What it does to the program's other state is a list of events, reports and NOLINT comments, in
  the order of the calls, so that a NOLINT comment takes effect before the reports behind it;
  \<open>run_events\<close> executes them on the error handler.  A run is a result or, when a check does not return,
  \<open>None\<close>.  The loop over the lines is also the step relation \<open>line_step\<close>; the lemmas show what every
  reachable state satisfies, that the relation and the loop agree, and that a file stops the linter only
  when one of the things named in \<open>stops_nowhere\<close> fails.
\<close>

section \<open>Runs\<close>

type_synonym 'a run = "'a result option"

fun run_bind :: "'a run \<Rightarrow> ('a \<Rightarrow> 'b run) \<Rightarrow> 'b run" where
  "run_bind None f = None"
| "run_bind (Some (Inl e)) f = Some (Inl e)"
| "run_bind (Some (Inr x)) f = f x"

definition run_all :: "('a \<Rightarrow> bool) \<Rightarrow> 'a run \<Rightarrow> bool" where
  "run_all P r \<longleftrightarrow> (\<forall>x. r = Some (Inr x) \<longrightarrow> P x)"

lemma run_all_simps [simp]:
  "run_all P None" "run_all P (Some (Inl e))" "run_all P (Some (Inr x)) \<longleftrightarrow> P x"
  by (simp_all add: run_all_def)

lemma run_all_bind: "(\<And>x. r = Some (Inr x) \<Longrightarrow> run_all P (f x)) \<Longrightarrow> run_all P (run_bind r f)"
  by (cases "(r, f)" rule: run_bind.cases) auto

lemma run_bind_Inr [simp]: "run_bind r f = Some (Inr y) \<longleftrightarrow> (\<exists>x. r = Some (Inr x) \<and> f x = Some (Inr y))"
  by (cases "(r, f)" rule: run_bind.cases) auto

section \<open>The environment and the states of a file\<close>

text \<open>What the checks read but do not change: the file system, the contents of other files, and the options.\<close>

record lint_env =
  le_fs :: file_system
  le_io :: reader
  le_root :: "regex option"
  le_line_length :: int
  le_verbose :: int

record line_state =
  ls_include :: include_state
  ls_function :: function_state
  ls_nesting :: nesting

definition init_line_state :: line_state where
  "init_line_state = \<lparr>ls_include = init_include_state, ls_function = init_function_state, ls_nesting = init_nesting\<rparr>"

section \<open>One line\<close>

text \<open>The checks that only report, after \<open>CheckLanguage\<close>.\<close>

definition last_checks :: "string \<Rightarrow> cleansed_lines \<Rightarrow> nat \<Rightarrow> nesting \<Rightarrow> check option list" where
  "last_checks filename clean_lines line nesting_state =
     map Some
      [CheckForNonConstReference filename clean_lines line nesting_state,
       CheckForNonStandardConstructs filename clean_lines line nesting_state,
       CheckVlogArguments filename clean_lines line,
       CheckPosixThreading filename clean_lines line,
       CheckInvalidIncrement filename clean_lines line,
       CheckMakePairUsesDeduction filename clean_lines line,
       CheckDefaultLambdaCaptures filename clean_lines line,
       CheckRedundantVirtual filename clean_lines line,
       CheckRedundantOverrideOrFinal filename clean_lines line]"

text \<open>What is done on a line outside of inline assembler.\<close>

definition check_line :: "lint_env \<Rightarrow> string \<Rightarrow> string \<Rightarrow> cleansed_lines \<Rightarrow> nat \<Rightarrow> line_state \<Rightarrow> (report list \<times> line_state) run" where
  "check_line env filename file_extension clean_lines line s =
     run_bind (Some (CheckForFunctionLengths (le_verbose env) filename clean_lines line (ls_function s))) (\<lambda>(lengths, function_state).
     run_bind (Some (CheckForMultilineCommentsAndStrings filename clean_lines line)) (\<lambda>multiline.
     run_bind (CheckStyle (le_fs env) (le_root env) (le_line_length env) filename clean_lines line file_extension (ls_nesting s)) (\<lambda>style.
     run_bind (CheckLanguage (le_fs env) filename clean_lines line file_extension (ls_include s)) (\<lambda>(language, include_state).
     run_bind (run_checks (last_checks filename clean_lines line (ls_nesting s))) (\<lambda>rest.
       Some (Inr (lengths @ multiline @ style @ language @ rest,
         s\<lparr>ls_function := function_state, ls_include := include_state\<rparr>)))))))"

definition ProcessLine :: "lint_env \<Rightarrow> string \<Rightarrow> string \<Rightarrow> cleansed_lines \<Rightarrow> nat \<Rightarrow> line_state \<Rightarrow> (event list \<times> line_state) run" where
  "ProcessLine env filename file_extension clean_lines line s =
     run_bind (Some (raw_at clean_lines (int line))) (\<lambda>raw.
     run_bind (Some (Update filename clean_lines line (ls_nesting s))) (\<lambda>(update, nesting_state).
     run_bind (Some (CheckForNamespaceIndentation filename nesting_state clean_lines line)) (\<lambda>indentation.
       let before = Nolint raw line # map Report (update @ indentation); s = s\<lparr>ls_nesting := nesting_state\<rparr>
       in if InAsmBlock nesting_state then Some (Inr (before, s))
          else run_bind (check_line env filename file_extension clean_lines line s) (\<lambda>(rs, s).
            Some (Inr (before @ map Report rs, s))))))"

text \<open>The body of the loop over the lines.\<close>

definition process_line :: "lint_env \<Rightarrow> string \<Rightarrow> string \<Rightarrow> cleansed_lines \<Rightarrow> nat \<Rightarrow> line_state \<Rightarrow> (event list \<times> line_state) run" where
  "process_line env filename file_extension clean_lines line s =
     run_bind (ProcessLine env filename file_extension clean_lines line s) (\<lambda>(es, s).
     run_bind (Some (FlagCxx11Features filename clean_lines line)) (\<lambda>rs. Some (Inr (es @ map Report rs, s))))"

fun process_lines :: "lint_env \<Rightarrow> string \<Rightarrow> string \<Rightarrow> cleansed_lines \<Rightarrow> nat list \<Rightarrow> line_state \<Rightarrow> (event list \<times> line_state) run" where
  "process_lines env filename file_extension clean_lines [] s = Some (Inr ([], s))"
| "process_lines env filename file_extension clean_lines (line # ls) s =
     run_bind (process_line env filename file_extension clean_lines line s) (\<lambda>(es, s).
     run_bind (process_lines env filename file_extension clean_lines ls s) (\<lambda>(es', s). Some (Inr (es @ es', s))))"

section \<open>A file\<close>

definition FIRST_MARKER :: string where
  "FIRST_MARKER = ''// marker so line numbers and indices both start at 1''"

definition LAST_MARKER :: string where
  "LAST_MARKER = ''// marker so line numbers end in a known way''"

text \<open>The calls behind the loop.  A character of the model is a byte of Latin-1, so the code points of the
  lines are below 256.\<close>

definition check_file_end :: "lint_env \<Rightarrow> string \<Rightarrow> string \<Rightarrow> string list \<Rightarrow> cleansed_lines \<Rightarrow> line_state \<Rightarrow> report list option" where
  "check_file_end env filename file_extension ls clean_lines s =
     map_option (\<lambda>included.
         CheckCompletedBlocks filename (ls_nesting s) @
         CheckForIncludeWhatYouUse (le_fs env) (le_io env) filename clean_lines (ls_include s) @ included @
         CheckForBadCharacters filename (map (map of_char) ls) @
         CheckForNewlineAtEOF filename ls)
       (if file_extension = ''cc'' then CheckHeaderFileIncluded (le_fs env) filename (ls_include s) else Some [])"

definition ProcessFileData :: "lint_env \<Rightarrow> string \<Rightarrow> string \<Rightarrow> string list \<Rightarrow> event list run" where
  "ProcessFileData env filename file_extension ls =
     (let ls = [FIRST_MARKER] @ ls @ [LAST_MARKER];
          copyright = CheckForCopyright filename ls
      in case RemoveMultiLineComments filename ls of (comments, ls) \<Rightarrow>
           run_bind (Some (CleansedLines ls)) (\<lambda>clean_lines.
           run_bind (if file_extension = ''h''
                     then map_option Inr (CheckForHeaderGuard (le_fs env) (le_root env) filename clean_lines)
                     else Some (Inr [])) (\<lambda>guard.
           run_bind (process_lines env filename file_extension clean_lines [0..<NumLines clean_lines] init_line_state) (\<lambda>(es, s).
           run_bind (map_option Inr (check_file_end env filename file_extension ls clean_lines s)) (\<lambda>last.
             Some (Inr (map Report (copyright @ comments) @ guard @ es @ map Report last)))))))"

section \<open>Executing events\<close>

fun run_event :: "string \<Rightarrow> event \<Rightarrow> world \<Rightarrow> world result" where
  "run_event filename (Report r) w = Error r w"
| "run_event filename (Nolint raw linenum) w =
     (case ParseNolintSuppressions filename raw (int linenum) (w_supp w) of
        (rs, suppressed) \<Rightarrow> emit_all rs (w\<lparr>w_supp := suppressed\<rparr>))"

fun run_events :: "string \<Rightarrow> event list \<Rightarrow> world \<Rightarrow> world result" where
  "run_events filename [] w = Inr w"
| "run_events filename (e # es) w = res_bind (run_event filename e w) (run_events filename es)"

section \<open>What is reported\<close>

lemma listed_update_access: "listed f (fst (update_access f n l s))"
  by (auto simp: update_access_def Let_def split: option.split list.split block_kind.split)

lemma listedR_check_disallow [listed_intros]: "listedR f (check_disallow f name E is b)"
  by (induction f name E "is" b rule: check_disallow.induct) (auto intro!: listed_intros)

lemma listedR_CheckEnd_class [listed_intros]: "listedR f (CheckEnd_class f cl n ci)"
  unfolding CheckEnd_class_def
  by (rule listed_acc listed_intros conjI allI impI | simp split: option.split)+

lemma listedR_CheckEnd [listed_intros]: "listedR f (CheckEnd f cl n b)"
  unfolding CheckEnd_def CheckEnd_namespace_def Let_def
  by (cases "kind b") (auto intro!: listed_intros)

text \<open>Reports with a state.\<close>

definition listed_first :: "string \<Rightarrow> report list \<times> 'a \<Rightarrow> bool" where
  "listed_first f p \<longleftrightarrow> listed f (fst p)"

lemma listed_first_Pair [simp]: "listed_first f (rs, x) \<longleftrightarrow> listed f rs"
  by (simp add: listed_first_def)

lemma brace_token_listed: "res_all (listed_first f) (brace_token f cl n t l s)"
  unfolding brace_token_def
  by (auto split: list.split intro!: res_all_map dest: listedR_CheckEnd[THEN listedR_Inr_iff[THEN iffD1], rule_format])

lemma consume_braces_listed: "res_all (listed_first f) (consume_braces f cl n l s)"
proof (induction f cl n l s rule: consume_braces.induct)
  case (1 f cl n l s)
  show ?case
  proof (cases "re_match RE_BRACE l")
    case None
    then show ?thesis by (subst consume_braces.simps) simp
  next
    case (Some m)
    show ?thesis
    proof (cases "brace_token f cl n (grp m 1) l s")
      case (Inl e)
      with Some show ?thesis by (subst consume_braces.simps) simp
    next
      case (Inr p)
      obtain rs s' where p: "p = (rs, s')" by (cases p)
      from brace_token_listed[of f cl n "grp m 1" l s] Inr p have "listed f rs" by simp
      moreover have "res_all (listed_first f) (consume_braces f cl n (grp m 2) s')" using 1[OF Some Inr p[symmetric]] .
      ultimately show ?thesis using Some Inr p
        by (subst consume_braces.simps) (cases "consume_braces f cl n (grp m 2) s'"; auto)
    qed
  qed
qed

lemma Update_listed: "res_all (listed_first f) (Update f cl n s)"
  unfolding Update_def Let_def
  by (auto intro!: res_all_intros simp: listed_update_access case_prod_beta
      dest: consume_braces_listed[THEN res_allD])

lemma listed_file_parts [simp]:
  "listed f (CheckCompletedBlocks f s)"
  "listedR f (CheckForNamespaceIndentation f s cl n)"
  by (auto simp: CheckCompletedBlocks_def CheckForNamespaceIndentation_def CheckItemIndentationInNamespace_def
      listedR_Inr_iff split: block_kind.split if_splits)

lemma RemoveMultiLineComments_listed: "RemoveMultiLineComments f ls = (rs, ls') \<Longrightarrow> listed f rs"
proof -
  have "listed f (fst (remove_comments_from f ls i))" for i
    by (induction f ls i rule: remove_comments_from.induct)
       (subst remove_comments_from.simps, simp add: Let_def)
  then show "RemoveMultiLineComments f ls = (rs, ls') \<Longrightarrow> listed f rs"
    by (metis RemoveMultiLineComments_def fst_conv)
qed

lemma last_checks_listed: "c \<in> set (last_checks f cl n s) \<Longrightarrow> opt_all (listedR f) c"
  unfolding last_checks_def list.set list.map insert_iff empty_iff
  by (elim disjE FalseE; hypsubst) (simp_all add: listed_intros)

text \<open>The state of the includes always has a section, and what is reported is listed.\<close>

definition state_ok :: "line_state \<Rightarrow> bool" where
  "state_ok s \<longleftrightarrow> include_list (ls_include s) \<noteq> []"

lemma state_ok_init [simp]: "state_ok init_line_state"
  by (simp add: state_ok_def init_line_state_def init_include_state_def)

lemma run_all_listed: "opt_all (listedR f) r \<Longrightarrow> run_all (listed f) r"
  by (cases r) (auto simp: listedR_Inr_iff run_all_def)

lemma check_line_outcome:
  assumes "state_ok s"
  shows "run_all (\<lambda>(rs, s'). listed f rs \<and> state_ok s') (check_line env f e cl n s)"
proof -
  have language: "listed f rs \<and> include_list i \<noteq> []"
    if "CheckLanguage fs f cl n e (ls_include s) = Some (Inr (rs, i))" for fs rs i
    using CheckLanguage_outcome[of "ls_include s" f fs cl n e] assms that by (simp add: state_ok_def)
  have style: "listed f rs" if "CheckStyle fs root k f cl n e t = Some (Inr rs)" for fs root k t rs
    using run_all_listed[OF listed_CheckStyle[of f fs root k cl n e t]] that by simp
  have last: "listed f rs" if "run_checks (last_checks f cl n t) = Some (Inr rs)" for t rs
  proof -
    have "opt_all (listedR f) (run_checks (last_checks f cl n t))" by (rule run_checks_all) (rule last_checks_listed)
    from run_all_listed[OF this] that show ?thesis by simp
  qed
  have lengths: "listed f rs" if "CheckForFunctionLengths v f cl n t = Inr (rs, t')" for v t t' rs
    using CheckForFunctionLengths_listed that by blast
  have multi: "listed f rs" if "CheckForMultilineCommentsAndStrings f cl n = Inr rs" for rs
    using that by (rule multiline.reports_listed)
  show ?thesis
    unfolding check_line_def
    by (auto intro!: run_all_bind simp: state_ok_def dest: language style last lengths multi)
qed

lemma process_line_outcome:
  assumes "state_ok s"
  shows "run_all (\<lambda>(es, s'). listedE f es \<and> state_ok s') (process_line env f e cl n s)"
proof -
  have update: "listed f rs" if "Update f cl n t = Inr (rs, t')" for rs t t'
    using Update_listed[of f cl n t] that by simp
  have indentation: "listed f rs" if "CheckForNamespaceIndentation f t cl n = Inr rs" for t rs
    using listed_file_parts(2)[of f t cl n] that by simp
  have line: "listed f rs \<and> state_ok t'" if "check_line env f e cl n t = Some (Inr (rs, t'))" "state_ok t" for t t' rs
    using check_line_outcome[OF that(2), of f env e cl n] that(1) by simp
  have nesting: "state_ok (s\<lparr>ls_nesting := t\<rparr>)" for t using assms by (simp add: state_ok_def)
  have cxx: "listed f rs" if "FlagCxx11Features f cl n = Inr rs" for rs
    using that by (rule cxx11.reports_listed)
  show ?thesis
    unfolding process_line_def ProcessLine_def Let_def
    by (auto intro!: run_all_bind simp: nesting split: if_splits dest!: line[OF _ nesting])
      (blast dest: update indentation cxx)+
qed

section \<open>The loop as a step relation\<close>

text \<open>A state of the loop: the next line, the state of the file and the events so far.\<close>

inductive line_step :: "lint_env \<Rightarrow> string \<Rightarrow> string \<Rightarrow> cleansed_lines \<Rightarrow>
    nat \<times> line_state \<times> event list \<Rightarrow> nat \<times> line_state \<times> event list \<Rightarrow> bool"
  for env f e cl where
  step: "n < NumLines cl \<Longrightarrow> process_line env f e cl n s = Some (Inr (es, s')) \<Longrightarrow>
    line_step env f e cl (n, s, log) (Suc n, s', log @ es)"

inductive_cases line_stepE: "line_step env f e cl (n, s, log) y"

inductive_simps line_step_simps: "line_step env f e cl (n, s, log) (n', s', log')"

abbreviation line_steps where
  "line_steps env f e cl \<equiv> (line_step env f e cl)\<^sup>*\<^sup>*"

text \<open>Every reachable state is well formed, by induction over the steps.\<close>

lemma line_steps_invariant:
  assumes "line_steps env f e cl (0, init_line_state, []) (n, s, log)"
  shows "state_ok s \<and> listedE f log \<and> n \<le> NumLines cl"
  using assms
proof (induction "(n, s, log)" arbitrary: n s log rule: rtranclp_induct)
  case base
  then show ?case by simp
next
  case (step y)
  obtain m t l where y: "y = (m, t, l)" by (cases y)
  from step(3)[OF y] have "state_ok t" "listedE f l" by auto
  moreover from step(2) obtain es where "n = Suc m" "m < NumLines cl" "log = l @ es"
    "process_line env f e cl m t = Some (Inr (es, s))" unfolding y by (rule line_stepE) simp
  ultimately show ?case using process_line_outcome[of t f env e cl m] by simp
qed

text \<open>C9. Every state that the loop over the lines of a file reaches is well formed: the include state has a
  section, and each event so far is a NOLINT comment or a report on this file with a category of
  \<open>_ERROR_CATEGORIES\<close> and a confidence between 0 and 5.\<close>

theorem line_steps_typed:
  assumes "line_steps env f e cl (0, init_line_state, []) (n, s, log)"
  shows "state_ok s \<and> (\<forall>r. Report r \<in> set log \<longrightarrow> r_file r = f \<and> r_cat r \<in> set ERROR_CATEGORIES \<and>
    0 \<le> r_conf r \<and> r_conf r \<le> 5) \<and> n \<le> NumLines cl"
  using line_steps_invariant[OF assms] by (auto simp: listedE_def listed_def)

section \<open>The step relation and the loop\<close>

lemma line_step_stops: "line_steps env f e cl (NumLines cl, s, log) y \<Longrightarrow> y = (NumLines cl, s, log)"
  by (erule converse_rtranclpE) (auto elim: line_stepE)

lemma line_steps_loop:
  "n \<le> NumLines cl \<Longrightarrow> line_steps env f e cl (n, s, log) (NumLines cl, s', log') \<longleftrightarrow>
     (\<exists>es. process_lines env f e cl [n..<NumLines cl] s = Some (Inr (es, s')) \<and> log' = log @ es)"
proof (induction "NumLines cl - n" arbitrary: n s log)
  case 0
  then have "n = NumLines cl" by simp
  then show ?case by (auto dest: line_step_stops)
next
  case (Suc k)
  then have n: "n < NumLines cl" "[n..<NumLines cl] = n # [Suc n..<NumLines cl]" by (simp_all add: upt_conv_Cons)
  from Suc(2) have "k = NumLines cl - Suc n" by simp
  note IH = Suc.hyps(1)[OF this Suc_leI[OF n(1)]]
  show ?case
  proof
    assume "line_steps env f e cl (n, s, log) (NumLines cl, s', log')"
    then obtain y where y: "line_step env f e cl (n, s, log) y" "line_steps env f e cl y (NumLines cl, s', log')"
      using n(1) by (auto elim: converse_rtranclpE)
    from y(1) obtain es t where t: "y = (Suc n, t, log @ es)" "process_line env f e cl n s = Some (Inr (es, t))"
      by (rule line_stepE) auto
    from y(2)[unfolded t(1) IH] obtain es' where
      "process_lines env f e cl [Suc n..<NumLines cl] t = Some (Inr (es', s'))" "log' = (log @ es) @ es'" by blast
    with t(2) show "\<exists>es. process_lines env f e cl [n..<NumLines cl] s = Some (Inr (es, s')) \<and> log' = log @ es"
      by (simp add: n(2))
  next
    assume "\<exists>es. process_lines env f e cl [n..<NumLines cl] s = Some (Inr (es, s')) \<and> log' = log @ es"
    then obtain es t es' where first: "process_line env f e cl n s = Some (Inr (es, t))"
      and rest: "process_lines env f e cl [Suc n..<NumLines cl] t = Some (Inr (es', s'))" and log': "log' = log @ es @ es'"
      by (auto simp: n(2))
    have "line_step env f e cl (n, s, log) (Suc n, t, log @ es)" by (rule line_step.step[OF n(1) first])
    moreover have "line_steps env f e cl (Suc n, t, log @ es) (NumLines cl, s', log')"
      using rest log' by (subst IH) simp
    ultimately show "line_steps env f e cl (n, s, log) (NumLines cl, s', log')" by (rule converse_rtranclp_into_rtranclp)
  qed
qed


section \<open>What stops the linter\<close>

text \<open>The things that can raise or run for ever while the lines are processed: a cast that is continued on the
  next line, the check of rvalue references, unbalanced constructor arguments, the search for the top of the
  checkout, and a negative verbosity.\<close>

definition stops_nowhere :: "lint_env \<Rightarrow> string \<Rightarrow> cleansed_lines \<Rightarrow> bool" where
  "stops_nowhere env f cl \<longleftrightarrow>
     0 \<le> le_verbose env \<and>
     (\<forall>p. RepositoryName (le_fs env) \<lparr>fi_filename = p\<rparr> \<noteq> None) \<and>
     (\<forall>n<cl_num_lines cl.
        returns (dereferenced cl n (cl_elided cl ! n)) \<and>
        (\<forall>s. \<exists>rs. CheckRValueReference f cl n s = Some (Inr rs)) \<and>
        constructors_safe cl n)"

lemma CheckIncludeLine_Some:
  assumes "\<And>p. RepositoryName fs \<lparr>fi_filename = p\<rparr> \<noteq> None"
  shows "CheckIncludeLine fs f cl n st \<noteq> None"
proof -
  obtain name where name: "RepositoryName fs \<lparr>fi_filename = f\<rparr> = Some name" using assms[of f] by blast
  obtain base where base: "BaseName fs \<lparr>fi_filename = f\<rparr> = Some base" using name by (auto simp: BaseName_def Split_def)
  show ?thesis
    by (auto simp: CheckIncludeLine_def Let_def ClassifyInclude_def name base split: sum.split option.split)
qed

lemma check_line_returns:
  assumes inside: "aligned cl" "n < cl_num_lines cl" and ok: "state_ok s" and stops: "stops_nowhere env f cl"
  shows "\<exists>rs s'. check_line env f e cl n s = Some (Inr (rs, s'))"
proof -
  have verbose: "0 \<le> le_verbose env" and names: "\<And>p. RepositoryName (le_fs env) \<lparr>fi_filename = p\<rparr> \<noteq> None"
    and deref: "returns (dereferenced cl n (cl_elided cl ! n))"
    and rvalue: "\<exists>rs. CheckRValueReference f cl n (ls_nesting s) = Some (Inr rs)"
    and args: "constructors_safe cl n"
    using stops inside(2) by (auto simp: stops_nowhere_def)
  from CheckForFunctionLengths_returns[OF verbose inside] obtain l fs' where
    lengths: "CheckForFunctionLengths (le_verbose env) f cl n (ls_function s) = Inr (l, fs')" by blast
  from multiline.total[OF inside, of f] obtain m where
    multi: "CheckForMultilineCommentsAndStrings f cl n = Inr m" by blast
  have "header_guard_line (le_fs env) (le_root env) f e l \<noteq> None" for l
    using names by (auto simp: header_guard_line_def GetHeaderGuardCPPVariable_def Let_def)
  from CheckStyle_returns[OF inside this rvalue] obtain st where
    style: "CheckStyle (le_fs env) (le_root env) (le_line_length env) f cl n e (ls_nesting s) = Some (Inr st)" by blast
  have "CheckLanguage (le_fs env) f cl n e (ls_include s) \<noteq> None"
    using CheckIncludeLine_Some[OF names] by (auto simp: CheckLanguage_def split: sum.split)
  moreover have "opt_all returns (CheckLanguage (le_fs env) f cl n e (ls_include s))"
    using ok inside cast_check.returns_if_safe[OF inside deref] by (intro CheckLanguage_returns) (simp_all add: state_ok_def)
  ultimately obtain la i where
    language: "CheckLanguage (le_fs env) f cl n e (ls_include s) = Some (Inr (la, i))" by (auto simp: returns_iff)
  have constructs: "\<exists>rs. CheckForNonStandardConstructs f cl n (ls_nesting s) = Inr rs"
    using constructs.returns_if_safe[OF inside args, of f "ls_nesting s"] by (auto simp: returns_iff)
  have "\<exists>rs. c = Some (Inr rs)" if "c \<in> set (last_checks f cl n (ls_nesting s))" for c
    using that unfolding last_checks_def list.set list.map insert_iff empty_iff
    by (elim disjE FalseE; hypsubst) (simp_all add: constructs total_check_at[OF inside] reference_parameters.total[OF inside])
  from run_checks_returns[OF this] obtain r where "run_checks (last_checks f cl n (ls_nesting s)) = Some (Inr r)" by blast
  with lengths multi style language show ?thesis by (simp add: check_line_def)
qed

lemma process_line_returns:
  assumes inside: "aligned cl" "n < cl_num_lines cl" and ok: "state_ok s" and stops: "stops_nowhere env f cl"
  shows "\<exists>es s'. process_line env f e cl n s = Some (Inr (es, s'))"
proof -
  have wf: "well_formed cl" "n < NumLines cl" using inside by (simp_all add: well_formed_def aligned_def NumLines_def)
  from Update_total[OF wf] obtain u t where update: "Update f cl n (ls_nesting s) = Inr (u, t)" by blast
  have "\<exists>l. py_get (cl_elided cl) (int n - 1) = Inr l" using elided_before[OF inside] by (simp add: elided_at_def)
  moreover have "py_get (cl_elided cl) (int n) = Inr (cl_elided cl ! n)" using inside by (simp add: aligned_def)
  ultimately have "returns (CheckForNamespaceIndentation f t cl n)"
    by (auto simp: CheckForNamespaceIndentation_def ShouldCheckNamespaceIndentation_def IsMacroDefinition_def
        IsForwardClassDeclaration_def CheckItemIndentationInNamespace_def)
  then obtain ind where indentation: "CheckForNamespaceIndentation f t cl n = Inr ind" by (auto simp: returns_iff)
  have ok': "state_ok (s\<lparr>ls_nesting := t\<rparr>)" using ok by (simp add: state_ok_def)
  from check_line_returns[OF inside ok' stops, of e] obtain rs s' where
    line: "check_line env f e cl n (s\<lparr>ls_nesting := t\<rparr>) = Some (Inr (rs, s'))" by blast
  from cxx11.total[OF inside, of f] obtain x where "FlagCxx11Features f cl n = Inr x" by blast
  with update indentation line inside show ?thesis by (simp add: process_line_def ProcessLine_def Let_def)
qed

lemma process_lines_return:
  "aligned cl \<Longrightarrow> stops_nowhere env f cl \<Longrightarrow> state_ok s \<Longrightarrow> \<forall>n\<in>set ns. n < cl_num_lines cl \<Longrightarrow>
     \<exists>es s'. process_lines env f e cl ns s = Some (Inr (es, s'))"
proof (induction ns arbitrary: s)
  case (Cons n ns)
  then obtain es s' where step: "process_line env f e cl n s = Some (Inr (es, s'))"
    using process_line_returns[of cl n s env f e] by auto
  with process_line_outcome[OF Cons.prems(3), of f env e cl n] have "state_ok s'" by simp
  with Cons obtain es' s'' where "process_lines env f e cl ns s' = Some (Inr (es', s''))" by fastforce
  with step show ?case by simp
qed simp

text \<open>C6. Every line is processed: unless one of the known things stops the linter, the loop reaches the end of
  the file.\<close>

theorem line_steps_live:
  assumes "aligned cl" "stops_nowhere env f cl"
  shows "\<exists>s es. line_steps env f e cl (0, init_line_state, []) (NumLines cl, s, es)"
  using process_lines_return[OF assms state_ok_init, of "[0..<NumLines cl]" e] line_steps_loop[of 0 cl env f e init_line_state "[]"]
  by (auto simp: NumLines_def)

text \<open>Lines without parentheses and without \<open>&\<close> stop nothing.\<close>

lemma quiet_patterns:
  "re_match RE_NAMED_CAST l = Some m \<Longrightarrow> CHR ''&'' \<in> set l"
  "re_match RE_TIGHT_AND_LEFT l = Some m \<Longrightarrow> CHR ''&'' \<in> set l"
  "re_match RE_TIGHT_AND_RIGHT l = Some m \<Longrightarrow> CHR ''&'' \<in> set l"
  by (erule re_match_path, force simp: RE_NAMED_CAST_def RE_TIGHT_AND_LEFT_def RE_TIGHT_AND_RIGHT_def rx_simps one_of_def)+

lemma RE_CONSTRUCTOR_paren:
  assumes "re_match (RE_CONSTRUCTOR name) l = Some m"
  shows "CHR ''('' \<in> set l"
proof -
  let ?front = "[RPlus ws, ROpt (seqs [lit ''inline'', RPlus ws]), ROpt (RGroup 1 (seqs [lit ''explicit'', RPlus ws])),
       ROpt (seqs [lit ''inline'', RPlus ws]), lit name, RStar ws]"
  let ?rest = "[lit ''('', RGroup 2 (RStar (alts [noneof ''()'', seqs [lit ''('', RStar (noneof ''()''), lit '')'']])), lit '')'']"
  have re: "RE_CONSTRUCTOR name = seqs (?front @ ?rest)" by (simp add: RE_CONSTRUCTOR_def)
  from assms obtain u v cs where "(([], l, []), (u, v, cs)) \<in> paths (RE_CONSTRUCTOR name)" by (rule re_match_path)
  then obtain a b ds where front: "(([], l, []), (a, b, ds)) \<in> paths (seqs ?front)"
    and rest: "((a, b, ds), (u, v, cs)) \<in> paths (seqs ?rest)"
    unfolding re by (subst (asm) paths_seqs_append) auto
  from front obtain t where "l = t @ b" by (rule paths_split)
  moreover from rest obtain b' where "b = CHR ''('' # b'" unfolding seqs.simps paths_Seq paths_lit by auto
  ultimately show ?thesis by simp
qed

lemma quiet_lines_stop_nowhere:
  assumes "aligned cl" "0 \<le> le_verbose env" "\<And>p. RepositoryName (le_fs env) \<lparr>fi_filename = p\<rparr> \<noteq> None"
    and quiet: "\<And>l. l \<in> set (cl_elided cl) \<Longrightarrow> CHR ''&'' \<notin> set l \<and> CHR ''('' \<notin> set l"
  shows "stops_nowhere env f cl"
proof -
  have "returns (dereferenced cl n (cl_elided cl ! n)) \<and> (\<forall>s. \<exists>rs. CheckRValueReference f cl n s = Some (Inr rs)) \<and>
      constructors_safe cl n"
    if n: "n < cl_num_lines cl" for n
  proof -
    let ?l = "cl_elided cl ! n"
    have l: "CHR ''&'' \<notin> set ?l" "CHR ''('' \<notin> set ?l" using quiet[of ?l] n assms(1) by (simp_all add: aligned_def)
    from l(1) have "re_match RE_NAMED_CAST ?l = None" "re_match RE_TIGHT_AND_LEFT ?l = None" "re_match RE_TIGHT_AND_RIGHT ?l = None"
      using quiet_patterns by (metis not_None_eq)+
    moreover have "re_match (RE_CONSTRUCTOR name) ?l = None" for name
      using l(2) RE_CONSTRUCTOR_paren by (metis not_None_eq)
    ultimately show ?thesis using n assms(1) by (simp add: dereferenced_def CheckRValueReference_def constructors_safe_def)
  qed
  with assms show ?thesis by (simp add: stops_nowhere_def)
qed

definition example_env :: lint_env where
  "example_env = \<lparr>le_fs = \<lparr>cwd = ''/'', present = (\<lambda>p. False)\<rparr>, le_io = (\<lambda>p. None), le_root = None,
     le_line_length = 80, le_verbose = 1\<rparr>"

definition example_file :: cleansed_lines where
  "example_file = plain_lines ['''', ''int x;'', '''', ''static int  y;'']"

lemma example_file: "aligned example_file" "stops_nowhere example_env f example_file"
  unfolding example_file_def
  by (simp, rule quiet_lines_stop_nowhere) (auto simp: example_env_def RepositoryName_def Let_def)

theorem line_steps_live_witness:
  "\<exists>s es. line_steps example_env ''a.cc'' ''cc'' example_file (0, init_line_state, []) (NumLines example_file, s, es)"
  by (rule line_steps_live[OF example_file])

theorem line_steps_typed_witness:
  "\<exists>s es. line_steps example_env ''a.cc'' ''cc'' example_file (0, init_line_state, []) (NumLines example_file, s, es) \<and>
     state_ok s \<and> (\<forall>r. Report r \<in> set es \<longrightarrow> r_cat r \<in> set ERROR_CATEGORIES)"
proof -
  obtain es s where "process_lines example_env ''a.cc'' ''cc'' example_file [0..<NumLines example_file] init_line_state =
      Some (Inr (es, s))"
    using process_lines_return[OF example_file(1) example_file(2)[of "''a.cc''"] state_ok_init,
        of "[0..<NumLines example_file]" "''cc''"] by (auto simp: NumLines_def)
  then have "line_steps example_env ''a.cc'' ''cc'' example_file (0, init_line_state, []) (NumLines example_file, s, es)"
    by (simp add: line_steps_loop)
  with line_steps_typed[OF this] show ?thesis by blast
qed

section \<open>Whole files\<close>


section \<open>The events on the handler\<close>

text \<open>What the events leave alone: the options and the filters.\<close>

definition same_options :: "world \<Rightarrow> world \<Rightarrow> bool" where
  "same_options w w' \<longleftrightarrow> filters (w_lint w') = filters (w_lint w) \<and> filters_backup (w_lint w') = filters_backup (w_lint w) \<and>
     verbose_level (w_lint w') = verbose_level (w_lint w) \<and> output_format (w_lint w') = output_format (w_lint w) \<and>
     counting (w_lint w') = counting (w_lint w)"

lemma same_options_refl [simp]: "same_options w w"
  by (simp add: same_options_def)

lemma same_options_trans: "same_options a b \<Longrightarrow> same_options b c \<Longrightarrow> same_options a c"
  by (simp add: same_options_def)

lemma same_options_filters_ok: "same_options w w' \<Longrightarrow> filters_ok w' = filters_ok w"
  by (simp add: same_options_def filters_ok_def)

lemma Error_same: "filters_ok w \<Longrightarrow> \<exists>w'. Error r w = Inr w' \<and> same_options w w'"
  by (simp add: Error_eq same_options_def)

lemma emit_same: "filters_ok w \<Longrightarrow> \<exists>w'. emit_all rs w = Inr w' \<and> same_options w w'"
proof (induction rs arbitrary: w)
  case (Cons r rs)
  from Error_same[OF Cons.prems, of r] obtain w1 where w1: "Error r w = Inr w1" "same_options w w1" by blast
  with Cons.prems same_options_filters_ok have "filters_ok w1" by blast
  from Cons.IH[OF this] w1 same_options_trans show ?case by fastforce
qed simp

lemma run_event_same: "filters_ok w \<Longrightarrow> \<exists>w'. run_event f e w = Inr w' \<and> same_options w w'"
proof (cases e)
  case (Nolint raw n)
  assume ok: "filters_ok w"
  obtain rs S where p: "ParseNolintSuppressions f raw (int n) (w_supp w) = (rs, S)" by fastforce
  have "filters_ok (w\<lparr>w_supp := S\<rparr>)" "same_options w (w\<lparr>w_supp := S\<rparr>)" using ok by (simp_all add: filters_ok_def same_options_def)
  with emit_same[of "w\<lparr>w_supp := S\<rparr>" rs] same_options_trans show ?thesis by (auto simp: Nolint p)
qed (simp add: Error_same)

lemma run_events_same: "filters_ok w \<Longrightarrow> \<exists>w'. run_events f es w = Inr w' \<and> same_options w w'"
proof (induction es arbitrary: w)
  case (Cons e es)
  from run_event_same[OF Cons.prems, of f e] obtain w1 where w1: "run_event f e w = Inr w1" "same_options w w1" by blast
  with Cons.prems same_options_filters_ok have "filters_ok w1" by blast
  from Cons.IH[OF this] w1 same_options_trans show ?case by fastforce
qed simp

end
