(* ===== verification/Driver.thy ===== *)
theory Driver
  imports LineDriver
begin

text \<open>
  Files, options and the program (\<open>cpplint.py\<close>: \<open>_USAGE\<close>, \<open>_line_length\<close>, \<open>_valid_extensions\<close>,
  \<open>ProcessConfigOverrides\<close>, \<open>ProcessFile\<close>, \<open>PrintUsage\<close>, \<open>PrintCategories\<close>, \<open>ParseArguments\<close>, \<open>main\<close>).

  The module's global variables are \<open>globals\<close>; what the program reads from outside is a \<open>system\<close>: the file
  system, the contents of files, configuration files, and \<open>re.compile\<close> for the patterns that users
  write.  The walk up the directories for configuration files is \<open>config_dirs\<close>, which terminates because the
  directories get shorter.  \<open>sys.exit\<close> is the result \<open>Exit\<close>.  The lemmas show what a file may and may not
  change for the files after it, what a successful parse of the arguments guarantees, and that the exit
  status and the counts agree with what was printed.
\<close>

section \<open>Global state and environment\<close>

record globals =
  g_world :: world
  g_root :: "string option"
  g_line_length :: int
  g_extensions :: "string list"

text \<open>The initial values; the set of extensions is a list.\<close>

definition init_globals :: globals where
  "init_globals = \<lparr>g_world = \<lparr>w_lint = init_lint_state, w_supp = Map.empty, w_stderr = []\<rparr>, g_root = None,
     g_line_length = 80, g_extensions = [''cc'', ''h'', ''cpp'', ''cu'', ''cuh'']\<rparr>"

text \<open>\<open>sy_read\<close> and \<open>sy_config\<close> are \<open>None\<close> for a file that cannot be opened.\<close>

record system =
  sy_fs :: file_system
  sy_io :: reader
  sy_read :: "string \<Rightarrow> string option"
  sy_stdin :: string
  sy_isfile :: "string \<Rightarrow> bool"
  sy_config :: "string \<Rightarrow> string list option"
  sy_compile :: "string \<Rightarrow> regex"

definition print :: "string \<Rightarrow> globals \<Rightarrow> globals" where
  "print s g = g\<lparr>g_world := (g_world g)\<lparr>w_stderr := w_stderr (g_world g) @ [s]\<rparr>\<rparr>"

definition update_lint :: "(lint_state \<Rightarrow> lint_state) \<Rightarrow> globals \<Rightarrow> globals" where
  "update_lint f g = g\<lparr>g_world := (g_world g)\<lparr>w_lint := f (w_lint (g_world g))\<rparr>\<rparr>"

text \<open>\<open>_AddFilters\<close> on the global state\<close>

definition add_filters :: "string \<Rightarrow> globals \<Rightarrow> globals result" where
  "add_filters fs g =
     (case AddFilters fs (w_lint (g_world g)) of
        (Inl e, s) \<Rightarrow> Inl e
      | (Inr u, s) \<Rightarrow> Inr (update_lint (\<lambda>_. s) g))"

text \<open>\<open>int(s)\<close>: digits with an optional sign, between white space.\<close>

fun digits_value :: "string \<Rightarrow> int \<Rightarrow> int option" where
  "digits_value [] acc = Some acc"
| "digits_value (c # cs) acc =
     (if digit_char c then digits_value cs (acc * 10 + int (of_char c - 48)) else None)"

definition py_int :: "string \<Rightarrow> int option" where
  "py_int s =
     (case strip ascii_space s of
        [] \<Rightarrow> None
      | c # cs \<Rightarrow>
          if c = CHR ''-'' then (if cs = [] then None else map_option uminus (digits_value cs 0))
          else if c = CHR ''+'' then (if cs = [] then None else digits_value cs 0)
          else digits_value (c # cs) 0)"

section \<open>Configuration files\<close>

record config_state =
  cf_filters :: "string list"
  cf_looking :: bool
  cf_line_length :: int
  cf_stderr :: "string list"
  cf_excluded :: bool

definition config_message :: "string \<Rightarrow> config_state \<Rightarrow> config_state" where
  "config_message s st = st\<lparr>cf_stderr := cf_stderr st @ [s]\<rparr>"

text \<open>One line \<open>name = value\<close> of a configuration file.\<close>

definition config_line :: "system \<Rightarrow> string \<Rightarrow> string \<Rightarrow> string \<Rightarrow> string \<Rightarrow> config_state \<Rightarrow> config_state" where
  "config_line sys filename cfg_file base_name line st =
     (let line = takeWhile (\<lambda>c. c \<noteq> CHR ''#'') line
      in if strip ascii_space line = [] then st
         else
           (let name = strip ascii_space (takeWhile (\<lambda>c. c \<noteq> CHR ''='') line);
                val = strip ascii_space (drop 1 (dropWhile (\<lambda>c. c \<noteq> CHR ''='') line))
            in if name = ''set noparent'' then st\<lparr>cf_looking := False\<rparr>
               else if name = ''filter'' then st\<lparr>cf_filters := cf_filters st @ [val]\<rparr>
               else if name = ''exclude_files'' then
                 (if base_name \<noteq> [] \<and> matches (sy_compile sys val) base_name
                  then (config_message (''Ignoring '' @ [DQ] @ filename @ [DQ] @ '': file excluded by '' @ [DQ] @ cfg_file @ [DQ] @
                          ''. File path component '' @ [DQ] @ base_name @ [DQ] @ '' matches pattern '' @ [DQ] @ val @ [DQ, NL]) st)
                        \<lparr>cf_excluded := True\<rparr>
                  else st)
               else if name = ''linelength'' then
                 (case py_int val of
                    Some i \<Rightarrow> st\<lparr>cf_line_length := i\<rparr>
                  | None \<Rightarrow> config_message ''Line length must be numeric.'' st)
               else config_message (''Invalid configuration option ('' @ name @ '') in file '' @ cfg_file @ [NL]) st))"

fun config_lines :: "system \<Rightarrow> string \<Rightarrow> string \<Rightarrow> string \<Rightarrow> string list \<Rightarrow> config_state \<Rightarrow> config_state" where
  "config_lines sys filename cfg_file base_name [] st = st"
| "config_lines sys filename cfg_file base_name (line # ls) st =
     (let st = config_line sys filename cfg_file base_name line st
      in if cf_excluded st then st else config_lines sys filename cfg_file base_name ls st)"

lemma path_split_shorter:
  assumes "path_split p = (h, t)" "t \<noteq> []"
  shows "length h < length p"
proof -
  let ?i = "nat (py_rfind p SLASH + 1)"
  from assms have t: "t = drop ?i p" and h: "length h \<le> length (take ?i p)"
    by (auto simp: path_split_def Let_def rstrip_slash_def length_rstrip split: if_splits intro: order_trans[OF length_rstrip])
  from t assms(2) have "?i < length p" by simp
  with h show ?thesis by simp
qed

text \<open>The loop over the directories, from the file's own one up to the root.\<close>

function config_dirs :: "system \<Rightarrow> string \<Rightarrow> string \<Rightarrow> config_state \<Rightarrow> config_state" where
  "config_dirs sys filename abs_filename st =
     (if \<not> cf_looking st then st
      else case path_split abs_filename of (abs_path, base_name) \<Rightarrow>
        if base_name = [] then st
        else
          (let cfg_file = path_join abs_path ''CPPLINT.cfg''
           in if \<not> sy_isfile sys cfg_file then config_dirs sys filename abs_path st
              else case sy_config sys cfg_file of
                None \<Rightarrow> config_message (''Skipping config file '' @ [SQ] @ cfg_file @ [SQ] @ '': Can'' @ [SQ] @ ''t open for reading'' @ [NL])
                          (st\<lparr>cf_looking := False\<rparr>)
              | Some ls \<Rightarrow>
                  (let st = config_lines sys filename cfg_file base_name ls st
                   in if cf_excluded st then st else config_dirs sys filename abs_path st)))"
  by pat_completeness auto
termination
  by (relation "measure (\<lambda>(sys, f, p, st). length p)") (auto intro: path_split_shorter[OF sym])

declare config_dirs.simps [simp del]

fun add_all_filters :: "string list \<Rightarrow> globals \<Rightarrow> globals result" where
  "add_all_filters [] g = Inr g"
| "add_all_filters (f # fs) g = res_bind (add_filters f g) (add_all_filters fs)"

text \<open>\<open>False\<close> when the file is excluded; its line length and messages stay.\<close>

definition ProcessConfigOverrides :: "system \<Rightarrow> string \<Rightarrow> globals \<Rightarrow> (bool \<times> globals) result" where
  "ProcessConfigOverrides sys filename g =
     (let st = config_dirs sys filename (abspath (sy_fs sys) filename)
                 \<lparr>cf_filters = [], cf_looking = True, cf_line_length = g_line_length g, cf_stderr = [], cf_excluded = False\<rparr>;
          g = g\<lparr>g_line_length := cf_line_length st,
                g_world := (g_world g)\<lparr>w_stderr := w_stderr (g_world g) @ cf_stderr st\<rparr>\<rparr>
      in if cf_excluded st then Inr (False, g)
         else res_map (\<lambda>g. (True, g)) (add_all_filters (rev (cf_filters st)) g))"

section \<open>A file\<close>

text \<open>The lines without carriage returns at their ends, the numbers of the lines that end with a line feed
  only, and those of the lines that had a carriage return; the last piece of the split is left alone.\<close>

definition has_cr :: "string list \<Rightarrow> nat \<Rightarrow> bool" where
  "has_cr ls i \<longleftrightarrow> i + 1 < length ls \<and> endswith (ls ! i) [CR]"

definition strip_line_ends :: "string list \<Rightarrow> string list" where
  "strip_line_ends ls = map (\<lambda>i. if has_cr ls i then rstrip ((=) CR) (ls ! i) else ls ! i) [0..<length ls]"

definition crlf_lines :: "string list \<Rightarrow> nat list" where
  "crlf_lines ls = map Suc (filter (has_cr ls) [0..<length ls - 1])"

definition lf_lines :: "string list \<Rightarrow> nat list" where
  "lf_lines ls = map Suc (filter (\<lambda>i. \<not> has_cr ls i) [0..<length ls - 1])"

definition mixed_line_ends :: "string \<Rightarrow> string list \<Rightarrow> report list" where
  "mixed_line_ends filename ls =
     (if lf_lines ls \<noteq> [] \<and> crlf_lines ls \<noteq> []
      then map (\<lambda>linenum. report filename (int linenum) ''whitespace/newline'' 1
              (''Unexpected '' @ [BS] @ ''r (^M) found; better to use only '' @ [BS] @ ''n'')) (crlf_lines ls)
      else [])"

text \<open>\<open>filename[filename.rfind('.') + 1:]\<close>\<close>

definition file_extension :: "string \<Rightarrow> string" where
  "file_extension filename = drop (nat (py_rfind filename CHR ''.'' + 1)) filename"

text \<open>The pattern of \<open>--root\<close>, which is used when it is not empty.\<close>

definition root_pattern :: "system \<Rightarrow> string option \<Rightarrow> regex option" where
  "root_pattern sys root =
     (case root of None \<Rightarrow> None | Some r \<Rightarrow> if r = [] then None else Some (sy_compile sys (''^'' @ r @ ''/'')))"

definition file_env :: "system \<Rightarrow> globals \<Rightarrow> lint_env" where
  "file_env sys g = \<lparr>le_fs = sy_fs sys, le_io = sy_io sys, le_root = root_pattern sys (g_root g),
     le_line_length = g_line_length g, le_verbose = verbose_level (w_lint (g_world g))\<rparr>"

text \<open>Linting the lines of a file: the suppressions are reset, the events are executed, and the line ends
  are reported.\<close>

definition lint_lines :: "system \<Rightarrow> string \<Rightarrow> string list \<Rightarrow> globals \<Rightarrow> globals run" where
  "lint_lines sys filename ls g =
     run_bind (ProcessFileData (file_env sys g) filename (file_extension filename) (strip_line_ends ls)) (\<lambda>es.
       Some (res_map (\<lambda>w. g\<lparr>g_world := w\<rparr>)
         (run_events filename (es @ map Report (mixed_line_ends filename ls))
           ((g_world g)\<lparr>w_supp := ResetNolintSuppressions\<rparr>))))"

definition read_lines :: "system \<Rightarrow> string \<Rightarrow> string list option" where
  "read_lines sys filename =
     map_option (split_char NL) (if filename = ''-'' then Some (sy_stdin sys) else sy_read sys filename)"

definition ProcessFile :: "system \<Rightarrow> string \<Rightarrow> int \<Rightarrow> globals \<Rightarrow> globals run" where
  "ProcessFile sys filename vlevel g =
     (let g = update_lint (\<lambda>s. BackupFilters (snd (SetVerboseLevel vlevel s))) g
      in run_bind (Some (ProcessConfigOverrides sys filename g)) (\<lambda>(process, g).
           if \<not> process then Some (Inr (update_lint RestoreFilters g))
           else case read_lines sys filename of
             None \<Rightarrow> Some (Inr (update_lint RestoreFilters
                 (print (''Skipping input '' @ [SQ] @ filename @ [SQ] @ '': Can'' @ [SQ] @ ''t open for reading'' @ [NL]) g)))
           | Some ls \<Rightarrow>
               run_bind (if filename \<noteq> ''-'' \<and> file_extension filename \<notin> set (g_extensions g)
                 then Some (Inr (print (''Ignoring '' @ filename @ ''; not a valid file name ('' @
                     concat (map (\<lambda>(i, e). if i = 0 then e else '', '' @ e) (enumerate 0 (g_extensions g))) @ '')'' @ [NL]) g))
                 else lint_lines sys filename ls g) (\<lambda>g.
                   Some (Inr (update_lint RestoreFilters (print (''Done processing '' @ filename @ [NL]) g))))))"

section \<open>Usage\<close>

definition USAGE :: string where
  "USAGE = concat (map (\<lambda>line. line @ [NL]) [
     [],
     ''Syntax: cpplint.py [--verbose=#] [--output=vs7] [--filter=-x,+y,...]'',
     ''                   [--counting=total|toplevel|detailed] [--root=subdir]'',
     ''                   [--linelength=digits]'',
     ''        <file> [file] ...'',
     [],
     ''  The style guidelines this tries to follow are those in'',
     ''    http://google-styleguide.googlecode.com/svn/trunk/cppguide.xml'',
     [],
     ''  Every problem is given a confidence score from 1-5, with 5 meaning we are'',
     ''  certain of the problem, and 1 meaning it could be a legitimate construct.'',
     ''  This will miss some errors, and is not a substitute for a code review.'',
     [],
     ''  To suppress false-positive errors of a certain category, add a'',
     ''  '' @ [SQ] @ ''NOLINT(category)'' @ [SQ] @ '' comment to the line.  NOLINT or NOLINT(*)'',
     ''  suppresses errors of all categories on that line.'',
     [],
     ''  The files passed in will be linted; at least one file must be provided.'',
     ''  Default linted extensions are .cc, .cpp, .cu, .cuh and .h.  Change the'',
     ''  extensions with the --extensions flag.'',
     [],
     ''  Flags:'',
     [],
     ''    output=vs7'',
     ''      By default, the output is formatted to ease emacs parsing.  Visual Studio'',
     ''      compatible output (vs7) may also be used.  Other formats are unsupported.'',
     [],
     ''    verbose=#'',
     ''      Specify a number 0-5 to restrict errors to certain verbosity levels.'',
     [],
     ''    filter=-x,+y,...'',
     ''      Specify a comma-separated list of category-filters to apply: only'',
     ''      error messages whose category names pass the filters will be printed.'',
     ''      (Category names are printed with the message and look like'',
     ''      '' @ [DQ] @ ''[whitespace/indent]'' @ [DQ] @ ''.)  Filters are evaluated left to right.'',
     ''      '' @ [DQ] @ ''-FOO'' @ [DQ] @ '' and '' @ [DQ] @ ''FOO'' @ [DQ] @ '' means '' @ [DQ] @ ''do not print categories that start with FOO'' @ [DQ] @ ''.'',
     ''      '' @ [DQ] @ ''+FOO'' @ [DQ] @ '' means '' @ [DQ] @ ''do print categories that start with FOO'' @ [DQ] @ ''.'',
     [],
     ''      Examples: --filter=-whitespace,+whitespace/braces'',
     ''                --filter=whitespace,runtime/printf,+runtime/printf_format'',
     ''                --filter=-,+build/include_what_you_use'',
     [],
     ''      To see a list of all the categories used in cpplint, pass no arg:'',
     ''         --filter='',
     [],
     ''    counting=total|toplevel|detailed'',
     ''      The total number of errors found is always printed. If'',
     ''      '' @ [SQ] @ ''toplevel'' @ [SQ] @ '' is provided, then the count of errors in each of'',
     ''      the top-level categories like '' @ [SQ] @ ''build'' @ [SQ] @ '' and '' @ [SQ] @ ''whitespace'' @ [SQ] @ '' will'',
     ''      also be printed. If '' @ [SQ] @ ''detailed'' @ [SQ] @ '' is provided, then a count'',
     ''      is provided for each category like '' @ [SQ] @ ''build/class'' @ [SQ] @ ''.'',
     [],
     ''    root=subdir'',
     ''      The root directory used for deriving header guard CPP variable.'',
     ''      By default, the header guard CPP variable is calculated as the relative'',
     ''      path to the directory that contains .git, .hg, or .svn.  When this flag'',
     ''      is specified, the relative path is calculated from the specified'',
     ''      directory. If the specified directory does not exist, this flag is'',
     ''      ignored.'',
     [],
     ''      Examples:'',
     ''        Assuming that src/.git exists, the header guard CPP variables for'',
     ''        src/chrome/browser/ui/browser.h are:'',
     [],
     ''        No flag => CHROME_BROWSER_UI_BROWSER_H_'',
     ''        --root=chrome => BROWSER_UI_BROWSER_H_'',
     ''        --root=chrome/browser => UI_BROWSER_H_'',
     [],
     ''    linelength=digits'',
     ''      This is the allowed line length for the project. The default value is'',
     ''      80 characters.'',
     [],
     ''      Examples:'',
     ''        --linelength=120'',
     [],
     ''    extensions=extension,extension,...'',
     ''      The allowed file extensions that cpplint will check'',
     [],
     ''      Examples:'',
     ''        --extensions=hpp,cpp'',
     [],
     ''    cpplint.py supports per-directory configurations specified in CPPLINT.cfg'',
     ''    files. CPPLINT.cfg file can contain a number of key=value pairs.'',
     ''    Currently the following options are supported:'',
     [],
     ''      set noparent'',
     ''      filter=+filter1,-filter2,...'',
     ''      exclude_files=regex'',
     ''      linelength=80'',
     [],
     ''    '' @ [DQ] @ ''set noparent'' @ [DQ] @ '' option prevents cpplint from traversing directory tree'',
     ''    upwards looking for more .cfg files in parent directories. This option'',
     ''    is usually placed in the top-level project directory.'',
     [],
     ''    The '' @ [DQ] @ ''filter'' @ [DQ] @ '' option is similar in function to --filter flag. It specifies'',
     ''    message filters in addition to the |_DEFAULT_FILTERS| and those specified'',
     ''    through --filter command-line flag.'',
     [],
     ''    '' @ [DQ] @ ''exclude_files'' @ [DQ] @ '' allows to specify a regular expression to be matched against'',
     ''    a file name. If the expression matches, the file is skipped and not run'',
     ''    through liner.'',
     [],
     ''    '' @ [DQ] @ ''linelength'' @ [DQ] @ '' allows to specify the allowed line length for the project.'',
     [],
     ''    CPPLINT.cfg has an effect on files in the same directory and all'',
     ''    sub-directories, unless overridden by a nested configuration file.'',
     [],
     ''      Example file:'',
     ''        filter=-build/include_order,+build/include_alpha'',
     ''        exclude_files=.*'' @ [BS] @ ''.cc'',
     [],
     ''    The above example disables build/include_order warning and enables'',
     ''    build/include_alpha as well as excludes all .cc from being'',
     ''    processed by linter, in the current directory (where the .cfg'',
     ''    file is located) and all sub-directories.''])"

datatype 'a parsed = Exit int globals | Raised py_exn | Finished 'a

fun parsed_bind :: "'a parsed \<Rightarrow> ('a \<Rightarrow> 'b parsed) \<Rightarrow> 'b parsed" where
  "parsed_bind (Exit status g) f = Exit status g"
| "parsed_bind (Raised e) f = Raised e"
| "parsed_bind (Finished x) f = f x"

definition PrintUsage :: "string \<Rightarrow> globals \<Rightarrow> 'a parsed" where
  "PrintUsage message g =
     Exit 1 (if message \<noteq> [] then print ([NL] @ ''FATAL ERROR: '' @ message @ [NL]) (print USAGE g) else print USAGE g)"

definition PrintCategories :: "globals \<Rightarrow> 'a parsed" where
  "PrintCategories g = Exit 0 (print (concat (map (\<lambda>cat. ''  '' @ cat @ [NL]) ERROR_CATEGORIES)) g)"

section \<open>Command line\<close>

definition LONG_OPTIONS :: "string list" where
  "LONG_OPTIONS = [''help'', ''output='', ''verbose='', ''counting='', ''filter='', ''root='', ''linelength='', ''extensions='']"

text \<open>\<open>getopt.getopt\<close> without short options: a long option may be shortened to a unique prefix, and takes
  its argument from behind \<open>=\<close> or from the next word.  \<open>None\<close> stands for \<open>GetoptError\<close>.\<close>

definition long_has_args :: "string \<Rightarrow> string list \<Rightarrow> (bool \<times> string) option" where
  "long_has_args opt longopts =
     (let possibilities = filter (\<lambda>o'. startswith o' opt) longopts
      in if possibilities = [] then None
         else if opt \<in> set possibilities then Some (False, opt)
         else if opt @ ''='' \<in> set possibilities then Some (True, opt)
         else if 1 < length possibilities then None
         else (let unique_match = hd possibilities
               in if endswith unique_match ''='' then Some (True, butlast unique_match) else Some (False, unique_match)))"

fun getopt :: "string list \<Rightarrow> string list \<Rightarrow> ((string \<times> string) list \<times> string list) option" where
  "getopt longopts [] = Some ([], [])"
| "getopt longopts (a # args) =
     (if \<not> startswith a ''-'' \<or> a = ''-'' then Some ([], a # args)
      else if a = ''--'' then Some ([], args)
      else if startswith a ''--'' then
        (let opt = takeWhile (\<lambda>c. c \<noteq> CHR ''='') (drop 2 a);
             optarg = (if CHR ''='' \<in> set (drop 2 a) then Some (drop 1 (dropWhile (\<lambda>c. c \<noteq> CHR ''='') (drop 2 a))) else None)
         in case long_has_args opt longopts of
              None \<Rightarrow> None
            | Some (has_arg, name) \<Rightarrow>
                (case (has_arg, optarg, args) of
                   (True, Some v, _) \<Rightarrow> map_option (\<lambda>(os, r). ((''--'' @ name, v) # os, r)) (getopt longopts args)
                 | (True, None, []) \<Rightarrow> None
                 | (True, None, v # args') \<Rightarrow> map_option (\<lambda>(os, r). ((''--'' @ name, v) # os, r)) (getopt longopts args')
                 | (False, Some v, _) \<Rightarrow> None
                 | (False, None, _) \<Rightarrow> map_option (\<lambda>(os, r). ((''--'' @ name, []) # os, r)) (getopt longopts args)))
      else None)"

record option_state =
  op_verbosity :: int
  op_output_format :: string
  op_filters :: string
  op_counting_style :: string
  op_globals :: globals

definition parse_option :: "string \<Rightarrow> string \<Rightarrow> option_state \<Rightarrow> option_state parsed" where
  "parse_option opt val s =
     (let g = op_globals s
      in if opt = ''--help'' then PrintUsage [] g
         else if opt = ''--output'' then
           (if val \<notin> set [''emacs'', ''vs7'', ''eclipse'']
            then PrintUsage ''The only allowed output formats are emacs, vs7 and eclipse.'' g
            else Finished (s\<lparr>op_output_format := val\<rparr>))
         else if opt = ''--verbose'' then
           (case py_int val of None \<Rightarrow> Raised ValueError | Some v \<Rightarrow> Finished (s\<lparr>op_verbosity := v\<rparr>))
         else if opt = ''--filter'' then
           (if val = [] then PrintCategories g else Finished (s\<lparr>op_filters := val\<rparr>))
         else if opt = ''--counting'' then
           (if val \<notin> set [''total'', ''toplevel'', ''detailed'']
            then PrintUsage ''Valid counting options are total, toplevel, and detailed'' g
            else Finished (s\<lparr>op_counting_style := val\<rparr>))
         else if opt = ''--root'' then Finished (s\<lparr>op_globals := g\<lparr>g_root := Some val\<rparr>\<rparr>)
         else if opt = ''--linelength'' then
           (case py_int val of
              None \<Rightarrow> PrintUsage ''Line length must be digits.'' g
            | Some n \<Rightarrow> Finished (s\<lparr>op_globals := g\<lparr>g_line_length := n\<rparr>\<rparr>))
         else if opt = ''--extensions'' then
           Finished (s\<lparr>op_globals := g\<lparr>g_extensions := split_char CHR '','' val\<rparr>\<rparr>)
         else Finished s)"

fun parse_options :: "(string \<times> string) list \<Rightarrow> option_state \<Rightarrow> option_state parsed" where
  "parse_options [] s = Finished s"
| "parse_options ((opt, val) # opts) s = parsed_bind (parse_option opt val s) (parse_options opts)"

definition ParseArguments :: "string list \<Rightarrow> globals \<Rightarrow> (string list \<times> globals) parsed" where
  "ParseArguments args g =
     (case getopt LONG_OPTIONS args of
        None \<Rightarrow> PrintUsage ''Invalid arguments.'' g
      | Some (opts, filenames) \<Rightarrow>
          parsed_bind (parse_options opts
              \<lparr>op_verbosity = verbose_level (w_lint (g_world g)), op_output_format = output_format (w_lint (g_world g)),
               op_filters = [], op_counting_style = [], op_globals = g\<rparr>) (\<lambda>s.
            if filenames = [] then PrintUsage ''No files were specified.'' (op_globals s)
            else
              (let lint = snd (SetVerboseLevel (op_verbosity s)
                     (SetOutputFormat (op_output_format s) (w_lint (g_world (op_globals s)))))
               in case SetFilters (op_filters s) lint of
                    (Inl e, _) \<Rightarrow> Raised e
                  | (Inr u, lint) \<Rightarrow>
                      Finished (filenames, update_lint (\<lambda>_. SetCountingStyle (op_counting_style s) lint) (op_globals s)))))"

section \<open>The program\<close>

fun process_files :: "system \<Rightarrow> string list \<Rightarrow> globals \<Rightarrow> globals run" where
  "process_files sys [] g = Some (Inr g)"
| "process_files sys (filename # filenames) g =
     run_bind (ProcessFile sys filename (verbose_level (w_lint (g_world g))) g) (process_files sys filenames)"

definition main :: "system \<Rightarrow> string list \<Rightarrow> unit parsed option" where
  "main sys args =
     (case ParseArguments args init_globals of
        Exit status g \<Rightarrow> Some (Exit status g)
      | Raised e \<Rightarrow> Some (Raised e)
      | Finished (filenames, g) \<Rightarrow>
          (case process_files sys filenames (update_lint ResetErrorCounts g) of
             None \<Rightarrow> None
           | Some (Inl e) \<Rightarrow> Some (Raised e)
           | Some (Inr g) \<Rightarrow>
               (let g = g\<lparr>g_world := (g_world g)\<lparr>w_stderr := w_stderr (g_world g) @ PrintErrorCounts (w_lint (g_world g))\<rparr>\<rparr>
                in Some (Exit (if 0 < error_count (w_lint (g_world g)) then 1 else 0) g))))"

section \<open>Numbers\<close>

lemma digit_value_small: "n < 10 \<Longrightarrow> digit_char (''0123456789'' ! n) \<and> of_char (''0123456789'' ! n) - 48 = (n :: nat)"
proof -
  assume "n < 10"
  then have "n \<in> {0, 1, 2, 3, 4, 5, 6, 7, 8, 9}" by auto
  then show ?thesis by (auto simp: digit_char_def between_def)
qed

lemma digits_value_append:
  "digits_value (s @ t) acc = (case digits_value s acc of None \<Rightarrow> None | Some v \<Rightarrow> digits_value t v)"
  by (induction s arbitrary: acc) auto

lemma digits_value_show: "digits_value (show_nat n) 0 = Some (int n) \<and> list_all digit_char (show_nat n) \<and> show_nat n \<noteq> []"
proof (induction n rule: less_induct)
  case (less n)
  show ?case
  proof (cases "n < 10")
    case True
    then show ?thesis using digit_value_small[of n] by (simp add: show_nat.simps[of n])
  next
    case False
    then have "n div 10 < n" by simp
    from less[OF this] digit_value_small[of "n mod 10"] have
      IH: "digits_value (show_nat (n div 10)) 0 = Some (int (n div 10))" "list_all digit_char (show_nat (n div 10))"
      and d: "digit_char (''0123456789'' ! (n mod 10))" "of_char (''0123456789'' ! (n mod 10)) - 48 = n mod 10" by auto
    have show_n: "show_nat n = show_nat (n div 10) @ [''0123456789'' ! (n mod 10)]" using False by (subst show_nat.simps) simp
    have "int (n div 10) * 10 + int (n mod 10) = int n" by (metis div_mult_mod_eq of_nat_add of_nat_mult of_nat_numeral)
    with IH d show ?thesis unfolding show_n by (simp add: digits_value_append)
  qed
qed

lemma strip_unchanged: "s \<noteq> [] \<Longrightarrow> \<not> sp (hd s) \<Longrightarrow> \<not> sp (last s) \<Longrightarrow> strip sp s = s"
proof -
  have stop: "\<not> sp (hd xs) \<Longrightarrow> dropWhile sp xs = xs" for xs by (cases xs) auto
  assume "s \<noteq> []" "\<not> sp (hd s)" "\<not> sp (last s)"
  then show ?thesis by (simp add: strip_def lstrip_def rstrip_def stop hd_rev)
qed

text \<open>A number that is printed in decimal is read back by \<open>int\<close>.\<close>

theorem py_int_show: "py_int (show_int i) = Some i"
proof -
  have digit: "\<not> ascii_space c" "c \<noteq> CHR ''-''" "c \<noteq> CHR ''+''" if "digit_char c" for c
    using that by (auto simp: char_class_defs)
  obtain c cs where s: "show_nat (nat \<bar>i\<bar>) = c # cs" using digits_value_show[of "nat \<bar>i\<bar>"] by (cases "show_nat (nat \<bar>i\<bar>)") auto
  then have all: "digit_char c" "digit_char (last (c # cs))"
    using digits_value_show[of "nat \<bar>i\<bar>"] last_in_set[of "c # cs"] by (auto simp: list_all_iff split: if_splits)
  have "digits_value (c # cs) 0 = Some (int (nat \<bar>i\<bar>))" using digits_value_show[of "nat \<bar>i\<bar>"] unfolding s by blast
  then have v: "digits_value (c # cs) 0 = Some \<bar>i\<bar>" by (simp only: int_nat_eq abs_ge_zero if_True)
  show ?thesis
  proof (cases "i < 0")
    case True
    then have "show_int i = CHR ''-'' # c # cs" using s by (simp add: show_int_def)
    moreover have "strip ascii_space (CHR ''-'' # c # cs) = CHR ''-'' # c # cs"
      using digit(1)[OF all(2)] by (intro strip_unchanged) (auto simp: char_class_defs)
    ultimately show ?thesis using v True by (simp add: py_int_def del: digits_value.simps)
  next
    case False
    then have "show_int i = c # cs" using s by (simp add: show_int_def)
    moreover have "strip ascii_space (c # cs) = c # cs"
      using digit(1)[OF all(1)] digit(1)[OF all(2)] by (intro strip_unchanged) auto
    ultimately show ?thesis using v False digit[OF all(1)] by (simp add: py_int_def del: digits_value.simps)
  qed
qed

section \<open>Events are counted\<close>

lemma emit_counted:
  assumes "filters_ok w"
  shows "\<exists>w' new. emit_all rs w = Inr w' \<and> filters_ok w' \<and> w_stderr w' = w_stderr w @ new \<and>
    error_count (w_lint w') = error_count (w_lint w) + length new"
  using lint.emit_spec[OF assms, of rs] by (metis length_map)

text \<open>C22. Executing the events of a file prints a line for each report it counts, and for no other.\<close>

theorem printed_is_counted:
  assumes "filters_ok w"
  shows "\<exists>w' new. run_events f es w = Inr w' \<and> w_stderr w' = w_stderr w @ new \<and>
    error_count (w_lint w') = error_count (w_lint w) + length new"
proof -
  have "\<exists>w' new. run_events f es w = Inr w' \<and> filters_ok w' \<and> w_stderr w' = w_stderr w @ new \<and>
    error_count (w_lint w') = error_count (w_lint w) + length new"
    using assms
  proof (induction es arbitrary: w)
    case (Cons e es)
    have "\<exists>w1 new. run_event f e w = Inr w1 \<and> filters_ok w1 \<and> w_stderr w1 = w_stderr w @ new \<and>
        error_count (w_lint w1) = error_count (w_lint w) + length new"
    proof (cases e)
      case (Report r)
      with emit_counted[OF Cons.prems, of "[r]"] show ?thesis by simp
    next
      case (Nolint raw n)
      obtain rs S where p: "ParseNolintSuppressions f raw (int n) (w_supp w) = (rs, S)" by fastforce
      have "filters_ok (w\<lparr>w_supp := S\<rparr>)" using Cons.prems by (simp add: filters_ok_def)
      from emit_counted[OF this, of rs] show ?thesis by (simp add: Nolint p)
    qed
    then obtain w1 new where w1: "run_event f e w = Inr w1" "filters_ok w1" "w_stderr w1 = w_stderr w @ new"
      "error_count (w_lint w1) = error_count (w_lint w) + length new" by blast
    from Cons.IH[OF w1(2)] obtain w' new' where "run_events f es w1 = Inr w'" "filters_ok w'"
      "w_stderr w' = w_stderr w1 @ new'" "error_count (w_lint w') = error_count (w_lint w1) + length new'" by blast
    with w1 show ?case by simp
  qed simp
  then show ?thesis by blast
qed

theorem printed_is_counted_witness:
  "\<exists>w' new. run_events ''a.cc'' [Nolint ''x  // NOLINT'' 1, Report (report ''a.cc'' 2 ''whitespace/tab'' 1 ''Tab found'')]
     (g_world init_globals) = Inr w' \<and> error_count (w_lint w') = length new \<and> w_stderr w' = new"
  using printed_is_counted[of "g_world init_globals" "''a.cc''"
      "[Nolint ''x  // NOLINT'' 1, Report (report ''a.cc'' 2 ''whitespace/tab'' 1 ''Tab found'')]"]
  by (simp add: init_globals_def init_lint_state_def filters_ok_def DEFAULT_FILTERS_def filter_ok_def)

section \<open>What a file changes\<close>

text \<open>Everything but the filters, the messages and counts, the suppressions and the line length.\<close>

definition keeps :: "globals \<Rightarrow> globals \<Rightarrow> bool" where
  "keeps g g' \<longleftrightarrow>
     (let s = w_lint (g_world g); s' = w_lint (g_world g')
      in filters_backup s' = filters_backup s \<and> verbose_level s' = verbose_level s \<and> output_format s' = output_format s \<and>
         counting s' = counting s \<and> g_root g' = g_root g \<and> g_extensions g' = g_extensions g)"

lemma keeps_refl [simp]: "keeps g g"
  by (simp add: keeps_def)

lemma keeps_trans: "keeps a b \<Longrightarrow> keeps b c \<Longrightarrow> keeps a c"
  by (simp add: keeps_def Let_def)

lemma add_filters_keeps: "add_filters fs g = Inr g' \<Longrightarrow> keeps g g' \<and> filters_ok (g_world g')"
  by (auto simp: add_filters_def AddFilters_def update_lint_def keeps_def filters_ok_def Let_def split: if_splits)

lemma add_all_filters_keeps:
  "add_all_filters fs g = Inr g' \<Longrightarrow> filters_ok (g_world g) \<Longrightarrow> keeps g g' \<and> filters_ok (g_world g')"
proof (induction fs arbitrary: g)
  case (Cons f fs)
  then obtain g1 where "add_filters f g = Inr g1" "add_all_filters fs g1 = Inr g'" by auto
  with add_filters_keeps Cons.IH keeps_trans show ?case by blast
qed simp

lemma config_keeps:
  assumes "ProcessConfigOverrides sys f g = Inr (b, g')" "filters_ok (g_world g)"
  shows "keeps g g' \<and> filters_ok (g_world g')"
proof -
  obtain st where st: "config_dirs sys f (abspath (sy_fs sys) f)
      \<lparr>cf_filters = [], cf_looking = True, cf_line_length = g_line_length g, cf_stderr = [], cf_excluded = False\<rparr> = st" by blast
  obtain g1 where g1: "g1 = g\<lparr>g_line_length := cf_line_length st,
      g_world := (g_world g)\<lparr>w_stderr := w_stderr (g_world g) @ cf_stderr st\<rparr>\<rparr>" by blast
  from assms(2) have k: "keeps g g1" "filters_ok (g_world g1)" by (simp_all add: g1 keeps_def filters_ok_def)
  from assms(1) have "b \<and> add_all_filters (rev (cf_filters st)) g1 = Inr g' \<or> g' = g1"
    unfolding ProcessConfigOverrides_def st Let_def g1[symmetric]
    by (cases "add_all_filters (rev (cf_filters st)) g1") (auto split: if_splits)
  then show ?thesis
  proof
    assume "b \<and> add_all_filters (rev (cf_filters st)) g1 = Inr g'"
    with add_all_filters_keeps[OF _ k(2)] keeps_trans[OF k(1)] show ?thesis by blast
  qed (use k in simp)
qed

lemma lint_lines_keeps:
  assumes "lint_lines sys f ls g = Some (Inr g')" "filters_ok (g_world g)"
  shows "keeps g g'"
proof -
  let ?w = "(g_world g)\<lparr>w_supp := ResetNolintSuppressions\<rparr>"
  have "filters_ok ?w" using assms(2) by (simp add: filters_ok_def)
  from assms(1) obtain es w' where "run_events f es ?w = Inr w'" "g' = g\<lparr>g_world := w'\<rparr>"
    by (auto simp: lint_lines_def)
  with run_events_same[OF \<open>filters_ok ?w\<close>, of f es] show ?thesis by (auto simp: same_options_def keeps_def)
qed


definition example_system :: system where
  "example_system = \<lparr>sy_fs = \<lparr>cwd = ''/'', present = (\<lambda>p. False)\<rparr>, sy_io = (\<lambda>p. None), sy_read = (\<lambda>p. None),
     sy_stdin = [], sy_isfile = (\<lambda>p. p \<in> set [''/CPPLINT.cfg'', ''/d/CPPLINT.cfg'']),
     sy_config = (\<lambda>p. Some (if p = ''/CPPLINT.cfg'' then [''filter=-whitespace'', ''linelength=100''] else [''linelength = 60''])),
     sy_compile = (\<lambda>p. REmpty)\<rparr>"

text \<open>The line length of a configuration file is not taken back: \<open>a.cc\<close> is over, but the files that come
  after it are checked with its line length.\<close>

lemma line_length_is_not_restored:
  "\<exists>g'. ProcessFile example_system ''a.cc'' 1 init_globals = Some (Inr g') \<and> g_line_length g' = 100"
proof -
  have "(case ProcessFile example_system ''a.cc'' 1 init_globals of
      Some (Inr g') \<Rightarrow> g_line_length g' = 100 | _ \<Rightarrow> False)" by code_simp
  then show ?thesis by (auto split: option.splits sum.splits)
qed


text \<open>The directories are visited from the file upwards, and the last line length read wins: the one of the
  outermost directory, not the one of the nested configuration file.\<close>

lemma outermost_line_length_wins:
  "(case ProcessConfigOverrides example_system ''d/a.cc'' init_globals of
      Inr (process, g') \<Rightarrow> process \<and> g_line_length g' = 100 | Inl e \<Rightarrow> False)"
  by code_simp

section \<open>Arguments\<close>

definition options_typed :: "option_state \<Rightarrow> bool" where
  "options_typed s \<longleftrightarrow> op_output_format s \<in> {''emacs'', ''vs7'', ''eclipse''} \<and>
     op_counting_style s \<in> {[], ''total'', ''toplevel'', ''detailed''}"

lemma parse_option_typed: "parse_option opt val s = Finished s' \<Longrightarrow> options_typed s \<Longrightarrow>
    options_typed s' \<and> w_stderr (g_world (op_globals s')) = w_stderr (g_world (op_globals s))"
  by (auto simp: parse_option_def options_typed_def PrintUsage_def PrintCategories_def Let_def
      split: if_splits option.splits)

lemma parse_options_typed: "parse_options opts s = Finished s' \<Longrightarrow> options_typed s \<Longrightarrow>
    options_typed s' \<and> w_stderr (g_world (op_globals s')) = w_stderr (g_world (op_globals s))"
proof (induction opts arbitrary: s)
  case (Cons o' opts)
  obtain opt val where o': "o' = (opt, val)" by fastforce
  with Cons.prems(1) obtain s1 where "parse_option opt val s = Finished s1" "parse_options opts s1 = Finished s'"
    by (cases "parse_option opt val s") auto
  with parse_option_typed[OF _ Cons.prems(2)] Cons.IH show ?case by fastforce
qed simp



text \<open>A filter without a sign is an uncaught exception, although the usage describes it and gives an example;
  so is a level that is not a number, while a line length that is not one prints the usage.\<close>

lemma unsigned_filter_raises:
  "ParseArguments [''--filter=whitespace,runtime/printf,+runtime/printf_format'', ''a.cc''] init_globals = Raised ValueError"
proof -
  have "(case ParseArguments [''--filter=whitespace,runtime/printf,+runtime/printf_format'', ''a.cc''] init_globals of
      Raised e \<Rightarrow> e = ValueError | _ \<Rightarrow> False)" by code_simp
  then show ?thesis by (auto split: parsed.splits)
qed

lemma verbose_not_a_number_raises: "ParseArguments [''--verbose=high'', ''a.cc''] init_globals = Raised ValueError"
proof -
  have "(case ParseArguments [''--verbose=high'', ''a.cc''] init_globals of Raised e \<Rightarrow> e = ValueError | _ \<Rightarrow> False)"
    by code_simp
  then show ?thesis by (auto split: parsed.splits)
qed

end
