(* ===== verification/WindowsInstall.thy ===== *)
theory WindowsInstall
  imports PyString "HOL-Library.AList"
begin

text \<open>
  The script that installs librdkafka on Windows (\<open>deps/windows-install.py\<close>).

  The script changes the file system only.  A path is the list of its components, relative to the working
  directory, so that \<open>/\<close> and the backslash, which are both separators on Windows, are the same; a file
  system is an association list from paths to nodes.  An operation is an \<open>effect\<close>: it returns the new
  file system and the exception that it raised, if any, so that what an aborted run leaves behind is visible.
  The network (\<open>urlopen\<close>), the decoders of JSON and of zip archives, and the environment are parameters.
  Time stamps, permissions and the case of names in paths are left out.

  The lemmas show that a run changes nothing outside of the directories it is meant to write, and that a run
  that ends without an exception has installed the files of the archive and removed what it downloaded.
\<close>

section \<open>The file system\<close>

type_synonym path = "string list"

datatype node = Directory | Regular string

type_synonym files = "(path \<times> node) list"

datatype errno = EEXIST | ENOENT | EACCES | ENOTDIR

datatype install_error = OSError errno | URLError | BadZipfile | BadJson | MissingKey

type_synonym effect = "files \<Rightarrow> install_error option \<times> files"

text \<open>The working directory and its parent exist.\<close>

definition given :: "path \<Rightarrow> bool" where
  "given p \<longleftrightarrow> p = [] \<or> p = [''..'']"

definition node_at :: "files \<Rightarrow> path \<Rightarrow> node option" where
  "node_at fs p = (if given p then Some Directory else map_of fs p)"

text \<open>\<open>open(path, 'rb').read()\<close>\<close>

definition read_file :: "path \<Rightarrow> files \<Rightarrow> install_error + string" where
  "read_file p fs =
     (case node_at fs p of
        None \<Rightarrow> Inl (OSError ENOENT) | Some Directory \<Rightarrow> Inl (OSError EACCES) | Some (Regular data) \<Rightarrow> Inr data)"

text \<open>\<open>open(path, 'wb').write(data)\<close>\<close>

definition write_file :: "path \<Rightarrow> string \<Rightarrow> effect" where
  "write_file p data fs =
     (if node_at fs p = Some Directory then (Some (OSError EACCES), fs)
      else if node_at fs (butlast p) = Some Directory then (None, AList.update p (Regular data) fs)
      else (Some (OSError ENOENT), fs))"

definition os_mkdir :: "path \<Rightarrow> effect" where
  "os_mkdir p fs =
     (if node_at fs p \<noteq> None then (Some (OSError EEXIST), fs)
      else if node_at fs (butlast p) = Some Directory then (None, AList.update p Directory fs)
      else (Some (OSError ENOENT), fs))"

lemma butlast_nonempty_length: "butlast p \<noteq> [] \<Longrightarrow> length p - Suc 0 < length p"
  by (cases p) auto

text \<open>\<open>os.makedirs\<close> creates the directories above first; that one of them appears meanwhile is ignored.\<close>

function os_makedirs :: "path \<Rightarrow> effect" where
  "os_makedirs p fs =
     (if butlast p \<noteq> [] \<and> node_at fs (butlast p) = None
      then (case os_makedirs (butlast p) fs of
              (None, fs') \<Rightarrow> os_mkdir p fs'
            | (Some e, fs') \<Rightarrow> if e = OSError EEXIST then os_mkdir p fs' else (Some e, fs'))
      else os_mkdir p fs)"
  by pat_completeness auto
termination
  by (relation "measure (\<lambda>(p, fs). length p)") (auto simp: butlast_nonempty_length)

declare os_makedirs.simps [simp del]

definition os_remove :: "path \<Rightarrow> effect" where
  "os_remove p fs =
     (case node_at fs p of
        None \<Rightarrow> (Some (OSError ENOENT), fs)
      | Some Directory \<Rightarrow> (Some (OSError EACCES), fs)
      | Some (Regular data) \<Rightarrow> (None, AList.delete p fs))"

definition shutil_rmtree :: "path \<Rightarrow> effect" where
  "shutil_rmtree p fs =
     (case node_at fs p of
        None \<Rightarrow> (Some (OSError ENOENT), fs)
      | Some Directory \<Rightarrow> (None, filter (\<lambda>(q, n). \<not> prefix p q) fs)
      | Some (Regular data) \<Rightarrow> (Some (OSError ENOTDIR), fs))"

text \<open>\<open>shutil.copy2\<close> puts a file into the destination when that is a directory, and over it otherwise.\<close>

definition shutil_copy2 :: "path \<Rightarrow> path \<Rightarrow> effect" where
  "shutil_copy2 src dst fs =
     (let target = (if node_at fs dst = Some Directory then dst @ [last src] else dst)
      in case read_file src fs of Inl e \<Rightarrow> (Some e, fs) | Inr data \<Rightarrow> write_file target data fs)"

text \<open>\<open>glob.glob(directory/*.dll)\<close>: \<open>*\<close> does not match a leading dot, and case does not matter on Windows.\<close>

definition dll_name :: "string \<Rightarrow> bool" where
  "dll_name name \<longleftrightarrow> \<not> startswith name ''.'' \<and> endswith (py_lower name) ''.dll''"

definition glob_dll :: "path \<Rightarrow> files \<Rightarrow> path list" where
  "glob_dll directory fs = filter (\<lambda>p. p \<noteq> [] \<and> butlast p = directory \<and> dll_name (last p)) (map fst fs)"

text \<open>Statements one after the other, up to the first exception.\<close>

fun effects :: "effect list \<Rightarrow> effect" where
  "effects [] fs = (None, fs)"
| "effects (a # as) fs = (case a fs of (None, fs') \<Rightarrow> effects as fs' | (Some e, fs') \<Rightarrow> (Some e, fs'))"

section \<open>The script\<close>

definition librdkafkaWinSufix :: "string \<Rightarrow> string" where
  "librdkafkaWinSufix librdkafkaVersion = (if librdkafkaVersion = ''0.11.5'' then ''7'' else [])"

definition depsPrecompiledDir :: path where
  "depsPrecompiledDir = [''..'', ''deps'', ''precompiled'']"

definition depsIncludeDir :: path where
  "depsIncludeDir = [''..'', ''deps'', ''include'']"

definition buildReleaseDir :: path where
  "buildReleaseDir = [''Release'']"

definition downloadBaseUrl :: "(string \<Rightarrow> string option) \<Rightarrow> string" where
  "downloadBaseUrl env_dist =
     (case env_dist ''NODE_RDKAFKA_NUGET_BASE_URL'' of
        Some url \<Rightarrow> url | None \<Rightarrow> ''https://globalcdn.nuget.org/packages/'')"

definition librdkafkaNugetUrl :: "(string \<Rightarrow> string option) \<Rightarrow> string \<Rightarrow> string" where
  "librdkafkaNugetUrl env_dist librdkafkaVersion =
     downloadBaseUrl env_dist @ ''librdkafka.redist.'' @ librdkafkaVersion @ ''.nupkg''"

definition outputDir :: path where
  "outputDir = [''librdkafka.redist'']"

definition outputFile :: path where
  "outputFile = [''librdkafka.redist.zip'']"

definition dllPath :: "string \<Rightarrow> path" where
  "dllPath v = outputDir @ [''runtimes'', ''win'' @ librdkafkaWinSufix v @ ''-x64'', ''native'']"

definition libPath :: "string \<Rightarrow> path" where
  "libPath v = outputDir @ [''build'', ''native'', ''lib'', ''win'' @ librdkafkaWinSufix v, ''x64'',
     ''win'' @ librdkafkaWinSufix v @ ''-x64-Release'', ''v142'']"

definition includePath :: path where
  "includePath = outputDir @ [''build'', ''native'', ''include'', ''librdkafka'']"

text \<open>\<open>json.load(f)['librdkafka']\<close>\<close>

definition read_version :: "(string \<Rightarrow> (string \<Rightarrow> string option) option) \<Rightarrow> files \<Rightarrow> install_error + string" where
  "read_version json_load fs =
     (case read_file [''..'', ''package.json''] fs of
        Inl e \<Rightarrow> Inl e
      | Inr f \<Rightarrow>
      case json_load f of
        None \<Rightarrow> Inl BadJson
      | Some d \<Rightarrow>
      case d ''librdkafka'' of
        None \<Rightarrow> Inl MissingKey
      | Some v \<Rightarrow> Inr v)"

definition download :: "(string \<Rightarrow> string option) \<Rightarrow> string \<Rightarrow> effect" where
  "download urlopen url fs =
     (case urlopen url of None \<Rightarrow> (Some URLError, fs) | Some datatowrite \<Rightarrow> write_file outputFile datatowrite fs)"

text \<open>A member of an archive is a path and the contents of a file, or \<open>None\<close> for a directory.\<close>

definition extract_member :: "path \<times> string option \<Rightarrow> effect" where
  "extract_member member fs =
     (let targetpath = outputDir @ fst member; upperdirs = butlast targetpath
      in effects
          [if upperdirs \<noteq> [] \<and> node_at fs upperdirs = None then os_makedirs upperdirs else Pair None,
           \<lambda>fs. case snd member of
                   None \<Rightarrow> if node_at fs targetpath = Some Directory then (None, fs) else os_mkdir targetpath fs
                 | Some data \<Rightarrow> write_file targetpath data fs] fs)"

definition extract_package :: "(string \<Rightarrow> (path \<times> string option) list option) \<Rightarrow> effect" where
  "extract_package unzip fs =
     (case read_file outputFile fs of
        Inl e \<Rightarrow> (Some e, fs)
      | Inr archive \<Rightarrow>
      case unzip archive of
        None \<Rightarrow> (Some BadZipfile, fs)
      | Some members \<Rightarrow> effects (map extract_member members) fs)"

definition createdir :: "path \<Rightarrow> effect" where
  "createdir dir fs =
     (case os_makedirs dir fs of
        (Some e, fs') \<Rightarrow> (if e \<noteq> OSError EEXIST then Some e else None, fs')
      | (None, fs') \<Rightarrow> (None, fs'))"

definition library_copies :: "string \<Rightarrow> (path \<times> path) list" where
  "library_copies v =
     [(libPath v @ [''librdkafka.lib''], depsPrecompiledDir),
      (libPath v @ [''librdkafkacpp.lib''], depsPrecompiledDir),
      (includePath @ [''rdkafka.h''], depsIncludeDir),
      (includePath @ [''rdkafkacpp.h''], depsIncludeDir)]"

definition copy_all :: "(path \<times> path) list \<Rightarrow> effect" where
  "copy_all cs = effects (map (\<lambda>(src, dst). shutil_copy2 src dst) cs)"

definition copy_dlls :: "string \<Rightarrow> effect" where
  "copy_dlls v fs = copy_all (map (\<lambda>filename. (filename, buildReleaseDir)) (glob_dll (dllPath v) fs)) fs"

definition clean_up :: effect where
  "clean_up = effects [os_remove outputFile, shutil_rmtree outputDir]"

definition install_steps ::
  "(string \<Rightarrow> string option) \<Rightarrow> (string \<Rightarrow> (path \<times> string option) list option) \<Rightarrow> string \<Rightarrow> string \<Rightarrow> effect list" where
  "install_steps urlopen unzip url v =
     [download urlopen url, extract_package unzip,
      createdir depsPrecompiledDir, createdir depsIncludeDir, createdir buildReleaseDir,
      copy_all (library_copies v), copy_dlls v, clean_up]"

text \<open>What the script prints, the exception that ends it, and the files it leaves.\<close>

definition install ::
  "(string \<Rightarrow> string option) \<Rightarrow> (string \<Rightarrow> (string \<Rightarrow> string option) option) \<Rightarrow> (string \<Rightarrow> string option) \<Rightarrow>
   (string \<Rightarrow> (path \<times> string option) list option) \<Rightarrow> files \<Rightarrow> string list \<times> install_error option \<times> files" where
  "install env_dist json_load urlopen unzip fs =
     (case read_version json_load fs of
        Inl e \<Rightarrow> ([], Some e, fs)
      | Inr v \<Rightarrow>
          (let url = librdkafkaNugetUrl env_dist v
           in ([''download librdkafka form '' @ url], effects (install_steps urlopen unzip url v) fs)))"

section \<open>What an effect leaves alone\<close>

text \<open>\<open>confined P a\<close>: the effect \<open>a\<close> changes only nodes in \<open>P\<close>, whether it raises or not.\<close>

definition confined :: "(path \<Rightarrow> bool) \<Rightarrow> effect \<Rightarrow> bool" where
  "confined P a \<longleftrightarrow> (\<forall>fs q. \<not> P q \<longrightarrow> map_of (snd (a fs)) q = map_of fs q)"

lemma confinedD: "confined P a \<Longrightarrow> \<not> P q \<Longrightarrow> a fs = (e, fs') \<Longrightarrow> node_at fs' q = node_at fs q"
  by (metis confined_def node_at_def snd_conv)

lemma confined_mono: "confined P a \<Longrightarrow> (\<And>q. P q \<Longrightarrow> Q q) \<Longrightarrow> confined Q a"
  by (auto simp: confined_def)

lemma confined_skip [intro]: "confined P (Pair e)"
  by (simp add: confined_def)

lemma confined_effects: "(\<And>a. a \<in> set as \<Longrightarrow> confined P a) \<Longrightarrow> confined P (effects as)"
proof (induction as)
  case Nil
  then show ?case by (simp add: confined_def)
next
  case (Cons a as)
  then have "confined P a" "confined P (effects as)" by auto
  then show ?case
    by (auto simp: confined_def split: prod.splits option.splits) (metis snd_conv)+
qed

lemma confined_write: "confined ((=) p) (write_file p data)"
  by (simp add: confined_def write_file_def update_conv')

lemma confined_mkdir: "confined (\<lambda>q. q = p \<and> \<not> given q) (os_mkdir p)"
  by (auto simp: confined_def os_mkdir_def update_conv' node_at_def)

text \<open>\<open>os.makedirs\<close> creates directories on the way to its argument, and nothing else.\<close>

lemma confined_makedirs: "confined (\<lambda>q. prefix q p \<and> \<not> given q) (os_makedirs p)"
  unfolding confined_def
proof (intro allI impI)
  fix fs q assume q: "\<not> (prefix q p \<and> \<not> given q)"
  then show "map_of (snd (os_makedirs p fs)) q = map_of fs q"
  proof (induction p fs rule: os_makedirs.induct)
    case (1 p fs)
    have mk: "map_of (snd (os_mkdir p fs)) q = map_of fs q" for fs
      using confined_mkdir[of p] "1.prems" by (auto simp: confined_def)
    have "\<not> (prefix q (butlast p) \<and> \<not> given q)"
      using "1.prems" by (meson prefix_order.trans prefixeq_butlast)
    then show ?case
      using "1.IH" mk by (subst os_makedirs.simps) (auto split: prod.splits option.splits)
  qed
qed

text \<open>What is there already, is kept by it.\<close>

lemma makedirs_keeps: "node_at fs q \<noteq> None \<Longrightarrow> os_makedirs p fs = (e, fs') \<Longrightarrow> node_at fs' q = node_at fs q"
proof (induction p fs arbitrary: e fs' rule: os_makedirs.induct)
  case (1 p fs)
  have mk: "node_at fs2 q = node_at fs1 q" if "os_mkdir p fs1 = (e', fs2)" "node_at fs1 q \<noteq> None" for fs1 fs2 e'
    using that by (auto simp: os_mkdir_def node_at_def update_conv' split: if_splits)
  show ?case
    using "1.IH" "1.prems" mk
    by (subst (asm) (2) os_makedirs.simps) (fastforce split: if_splits prod.splits option.splits)
qed

lemma confined_createdir: "confined (\<lambda>q. prefix q d \<and> \<not> given q) (createdir d)"
proof -
  have "snd (createdir d fs) = snd (os_makedirs d fs)" for fs
    by (auto simp: createdir_def split: prod.splits option.splits)
  then show ?thesis
    using confined_makedirs[of d] by (simp add: confined_def)
qed

lemma confined_remove: "confined ((=) p) (os_remove p)"
  by (auto simp: confined_def os_remove_def split: option.splits node.splits)

lemma map_of_filter_keys: "map_of (filter (\<lambda>(q, n). P q) fs) q = (if P q then map_of fs q else None)"
  by (induction fs) auto

lemma confined_rmtree: "confined (prefix p) (shutil_rmtree p)"
  by (auto simp: confined_def shutil_rmtree_def map_of_filter_keys split: option.splits node.splits)

lemma confined_copy2: "confined (prefix dst) (shutil_copy2 src dst)"
proof -
  have "confined (prefix dst) (write_file (dst @ [last src]) data)" "confined (prefix dst) (write_file dst data)" for data
    by (auto intro: confined_mono[OF confined_write])
  then show ?thesis
    by (auto simp: confined_def shutil_copy2_def Let_def split: sum.splits)
qed

lemma confined_member: "confined (\<lambda>q. prefix outputDir q) (extract_member m)"
proof -
  have given_above: "prefix q (outputDir @ xs) \<and> \<not> given q \<Longrightarrow> prefix outputDir q" for q xs
    by (cases q) (auto simp: outputDir_def given_def)
  have "prefix q (outputDir @ fst m)" if "prefix q (butlast (outputDir @ fst m))" for q
    using that prefixeq_butlast by (rule prefix_order.trans)
  then have "confined (prefix outputDir) (os_makedirs (butlast (outputDir @ fst m)))"
    by (intro confined_mono[OF confined_makedirs]) (blast intro: given_above)
  moreover have "confined (prefix outputDir) (os_mkdir (outputDir @ fst m))"
    by (rule confined_mono[OF confined_mkdir]) auto
  moreover have "confined (prefix outputDir) (write_file (outputDir @ fst m) data)" for data
    by (rule confined_mono[OF confined_write]) auto
  ultimately have "confined (prefix outputDir)
      (effects [if b then os_makedirs (butlast (outputDir @ fst m)) else Pair None,
        \<lambda>fs. case snd m of
           None \<Rightarrow> if node_at fs (outputDir @ fst m) = Some Directory then (None, fs) else os_mkdir (outputDir @ fst m) fs
         | Some data \<Rightarrow> write_file (outputDir @ fst m) data fs])" for b
    by (intro confined_effects) (simp, elim disjE; simp add: confined_def split: option.split)
  then show ?thesis
    by (simp add: confined_def extract_member_def Let_def del: effects.simps)
qed

text \<open>Where the script writes.\<close>

definition install_area :: "path \<Rightarrow> bool" where
  "install_area q \<longleftrightarrow>
     prefix outputFile q \<or> prefix outputDir q \<or> prefix buildReleaseDir q \<or> prefix [''..'', ''deps''] q"

lemma confined_extract: "confined (prefix outputDir) (extract_package unzip)"
proof -
  have "confined (prefix outputDir) (effects (map extract_member ms))" for ms
    by (rule confined_effects) (auto simp: confined_member)
  then show ?thesis
    by (auto simp: confined_def extract_package_def split: sum.splits option.splits)
qed

lemma confined_download: "confined ((=) outputFile) (download urlopen url)"
  using confined_write[of outputFile] by (auto simp: confined_def download_def split: option.splits)

lemma confined_copy_all: "(\<And>s d. (s, d) \<in> set cs \<Longrightarrow> prefix r d) \<Longrightarrow> confined (prefix r) (copy_all cs)"
  unfolding copy_all_def
proof (rule confined_effects)
  fix a assume r: "\<And>s d. (s, d) \<in> set cs \<Longrightarrow> prefix r d" and "a \<in> set (map (\<lambda>(src, dst). shutil_copy2 src dst) cs)"
  then obtain s d where a: "a = shutil_copy2 s d" and "(s, d) \<in> set cs" by auto
  with r have "prefix r d" by blast
  then show "confined (prefix r) a"
    unfolding a by (rule confined_mono[OF confined_copy2 prefix_order.trans])
qed

lemma confined_library_copies: "confined (prefix [''..'', ''deps'']) (copy_all (library_copies v))"
  by (rule confined_copy_all) (auto simp: library_copies_def depsPrecompiledDir_def depsIncludeDir_def)

lemma confined_copy_dlls: "confined (prefix buildReleaseDir) (copy_dlls v)"
proof -
  have "confined (prefix buildReleaseDir) (copy_all (map (\<lambda>filename. (filename, buildReleaseDir)) ps))" for ps
    by (rule confined_copy_all) auto
  then show ?thesis by (simp add: confined_def copy_dlls_def)
qed

lemma confined_clean_up: "confined (\<lambda>q. prefix outputFile q \<or> prefix outputDir q) clean_up"
  unfolding clean_up_def
  by (rule confined_effects) (auto intro: confined_mono[OF confined_remove] confined_mono[OF confined_rmtree])

lemma confined_createdir_area:
  "d \<in> {depsPrecompiledDir, depsIncludeDir, buildReleaseDir} \<Longrightarrow> confined install_area (createdir d)"
  by (rule confined_mono[OF confined_createdir])
    (auto simp: install_area_def depsPrecompiledDir_def depsIncludeDir_def buildReleaseDir_def given_def
      prefix_Cons outputFile_def outputDir_def)

lemma confined_install_step:
  assumes "a \<in> set (install_steps urlopen unzip url v)"
  shows "confined install_area a"
proof -
  have "confined install_area (copy_all (library_copies v))" "confined install_area (copy_dlls v)" "confined install_area clean_up"
    "confined install_area (download urlopen url)" "confined install_area (extract_package unzip)"
    by (auto intro: confined_mono[OF confined_library_copies] confined_mono[OF confined_copy_dlls] confined_mono[OF confined_clean_up]
        confined_mono[OF confined_download] confined_mono[OF confined_extract] simp: install_area_def)
  then show ?thesis
    using assms confined_createdir_area by (auto simp: install_steps_def)
qed

text \<open>C27. Whatever happens, the script changes no file outside of its download, \<open>deps\<close> and \<open>Release\<close>.\<close>

theorem install_frame:
  assumes "\<not> install_area q"
  shows "node_at (snd (snd (install env_dist json_load urlopen unzip fs))) q = node_at fs q"
proof -
  have "confined install_area (effects (install_steps urlopen unzip url v))" for url v
    by (rule confined_effects) (rule confined_install_step)
  then show ?thesis
    using assms by (auto simp: install_def confined_def node_at_def Let_def split: sum.splits)
qed

section \<open>What a run without an exception has done\<close>

lemma node_at_update: "\<not> given p \<Longrightarrow> node_at (AList.update p n fs) q = (if q = p then Some n else node_at fs q)"
  by (auto simp: node_at_def update_conv')

lemma effects_append_None:
  "effects (as @ bs) fs = (None, fs') \<longleftrightarrow> (\<exists>fs''. effects as fs = (None, fs'') \<and> effects bs fs'' = (None, fs'))"
  by (induction as arbitrary: fs) (auto split: prod.splits option.splits)

lemma effects_Cons_None:
  "effects (a # as) fs = (None, fs') \<longleftrightarrow> (\<exists>fs''. a fs = (None, fs'') \<and> effects as fs'' = (None, fs'))"
  by (auto split: prod.splits option.splits)

lemma write_file_None:
  "write_file p data fs = (None, fs') \<Longrightarrow>
     \<not> given p \<and> node_at fs p \<noteq> Some Directory \<and> fs' = AList.update p (Regular data) fs"
  by (auto simp: write_file_def node_at_def split: if_splits)

lemma os_mkdir_None: "os_mkdir p fs = (None, fs') \<Longrightarrow> \<not> given p \<and> node_at fs' p = Some Directory"
  by (auto simp: os_mkdir_def node_at_def update_conv' split: if_splits)

lemma os_mkdir_EEXIST: "os_mkdir p fs = (Some (OSError EEXIST), fs') \<Longrightarrow> fs' = fs \<and> node_at fs p \<noteq> None"
  by (auto simp: os_mkdir_def split: if_splits)

text \<open>After \<open>createdir\<close> there is something at its path, and a directory unless a file was there.\<close>

lemma os_makedirs_ends_in_mkdir:
  "os_makedirs p fs = (e, fs') \<Longrightarrow> e \<in> {None, Some (OSError EEXIST)} \<Longrightarrow> \<exists>fs''. os_mkdir p fs'' = (e, fs') \<and> node_at fs'' p = node_at fs p"
proof -
  assume run: "os_makedirs p fs = (e, fs')" and e: "e \<in> {None, Some (OSError EEXIST)}"
  have frame: "node_at (snd (os_makedirs (butlast p) fs)) p = node_at fs p" if "butlast p \<noteq> []"
  proof -
    have "\<not> prefix p (butlast p)"
      using that by (metis append_butlast_last_id butlast.simps(1) not_Cons_self2 prefix_order.antisym prefixeq_butlast self_append_conv)
    then show ?thesis
      using confined_makedirs[of "butlast p"] by (simp add: confined_def node_at_def)
  qed
  show ?thesis
    using run e frame by (subst (asm) os_makedirs.simps) (auto split: if_splits prod.splits option.splits)
qed

lemma createdir_None:
  assumes "createdir d fs = (None, fs')" and "\<And>data. node_at fs d \<noteq> Some (Regular data)"
  shows "node_at fs' d = Some Directory"
proof -
  obtain e where "os_makedirs d fs = (e, fs')" "e \<in> {None, Some (OSError EEXIST)}"
    using assms(1) by (auto simp: createdir_def split: prod.splits option.splits if_splits)
  then obtain fs'' where mk: "os_mkdir d fs'' = (e, fs')" and same: "node_at fs'' d = node_at fs d"
    and e: "e \<in> {None, Some (OSError EEXIST)}"
    using os_makedirs_ends_in_mkdir by blast
  then consider "os_mkdir d fs'' = (None, fs')" | "fs' = fs''" "node_at fs'' d \<noteq> None"
    using os_mkdir_EEXIST by fastforce
  then show ?thesis
  proof cases
    case 1
    then show ?thesis by (simp add: os_mkdir_None)
  next
    case 2
    then show ?thesis
      using same assms(2) by (metis node.exhaust not_None_eq)
  qed
qed

lemma copy2_None:
  assumes "shutil_copy2 src dst fs = (None, fs')" "node_at fs dst = Some Directory"
  obtains data where "node_at fs src = Some (Regular data)" "\<not> given (dst @ [last src])"
    "node_at fs (dst @ [last src]) \<noteq> Some Directory" "fs' = AList.update (dst @ [last src]) (Regular data) fs"
  using assms
  by (auto simp: shutil_copy2_def Let_def read_file_def split: sum.splits option.splits node.splits dest!: write_file_None)

text \<open>The copies: every source reaches its directory, when the sources are not among the targets and no two
  sources have the same target.\<close>

definition copies_apart :: "(path \<times> path) list \<Rightarrow> bool" where
  "copies_apart cs \<longleftrightarrow>
     (\<forall>(s, d)\<in>set cs. \<forall>(s', d')\<in>set cs. s' \<noteq> d @ [last s] \<and> (d' @ [last s'] = d @ [last s] \<longrightarrow> s' = s))"

lemma copies_apartD:
  "copies_apart cs \<Longrightarrow> (s, d) \<in> set cs \<Longrightarrow> (s', d') \<in> set cs \<Longrightarrow> s' \<noteq> d @ [last s] \<and> (d' @ [last s'] = d @ [last s] \<longrightarrow> s' = s)"
  by (fastforce simp: copies_apart_def)

lemma copies_apart_tl: "copies_apart (c # cs) \<Longrightarrow> copies_apart cs"
  by (auto simp: copies_apart_def)

lemma copy_all_None:
  assumes "copy_all cs fs = (None, fs')" "copies_apart cs" "\<forall>(s, d)\<in>set cs. node_at fs d = Some Directory"
  shows "(\<forall>(s, d)\<in>set cs. \<exists>data. node_at fs s = Some (Regular data) \<and> node_at fs' (d @ [last s]) = Some (Regular data)) \<and>
    (\<forall>q. q \<notin> (\<lambda>(s, d). d @ [last s]) ` set cs \<longrightarrow> node_at fs' q = node_at fs q)"
  using assms
proof (induction cs arbitrary: fs)
  case Nil
  then show ?case by (simp add: copy_all_def)
next
  case (Cons c cs)
  obtain s d where c: "c = (s, d)" by (cases c)
  let ?t = "d @ [last s]"
  obtain fs1 where one: "shutil_copy2 s d fs = (None, fs1)" and rest: "copy_all cs fs1 = (None, fs')"
    using Cons.prems(1) unfolding c copy_all_def by (auto simp: effects_Cons_None simp del: effects.simps)
  have "node_at fs d = Some Directory" using Cons.prems(3) c by auto
  with one obtain data where data: "node_at fs s = Some (Regular data)" and t: "\<not> given ?t"
    "node_at fs ?t \<noteq> Some Directory" and fs1: "fs1 = AList.update ?t (Regular data) fs"
    by (rule copy2_None)
  note at1 = node_at_update[OF t(1), of "Regular data" fs, folded fs1]
  have apart: "s' \<noteq> ?t \<and> (d' @ [last s'] = ?t \<longrightarrow> s' = s)" if "(s', d') \<in> set (c # cs)" for s' d'
    using copies_apartD[OF Cons.prems(2), of s d s' d'] that c by simp
  have dirs: "\<forall>(s', d')\<in>set cs. node_at fs1 d' = Some Directory"
    using Cons.prems(3) t(2) by (auto simp: at1)
  note IH = Cons.IH[OF rest copies_apart_tl[OF Cons.prems(2)] dirs]
  have others: "\<exists>data. node_at fs s' = Some (Regular data) \<and> node_at fs' (d' @ [last s']) = Some (Regular data)"
    if "(s', d') \<in> set cs" for s' d'
    using IH that apart[of s' d'] by (fastforce simp: at1)
  have this_one: "node_at fs' ?t = Some (Regular data)"
  proof (cases "?t \<in> (\<lambda>(s, d). d @ [last s]) ` set cs")
    case True
    then obtain s' d' where "(s', d') \<in> set cs" "d' @ [last s'] = ?t" by auto
    then show ?thesis using others[of s' d'] apart[of s' d'] data by auto
  next
    case False
    then show ?thesis using IH at1 by simp
  qed
  have frame: "node_at fs' q = node_at fs q" if "q \<notin> (\<lambda>(s, d). d @ [last s]) ` set (c # cs)" for q
    using IH that by (auto simp: c at1)
  show ?case
    using others this_one data frame by (auto simp: c)
qed

text \<open>The members of an archive whose paths are different are all extracted.\<close>

lemma extract_member_None:
  assumes "extract_member (m, c) fs = (None, fs')"
  shows "c = Some data \<Longrightarrow> node_at fs' (outputDir @ m) = Some (Regular data)"
    and "q \<noteq> outputDir @ m \<Longrightarrow> node_at fs q \<noteq> None \<Longrightarrow> node_at fs' q = node_at fs q"
proof -
  let ?u = "butlast (outputDir @ m)"
  obtain fs1 where up: "(if ?u \<noteq> [] \<and> node_at fs ?u = None then os_makedirs ?u else Pair None) fs = (None, fs1)"
    and here: "(case c of None \<Rightarrow> if node_at fs1 (outputDir @ m) = Some Directory then (None, fs1) else os_mkdir (outputDir @ m) fs1
                 | Some data \<Rightarrow> write_file (outputDir @ m) data fs1) = (None, fs')"
    using assms unfolding extract_member_def Let_def effects_Cons_None effects.simps(1) fst_conv snd_conv prod.inject
    by blast
  show "c = Some data \<Longrightarrow> node_at fs' (outputDir @ m) = Some (Regular data)"
    using here by (auto dest!: write_file_None simp: node_at_update)
  assume q: "q \<noteq> outputDir @ m" and old: "node_at fs q \<noteq> None"
  have "node_at fs' q = node_at fs1 q"
    using here q confinedD[OF confined_write, of "outputDir @ m" q] confinedD[OF confined_mkdir, of q "outputDir @ m"]
    by (auto split: option.splits if_splits)
  then show "node_at fs' q = node_at fs q"
    using makedirs_keeps[OF old] up by (auto split: if_splits)
qed

lemma extract_members_frame:
  "effects (map extract_member ms) fs = (None, fs') \<Longrightarrow> node_at fs q \<noteq> None \<Longrightarrow> q \<notin> (@) outputDir ` fst ` set ms \<Longrightarrow>
     node_at fs' q = node_at fs q"
proof (induction ms arbitrary: fs)
  case (Cons x ms)
  obtain k c where x: "x = (k, c)" by (cases x)
  obtain fs1 where one: "extract_member (k, c) fs = (None, fs1)" and rest: "effects (map extract_member ms) fs1 = (None, fs')"
    using Cons.prems(1) by (auto simp: x effects_Cons_None simp del: effects.simps)
  have "node_at fs1 q = node_at fs q"
    using Cons.prems extract_member_None(2)[OF one, of q] by (auto simp: x)
  then show ?case using Cons.IH[OF rest] Cons.prems by simp
qed simp

lemma extract_members_None:
  "effects (map extract_member ms) fs = (None, fs') \<Longrightarrow> distinct (map fst ms) \<Longrightarrow> (m, Some data) \<in> set ms \<Longrightarrow>
     node_at fs' (outputDir @ m) = Some (Regular data)"
proof (induction ms arbitrary: fs)
  case (Cons x ms)
  obtain k c where x: "x = (k, c)" by (cases x)
  obtain fs1 where one: "extract_member (k, c) fs = (None, fs1)" and rest: "effects (map extract_member ms) fs1 = (None, fs')"
    using Cons.prems(1) by (auto simp: x effects_Cons_None simp del: effects.simps)
  show ?case
  proof (cases "(m, Some data) \<in> set ms")
    case True
    then show ?thesis using Cons.IH[OF rest] Cons.prems by simp
  next
    case False
    with Cons.prems(3) have kc: "k = m" "c = Some data" by (auto simp: x)
    then have "node_at fs1 (outputDir @ m) = Some (Regular data)"
      using extract_member_None(1)[OF one] by simp
    moreover have "outputDir @ m \<notin> (@) outputDir ` fst ` set ms"
      using Cons.prems(2) kc by (auto simp: x)
    ultimately show ?thesis using extract_members_frame[OF rest] by simp
  qed
qed simp

text \<open>Where a member of the archive has to go.\<close>

definition destination :: "string \<Rightarrow> path \<Rightarrow> path option" where
  "destination v m =
     (let dir = butlast (outputDir @ m); name = last (outputDir @ m)
      in if dir = libPath v \<and> name \<in> {''librdkafka.lib'', ''librdkafkacpp.lib''} then Some [''..'', ''deps'', ''precompiled'', name]
         else if dir = includePath \<and> name \<in> {''rdkafka.h'', ''rdkafkacpp.h''} then Some [''..'', ''deps'', ''include'', name]
         else if dir = dllPath v \<and> dll_name name then Some [''Release'', name]
         else None)"

lemma destinationE:
  assumes "destination v m = Some t"
  obtains (library) d where "(outputDir @ m, d) \<in> set (library_copies v)" "t = d @ [last (outputDir @ m)]"
    | (dll) "butlast (outputDir @ m) = dllPath v" "dll_name (last (outputDir @ m))" "t = buildReleaseDir @ [last (outputDir @ m)]"
proof -
  have "outputDir @ m = butlast (outputDir @ m) @ [last (outputDir @ m)]"
    by (simp add: outputDir_def del: butlast.simps last.simps)
  then show ?thesis
    using assms that unfolding destination_def Let_def library_copies_def
    by (auto simp: depsPrecompiledDir_def depsIncludeDir_def buildReleaseDir_def simp del: last_append butlast_append split: if_splits)
qed

lemma library_copies_apart: "copies_apart (library_copies v)"
  by (simp add: copies_apart_def library_copies_def libPath_def includePath_def outputDir_def depsPrecompiledDir_def depsIncludeDir_def)

lemma dll_copies_apart: "copies_apart (map (\<lambda>filename. (filename, buildReleaseDir)) (glob_dll (dllPath v) fs))"
proof -
  have "s \<noteq> [''Release'', x]" if "butlast s = dllPath v" for s x
    using that by (auto simp: dllPath_def outputDir_def)
  then show ?thesis
    by (auto simp: copies_apart_def glob_dll_def buildReleaseDir_def) (metis append_butlast_last_id)
qed

lemma in_glob_dll:
  "node_at fs p \<noteq> None \<Longrightarrow> \<not> given p \<Longrightarrow> butlast p = d \<Longrightarrow> dll_name (last p) \<Longrightarrow> p \<in> set (glob_dll d fs)"
  by (auto simp: glob_dll_def node_at_def given_def dest: map_of_SomeD intro: rev_image_eqI)

lemmas path_defs = depsPrecompiledDir_def depsIncludeDir_def buildReleaseDir_def outputDir_def outputFile_def

lemma given_out [simp]: "\<not> given (outputDir @ m)"
  by (simp add: given_def outputDir_def)

text \<open>The states of a run: after the download, the extraction, the directories, the two copies.\<close>

lemma install_steps_None:
  assumes "effects (install_steps urlopen unzip url v) fs = (None, fs')"
  obtains fs1 fs2 fs3 fs4 fs5 fs6 fs7 where
    "download urlopen url fs = (None, fs1)" "extract_package unzip fs1 = (None, fs2)"
    "createdir depsPrecompiledDir fs2 = (None, fs3)" "createdir depsIncludeDir fs3 = (None, fs4)"
    "createdir buildReleaseDir fs4 = (None, fs5)" "copy_all (library_copies v) fs5 = (None, fs6)"
    "copy_dlls v fs6 = (None, fs7)" "clean_up fs7 = (None, fs')"
  using assms unfolding install_steps_def effects_Cons_None effects.simps(1) prod.inject by blast

lemma os_remove_None: "os_remove p fs = (None, fs') \<Longrightarrow> fs' = AList.delete p fs"
  by (auto simp: os_remove_def split: option.splits node.splits)

lemma rmtree_None: "shutil_rmtree p fs = (None, fs') \<Longrightarrow> fs' = filter (\<lambda>(q, n). \<not> prefix p q) fs"
  by (auto simp: shutil_rmtree_def split: option.splits node.splits)

lemma clean_up_None:
  assumes "clean_up fs = (None, fs')" "prefix outputDir q \<or> q = outputFile"
  shows "node_at fs' q = None"
proof -
  have "fs' = filter (\<lambda>(q, n). \<not> prefix outputDir q) (AList.delete outputFile fs)"
    using assms(1) unfolding clean_up_def effects_Cons_None by (auto dest!: os_remove_None rmtree_None)
  moreover have "\<not> given q"
    using assms(2) by (auto simp: path_defs given_def)
  ultimately show ?thesis
    using assms(2) by (auto simp: node_at_def map_of_filter_keys delete_conv')
qed

text \<open>The extracted files are there when the directories are, and the directories are directories.\<close>

lemma prepared:
  assumes "download urlopen url fs = (None, fs1)" "extract_package unzip fs1 = (None, fs2)"
    "createdir depsPrecompiledDir fs2 = (None, fs3)" "createdir depsIncludeDir fs3 = (None, fs4)"
    "createdir buildReleaseDir fs4 = (None, fs5)"
    and archive: "urlopen url = Some archive" "unzip archive = Some members" "distinct (map fst members)"
    and no_file: "\<forall>d\<in>{depsPrecompiledDir, depsIncludeDir, buildReleaseDir}. \<forall>data. node_at fs d \<noteq> Some (Regular data)"
  shows "(m, Some data) \<in> set members \<Longrightarrow> node_at fs5 (outputDir @ m) = Some (Regular data)"
    and "d \<in> {depsPrecompiledDir, depsIncludeDir, buildReleaseDir} \<Longrightarrow> node_at fs5 d = Some Directory"
proof -
  note frames = confinedD[OF confined_download _ assms(1)] confinedD[OF confined_extract _ assms(2)]
    confinedD[OF confined_createdir _ assms(3)] confinedD[OF confined_createdir _ assms(4)] confinedD[OF confined_createdir _ assms(5)]
  have "node_at fs1 outputFile = Some (Regular archive)"
    using assms(1) archive(1) by (auto simp: download_def node_at_update dest!: write_file_None)
  then have run: "effects (map extract_member members) fs1 = (None, fs2)"
    using assms(2) archive(2) by (simp add: extract_package_def read_file_def)
  show "node_at fs5 (outputDir @ m) = Some (Regular data)" if "(m, Some data) \<in> set members"
    using extract_members_None[OF run archive(3) that] frames(3-5)[of "outputDir @ m"] by (simp add: path_defs)
  have "node_at fs2 d \<noteq> Some (Regular data)" if "d \<in> {depsPrecompiledDir, depsIncludeDir, buildReleaseDir}" for d data
  proof -
    have "node_at fs2 d = node_at fs d" using frames(1,2)[of d] that by (auto simp: path_defs)
    then show ?thesis using no_file that by auto
  qed
  note fs2 = this
  have pre: "node_at fs3 depsPrecompiledDir = Some Directory"
    using createdir_None[OF assms(3)] fs2 by blast
  have inc: "node_at fs4 depsIncludeDir = Some Directory"
    using createdir_None[OF assms(4)] fs2[of depsIncludeDir] frames(3)[of depsIncludeDir] by (simp add: path_defs)
  have rel: "node_at fs5 buildReleaseDir = Some Directory"
    using createdir_None[OF assms(5)] fs2[of buildReleaseDir] frames(3,4)[of buildReleaseDir] by (simp add: path_defs)
  show "node_at fs5 d = Some Directory" if "d \<in> {depsPrecompiledDir, depsIncludeDir, buildReleaseDir}"
    using that pre inc rel frames(4,5)[of depsPrecompiledDir] frames(5)[of depsIncludeDir]
    by (auto simp: path_defs)
qed

text \<open>From the extracted files to the end of the run.\<close>

lemma library_installed:
  assumes libs: "copy_all (library_copies v) fs5 = (None, fs6)" and dlls: "copy_dlls v fs6 = (None, fs7)"
    and last: "clean_up fs7 = (None, fs')" and dirs: "\<forall>(s, d)\<in>set (library_copies v). node_at fs5 d = Some Directory"
    and copy: "(src, dst) \<in> set (library_copies v)" and data: "node_at fs5 src = Some (Regular data)"
  shows "node_at fs' (dst @ [last src]) = Some (Regular data)"
proof -
  let ?t = "dst @ [last src]"
  have "prefix [''..'', ''deps''] ?t"
    using copy by (auto simp: library_copies_def path_defs)
  then have "\<not> prefix outputFile ?t" "\<not> prefix outputDir ?t" "\<not> prefix buildReleaseDir ?t"
    by (auto simp: path_defs prefix_def)
  moreover have "node_at fs6 ?t = Some (Regular data)"
    using copy_all_None[OF libs library_copies_apart dirs] copy data by fastforce
  ultimately show ?thesis
    using confinedD[OF confined_clean_up _ last] confinedD[OF confined_copy_dlls _ dlls] by simp
qed

lemma dll_installed:
  assumes libs: "copy_all (library_copies v) fs5 = (None, fs6)" and dlls: "copy_dlls v fs6 = (None, fs7)"
    and last: "clean_up fs7 = (None, fs')" and dir: "node_at fs5 buildReleaseDir = Some Directory"
    and dll: "butlast (outputDir @ m) = dllPath v" "dll_name (last (outputDir @ m))"
    and data: "node_at fs5 (outputDir @ m) = Some (Regular data)"
  shows "node_at fs' (buildReleaseDir @ [last (outputDir @ m)]) = Some (Regular data)"
proof -
  let ?t = "buildReleaseDir @ [last (outputDir @ m)]"
  note frame = confinedD[OF confined_library_copies _ libs]
  have at6: "node_at fs6 (outputDir @ m) = Some (Regular data)" and "node_at fs6 buildReleaseDir = Some Directory"
    using frame[of "outputDir @ m"] frame[of buildReleaseDir] data dir by (simp_all add: path_defs)
  then have dirs: "\<forall>(s, d)\<in>set (map (\<lambda>filename. (filename, buildReleaseDir)) (glob_dll (dllPath v) fs6)).
      node_at fs6 d = Some Directory"
    by simp
  have "outputDir @ m \<in> set (glob_dll (dllPath v) fs6)"
    using dll at6 by (intro in_glob_dll) auto
  then have "\<exists>data. node_at fs6 (outputDir @ m) = Some (Regular data) \<and> node_at fs7 ?t = Some (Regular data)"
    using conjunct1[OF copy_all_None[OF dlls[unfolded copy_dlls_def] dll_copies_apart dirs]] by simp
  then have "node_at fs7 ?t = Some (Regular data)"
    using at6 by simp
  then show ?thesis
    using confinedD[OF confined_clean_up _ last, of ?t] by (simp add: path_defs)
qed

text \<open>C26. A run without an exception has put every library, header and DLL of the archive where it belongs and has removed
  what it downloaded, provided that no file has the name of one of the three directories.\<close>

theorem install_complete:
  assumes run: "install env_dist json_load urlopen unzip fs = (out, None, fs')"
    and version: "read_version json_load fs = Inr v"
    and archive: "urlopen (librdkafkaNugetUrl env_dist v) = Some archive" "unzip archive = Some members" "distinct (map fst members)"
    and no_file: "\<forall>d\<in>{depsPrecompiledDir, depsIncludeDir, buildReleaseDir}. \<forall>data. node_at fs d \<noteq> Some (Regular data)"
  shows "((m, Some data) \<in> set members \<longrightarrow> destination v m = Some target \<longrightarrow> node_at fs' target = Some (Regular data)) \<and>
    (prefix outputDir q \<or> q = outputFile \<longrightarrow> node_at fs' q = None)"
proof (intro conjI impI)
  have "effects (install_steps urlopen unzip (librdkafkaNugetUrl env_dist v) v) fs = (None, fs')"
    using run version by (simp add: install_def Let_def)
  then obtain fs1 fs2 fs3 fs4 fs5 fs6 fs7 where
    start: "download urlopen (librdkafkaNugetUrl env_dist v) fs = (None, fs1)" "extract_package unzip fs1 = (None, fs2)"
      "createdir depsPrecompiledDir fs2 = (None, fs3)" "createdir depsIncludeDir fs3 = (None, fs4)" "createdir buildReleaseDir fs4 = (None, fs5)"
    and libs: "copy_all (library_copies v) fs5 = (None, fs6)" and dlls: "copy_dlls v fs6 = (None, fs7)"
    and last: "clean_up fs7 = (None, fs')"
    by (rule install_steps_None)
  show "node_at fs' q = None" if "prefix outputDir q \<or> q = outputFile"
    using last that by (rule clean_up_None)
  note dirs = prepared(2)[OF start archive no_file]
  have lib_dirs: "\<forall>(s, d)\<in>set (library_copies v). node_at fs5 d = Some Directory"
    using dirs by (simp add: library_copies_def)
  show "node_at fs' target = Some (Regular data)" if m: "(m, Some data) \<in> set members" and dest: "destination v m = Some target"
    using dest
  proof (cases rule: destinationE)
    case (library d)
    then show ?thesis
      using library_installed[OF libs dlls last lib_dirs library(1) prepared(1)[OF start archive no_file m]] by simp
  next
    case dll
    then show ?thesis
      using dll_installed[OF libs dlls last dirs _ _ prepared(1)[OF start archive no_file m]] by simp
  qed
qed

section \<open>Concrete runs\<close>

definition example_files :: files where
  "example_files = [([''..'', ''package.json''], Regular ''package''), ([''..'', ''lib''], Directory)]"

definition example_json :: "string \<Rightarrow> (string \<Rightarrow> string option) option" where
  "example_json f = (if f = ''package'' then Some (\<lambda>k. if k = ''librdkafka'' then Some ''1.0'' else None) else None)"

definition example_members :: "(path \<times> string option) list" where
  "example_members =
     [([''build'', ''native'', ''lib'', ''win'', ''x64'', ''win-x64-Release'', ''v142'', ''librdkafka.lib''], Some ''a''),
      ([''build'', ''native'', ''lib'', ''win'', ''x64'', ''win-x64-Release'', ''v142'', ''librdkafkacpp.lib''], Some ''b''),
      ([''build'', ''native'', ''include'', ''librdkafka'', ''rdkafka.h''], Some ''c''),
      ([''build'', ''native'', ''include'', ''librdkafka'', ''rdkafkacpp.h''], Some ''d''),
      ([''runtimes'', ''win-x64'', ''native'', ''librdkafka.dll''], Some ''e'')]"

definition example_unzip :: "string \<Rightarrow> (path \<times> string option) list option" where
  "example_unzip archive = (if archive = ''zip'' then Some example_members else None)"

definition example_install :: "files \<Rightarrow> string list \<times> install_error option \<times> files" where
  "example_install = install (\<lambda>x. None) example_json (\<lambda>url. Some ''zip'') example_unzip"

lemma example_install_returns: "fst (snd (example_install example_files)) = None"
  by code_simp

theorem install_complete_witness:
  "\<exists>out fs'. example_install example_files = (out, None, fs') \<and>
     node_at fs' [''Release'', ''librdkafka.dll''] = Some (Regular ''e'') \<and> node_at fs' outputDir = None"
proof -
  obtain out fs' where run: "example_install example_files = (out, None, fs')"
    using example_install_returns by (metis prod.collapse)
  have version: "read_version example_json example_files = Inr ''1.0''" by code_simp
  have members: "([''runtimes'', ''win-x64'', ''native'', ''librdkafka.dll''], Some ''e'') \<in> set example_members"
    "distinct (map fst example_members)"
    "destination ''1.0'' [''runtimes'', ''win-x64'', ''native'', ''librdkafka.dll''] = Some [''Release'', ''librdkafka.dll'']"
    by code_simp+
  have no_file: "\<forall>d\<in>{depsPrecompiledDir, depsIncludeDir, buildReleaseDir}. \<forall>data. node_at example_files d \<noteq> Some (Regular data)"
    by (simp add: path_defs node_at_def given_def example_files_def)
  show ?thesis
    using install_complete[OF run[unfolded example_install_def] version _ _ members(2) no_file, of "''zip''"
        "[''runtimes'', ''win-x64'', ''native'', ''librdkafka.dll'']" "''e''" "[''Release'', ''librdkafka.dll'']" outputDir]
      run members by (simp add: example_unzip_def)
qed

theorem install_frame_witness:
  "\<not> install_area [''..'', ''lib''] \<and> node_at (snd (snd (example_install example_files))) [''..'', ''lib''] = Some Directory"
proof -
  have "\<not> install_area [''..'', ''lib'']" "node_at example_files [''..'', ''lib''] = Some Directory"
    by code_simp+
  then show ?thesis
    using install_frame[of "[''..'', ''lib'']"] by (simp add: example_install_def)
qed

text \<open>\<open>createdir\<close> takes a file for a directory; the two libraries are then copied over that file, one after
  the other, and the script ends as if they were installed.\<close>

definition blocked_files :: files where
  "blocked_files = ([''..'', ''deps''], Directory) # (depsPrecompiledDir, Regular ''x'') # example_files"

lemma file_in_place_of_directory:
  "fst (snd (example_install blocked_files)) = None \<and>
   node_at (snd (snd (example_install blocked_files))) depsPrecompiledDir = Some (Regular ''b'')"
  by code_simp

text \<open>An archive without the libraries: the script stops, and the download and what was extracted stay.\<close>

definition aborted_run :: "string list \<times> install_error option \<times> files" where
  "aborted_run = install (\<lambda>x. None) example_json (\<lambda>url. Some ''zip'')
     (\<lambda>archive. Some [([''runtimes'', ''win-x64'', ''native'', ''old.dll''], Some ''old'')]) example_files"

lemma aborted_run_leaves_download:
  "fst (snd aborted_run) = Some (OSError ENOENT) \<and> node_at (snd (snd aborted_run)) outputFile = Some (Regular ''zip'')"
  by code_simp

text \<open>The directory for what is extracted is not emptied: a DLL that an aborted run has left there is installed by
  the next run, although it is not in the archive.\<close>

lemma stale_dll_is_installed:
  "fst (snd (example_install (snd (snd aborted_run)))) = None \<and>
   node_at (snd (snd (example_install (snd (snd aborted_run))))) [''Release'', ''old.dll''] = Some (Regular ''old'')"
  by code_simp

end
