(* ===== verification/Spec2Isabelle.thy ===== *)
theory Spec2Isabelle
  imports Driver WindowsInstall
begin

text \<open>
  A model of the Python programs of this repository: \<open>src/cpplint.py\<close>, the C++ style checker that it keeps
  beside its native code, and \<open>src/deps/windows-install.py\<close>, the script that installs librdkafka on Windows.

  \<^bold>\<open>The program.\<close>  \<open>main\<close> parses the arguments and calls \<open>ProcessFile\<close> for each file.  \<open>ProcessFile\<close> reads
  the configuration files above the file, then the file itself, and hands its lines to \<open>ProcessFileData\<close>, which
  removes comments and string contents (\<open>CleansedLines\<close>), runs the checks of whole files, and calls
  \<open>ProcessLine\<close> for each line.  \<open>ProcessLine\<close> first updates \<open>NestingState\<close>, the stack of blocks the line
  is in, and then runs the checks of one line, which read the cleansed lines, the stack, the length of the
  current function (\<open>_FunctionState\<close>) and the headers included so far (\<open>_IncludeState\<close>).  What a check finds
  goes through \<open>Error\<close>, which drops reports that a NOLINT comment, the verbosity or a filter excludes, and
  counts and prints the others (\<open>_CppLintState\<close>).  The installation script is independent of the checker: it
  downloads and unpacks an archive, copies files out of it and removes it.

  \<^bold>\<open>Theories and code.\<close>  A function of the source has the definition of the same name (a leading underscore is
  dropped; methods that would clash get a prefix, as in \<open>FS_Check\<close>); a regular expression of the source is
  a constant \<open>RE_...\<close> with its text above it.  Long functions are split into definitions for their paragraphs,
  composed in the order of the source.

  \<^item> \<open>Prelude\<close>, \<open>PyString\<close>, \<open>PyRegex\<close>, \<open>RegexFacts\<close>: Python's indexing, string methods and regular
    expressions (\<open>Match\<close>, \<open>Search\<close>, \<open>ReplaceAll\<close>), with exceptions as values.
  \<^item> \<open>LintLog\<close>: \<open>_CppLintState\<close>, NOLINT suppressions, \<open>_ShouldPrintError\<close>, \<open>Error\<close>.
  \<^item> \<open>Brackets\<close>: \<open>CloseExpression\<close>, \<open>ReverseCloseExpression\<close> and the scanners below them.
  \<^item> \<open>Cleansing\<close>: raw strings, comments, string contents, \<open>CleansedLines\<close>.
  \<^item> \<open>Paths\<close>, \<open>Includes\<close>: \<open>FileInfo\<close>; \<open>_IncludeState\<close>, \<open>_ClassifyInclude\<close>, \<open>CheckIncludeLine\<close>.
  \<^item> \<open>Nesting\<close>: the block classes, \<open>NestingState\<close>, indentation inside namespaces.
  \<^item> \<open>CheckBase\<close>: what a check is, and the contract of the checks.
  \<^item> \<open>FunctionState\<close>, \<open>FileChecks\<close>, \<open>WhatYouUse\<close>, \<open>LineChecks\<close>, \<open>KeywordChecks\<close>, \<open>CheckMacros\<close>,
    \<open>Spacing\<close>, \<open>RValue\<close>, \<open>Braces\<close>, \<open>Casts\<close>, \<open>References\<close>, \<open>Constructors\<close>, \<open>Language\<close>, \<open>Style\<close>: the
    checks, named after the \<open>Check...\<close> functions they hold.
  \<^item> \<open>LineDriver\<close>: \<open>ProcessLine\<close> and \<open>ProcessFileData\<close>, as functions and as a step relation.
  \<^item> \<open>Driver\<close>: global variables, \<open>ProcessConfigOverrides\<close>, \<open>ProcessFile\<close>, \<open>ParseArguments\<close>, \<open>main\<close>.
  \<^item> \<open>WindowsInstall\<close>: \<open>windows-install.py\<close>, on an abstract file system; \<open>install\<close> is the whole script.

  \<^bold>\<open>State and effects.\<close>  Objects are records that are passed and returned; \<open>world\<close> holds the global
  \<open>_cpplint_state\<close>, the suppressions and what was written to \<open>stderr\<close>, \<open>globals\<close> adds \<open>_root\<close>,
  \<open>_line_length\<close> and \<open>_valid_extensions\<close>.  A check returns the list of its calls of \<open>error\<close>, in their order;
  \<open>ProcessFileData\<close> returns the list of its reports and NOLINT comments, and \<open>run_events\<close> executes them.
  A Python exception is \<open>Inl\<close> of a \<open>result\<close>; \<open>None\<close> of an \<open>option\<close> result is a call that does not
  return; \<open>sys.exit\<close> is \<open>Exit\<close>.

  \<^bold>\<open>What is shown.\<close>
  \<^item> \<open>RegexFacts\<close>: the backtracking matcher finds exactly the matches that the pattern allows, the
    leftmost first; the facts about single patterns in the other theories rest on this.
  \<^item> \<open>Brackets\<close>: the scanners find the partner of a bracket across lines, in both directions, exactly when
    the brackets in between match.
  \<^item> \<open>Cleansing\<close>: what remains of raw strings, comments, literals; all versions of the lines have one length.
  \<^item> \<open>Nesting\<close>: \<open>Update\<close> returns on every line; the depth after a line is that of its braces; a conditional
    keeps the stack of its first branch; blocks keep their identities.
  \<^item> \<open>Includes\<close>, \<open>Paths\<close>, \<open>WhatYouUse\<close>: the documented order of includes is exactly the accepted one,
    duplicates are found, the name of a header is relative to the checkout, what is used and not included is
    reported once, where it is used last.
  \<^item> \<open>LintLog\<close>: what is printed is what the filters, suppressions and verbosity allow, and it is counted.
  \<^item> the checks: for each, that it returns on every line or which input makes it raise (\<open>total_checks\<close>) and
    that it only reports documented categories (\<open>listed_intros\<close>); for header guards, function lengths, the
    macro replacements, constructor arguments, \<open>_GetTextInside\<close>, operator masking, line width: their behaviour.
  \<^item> \<open>LineDriver\<close>: an invariant of every reachable state, the agreement of the step relation with the loop,
    and that every line is processed unless one of the named causes stops the linter.
  \<^item> \<open>Driver\<close>: what a file can change for the files after it, what an accepted command line guarantees, and
    that what is printed is what is counted.
  \<^item> \<open>WindowsInstall\<close>: what a run can change, with or without an exception, and what a run without an
    exception has installed and removed.

  \<^bold>\<open>Interfaces.\<close>  \<open>line_scanner\<close> (\<open>Brackets\<close>) is what the search across lines needs of a scanner of one line,
  interpreted on the forward and the backward scanner; \<open>error_handler\<close> (\<open>LintLog\<close>) is what \<open>Error\<close> promises
  to its callers; \<open>partial_check\<close> (\<open>CheckBase\<close>) is the contract of a check of one line that returns on safe
  lines and reports documented categories only, and \<open>line_check\<close> extends it for checks that return on every
  line; they are interpreted on the checks that \<open>ProcessLine\<close> runs.

  \<^bold>\<open>Bounds and termination.\<close>  No definition has fuel.  Loops over lines are recursions over the lines or over an
  index that moves towards the end; the walk up the directories ends because the paths get shorter; the loops
  that rewrite a line end because the text behind the match gets shorter, or fewer characters are left to mask.
  \<open>IsRValueType\<close> and the search for the top of a Subversion checkout can run for ever and are partial
  functions.  Integers are unbounded, as in Python.

  \<^bold>\<open>Parameters.\<close>  For the checker, the file system (current directory, existing paths, contents of files), and
  \<open>re.compile\<close> for the patterns that users write in configuration files and in \<open>--root\<close>, are arguments.
  For the script, the environment, the network and the decoders of JSON and zip archives are.

  \<^bold>\<open>Not modelled.\<close>
  \<^item> Characters beyond Latin-1: the width of a line is computed for Latin-1 text, where normalisation
    does not change it and no character is wide.
  \<^item> \<open>extra_check_functions\<close>, which nothing in the program passes, the unused variable \<open>fullname\<close> of
    \<open>CheckLanguage\<close>, and the cache of compiled patterns.
  \<^item> The order in which Python 2 enumerates a dictionary or a set: association lists and lists stand for them.
  \<^item> Invalid regular expressions in configuration files and in \<open>--root\<close> (\<open>re.error\<close>).
  \<^item> Files that disappear while they are read, and output that fails.
  \<^item> In the script: time stamps, permissions, the case of names in paths, a disk that is full, and the
    effects of other processes.
  \<^item> The JavaScript library, the C++ binding and the build scripts, which are not Python.
\<close>

end
